(* ===== verification/C_Prelude.thy ===== *)
theory C_Prelude
  imports Main "HOL-Library.Word"
begin

text \<open>
  Shared vocabulary of the development: C strings and the \<open><string.h>\<close> and
  \<open>snprintf\<close> fragments the sources use, error numbers, process termination, programs
  that thread a state and may terminate the process, and the generic lemmas on them.

  A C string is the HOL \<^typ>\<open>string\<close> of the characters before its terminating null
  byte. Pointers that may be \<open>NULL\<close> are \<open>option\<close> values.
\<close>

named_theorems cstr \<open>unfolding rules of the C string functions\<close>
named_theorems prog \<open>rewriting of programs that thread a state and may halt\<close>

section \<open>Error numbers and process termination\<close>

datatype errno = E_OK | EPERM | ENOENT | EINTR | EBADF | EAGAIN | ENOMEM | EACCES | EEXIST | EINVAL
  | ERANGE | ENOEXEC | ENOSYS | ENAMETOOLONG | ENOTSUP | EOTHER nat

text \<open>How a process ends: \<open>exit(status)\<close>, \<open>_exit(status)\<close>, \<open>abort()\<close>, being replaced by another
  program (\<open>exec\<close>), or the
  undefined behaviour the C standard leaves open (a wild read or write).\<close>

datatype halt = Exit int | UExit int | Abort | Undefined | Execed string "string list"

abbreviation (input) EXIT_SUCCESS :: int where "EXIT_SUCCESS \<equiv> 0"
abbreviation (input) EXIT_FAILURE :: int where "EXIT_FAILURE \<equiv> 1"

section \<open>Programs: a state is threaded, the process may halt\<close>

type_synonym ('s, 'a) program = "'s \<Rightarrow> (halt + 'a) \<times> 's"

definition ret :: "'a \<Rightarrow> ('s, 'a) program" where
  "ret a = (\<lambda>s. (Inr a, s))"

definition halts :: "halt \<Rightarrow> ('s, 'a) program" where
  "halts h = (\<lambda>s. (Inl h, s))"

definition andThen :: "('s, 'a) program \<Rightarrow> ('a \<Rightarrow> ('s, 'b) program) \<Rightarrow> ('s, 'b) program" where
  "andThen m f = (\<lambda>s. case m s of (Inl h, s') \<Rightarrow> (Inl h, s') | (Inr a, s') \<Rightarrow> f a s')"

definition modify :: "('s \<Rightarrow> 's) \<Rightarrow> ('s, unit) program" where
  "modify f = (\<lambda>s. (Inr (), f s))"

definition query :: "('s \<Rightarrow> 'a) \<Rightarrow> ('s, 'a) program" where
  "query f = (\<lambda>s. (Inr (f s), s))"

fun forEach :: "'a list \<Rightarrow> ('a \<Rightarrow> ('s, unit) program) \<Rightarrow> ('s, unit) program" where
  "forEach [] f = ret ()"
| "forEach (x # xs) f = andThen (f x) (\<lambda>_. forEach xs f)"

text \<open>Straight-line code.\<close>

fun seqs :: "('s, unit) program list \<Rightarrow> ('s, unit) program" where
  "seqs [] = ret ()"
| "seqs (m # ms) = andThen m (\<lambda>_. seqs ms)"

lemma ret_run [simp, prog]: "ret a s = (Inr a, s)"
  by (simp add: ret_def)

lemma halts_run [simp, prog]: "halts h s = (Inl h, s)"
  by (simp add: halts_def)

lemma modify_run [simp, prog]: "modify f s = (Inr (), f s)"
  by (simp add: modify_def)

lemma query_run [simp, prog]: "query f s = (Inr (f s), s)"
  by (simp add: query_def)

lemma andThen_run [prog]:
  "andThen m f s = (case m s of (Inl h, s') \<Rightarrow> (Inl h, s') | (Inr a, s') \<Rightarrow> f a s')"
  by (simp add: andThen_def)

lemma andThen_Inr [simp]: "m s = (Inr a, s') \<Longrightarrow> andThen m f s = f a s'"
  by (simp add: andThen_def)

lemma andThen_Inl [simp]: "m s = (Inl h, s') \<Longrightarrow> andThen m f s = (Inl h, s')"
  by (simp add: andThen_def)

lemma andThen_ret [simp]: "andThen (ret a) f = f a"
  by (simp add: andThen_def fun_eq_iff)

lemma andThen_ret_right [simp]: "andThen m ret = m"
  by (auto simp: andThen_def fun_eq_iff ret_def split: prod.splits sum.splits)

lemma andThen_assoc: "andThen (andThen m f) g = andThen m (\<lambda>a. andThen (f a) g)"
  by (auto simp: andThen_def fun_eq_iff split: prod.splits sum.splits)

lemma andThen_InrE:
  assumes "andThen m f s = (Inr b, s'')"
  obtains a s' where "m s = (Inr a, s')" and "f a s' = (Inr b, s'')"
  using assms by (auto simp: andThen_def split: prod.splits sum.splits)

lemma andThen_InlE:
  assumes "andThen m f s = (Inl h, s'')"
  obtains (first) "m s = (Inl h, s'')"
    | (second) a s' where "m s = (Inr a, s')" and "f a s' = (Inl h, s'')"
  using assms by (auto simp: andThen_def split: prod.splits sum.splits)

text \<open>An invariant of every step of a loop body is an invariant of the loop, whether or not the
  process halts on the way.\<close>

lemma forEach_invariant:
  assumes step: "\<And>x s r s'. x \<in> set xs \<Longrightarrow> P s \<Longrightarrow> f x s = (r, s') \<Longrightarrow> P s'"
    and "P s" and "forEach xs f s = (r, s')"
  shows "P s'"
  using assms
proof (induction xs arbitrary: s)
  case (Cons x xs)
  obtain r1 s1 where fx: "f x s = (r1, s1)" by fastforce
  with Cons.prems(1,2) have "P s1" by (metis list.set_intros(1))
  show ?case
  proof (cases r1)
    case (Inl h)
    with fx Cons.prems(3) \<open>P s1\<close> show ?thesis by simp
  next
    case (Inr u)
    with fx Cons.prems(3) have "forEach xs f s1 = (r, s')" by simp
    from this \<open>P s1\<close> Cons.prems(1) show ?thesis
      using Cons.IH list.set_intros(2) by metis
  qed
qed simp

subsection \<open>Invariants of programs\<close>

text \<open>A program keeps a property of the state if it holds after every run from a state where it held,
  whether the run returns or ends the process. The rules follow the structure of the programs.\<close>

named_theorems keep \<open>programs that keep a property of the state\<close>

definition keeps :: "('s \<Rightarrow> bool) \<Rightarrow> ('s, 'a) program \<Rightarrow> bool" where
  "keeps I m = (\<forall>s. I s \<longrightarrow> I (snd (m s)))"

lemma keepsD: "keeps I m \<Longrightarrow> I s \<Longrightarrow> m s = (r, s') \<Longrightarrow> I s'"
  unfolding keeps_def by (metis snd_conv)

lemma keepsI: "(\<And>s r s'. I s \<Longrightarrow> m s = (r, s') \<Longrightarrow> I s') \<Longrightarrow> keeps I m"
  unfolding keeps_def by (metis prod.collapse)

lemma keeps_ret [keep]: "keeps I (ret a)"
  by (simp add: keeps_def)

lemma keeps_halts [keep]: "keeps I (halts h)"
  by (simp add: keeps_def)

lemma keeps_query [keep]: "keeps I (query f)"
  by (simp add: keeps_def)

lemma keeps_modify [keep]: "(\<And>s. I s \<Longrightarrow> I (f s)) \<Longrightarrow> keeps I (modify f)"
  by (simp add: keeps_def)

lemma keeps_andThen [keep]: "keeps I m \<Longrightarrow> (\<And>a. keeps I (f a)) \<Longrightarrow> keeps I (andThen m f)"
  by (auto simp: keeps_def andThen_def split: prod.split sum.split)

lemma keeps_seqs [keep]:
  "keeps I (seqs [])" "keeps I m \<Longrightarrow> keeps I (seqs ms) \<Longrightarrow> keeps I (seqs (m # ms))"
  by (auto intro: keep)

lemma keeps_forEach [keep]: "(\<And>x. x \<in> set xs \<Longrightarrow> keeps I (f x)) \<Longrightarrow> keeps I (forEach xs f)"
  by (induction xs) (auto intro: keep)

lemma keeps_if [keep]: "(b \<Longrightarrow> keeps I m) \<Longrightarrow> (\<not> b \<Longrightarrow> keeps I n) \<Longrightarrow> keeps I (if b then m else n)"
  by simp

lemma keeps_option [keep]:
  "(x = None \<Longrightarrow> keeps I m) \<Longrightarrow> (\<And>a. x = Some a \<Longrightarrow> keeps I (f a)) \<Longrightarrow> keeps I (case x of None \<Rightarrow> m | Some a \<Rightarrow> f a)"
  by (cases x) simp_all

lemma keeps_prod [keep]: "(\<And>a b. x = (a, b) \<Longrightarrow> keeps I (f a b)) \<Longrightarrow> keeps I (case x of (a, b) \<Rightarrow> f a b)"
  by (cases x) simp

lemma keeps_let [keep]: "keeps I (f x) \<Longrightarrow> keeps I (let y = x in f y)"
  by simp

section \<open>C strings\<close>

abbreviation NUL :: char where "NUL \<equiv> CHR 0x00"
abbreviation NL :: char where "NL \<equiv> CHR 0x0A"
abbreviation TAB :: char where "TAB \<equiv> CHR 0x09"
abbreviation QUOTE :: char where "QUOTE \<equiv> CHR 0x27"

text \<open>\<open>strchr(s, c)\<close> splits the string at the first \<open>c\<close>: what precedes it and what follows it,
  \<open>None\<close> for a \<open>NULL\<close> result.\<close>

fun split_at :: "char \<Rightarrow> string \<Rightarrow> (string \<times> string) option" where
  "split_at c [] = None"
| "split_at c (x # xs) =
     (if x = c then Some ([], xs)
      else map_option (\<lambda>(a, b). (x # a, b)) (split_at c xs))"

lemma split_at_None: "split_at c s = None \<longleftrightarrow> c \<notin> set s"
  by (induction s) auto

lemma split_at_Some: "split_at c s = Some (a, b) \<longleftrightarrow> s = a @ c # b \<and> c \<notin> set a"
proof (induction s arbitrary: a)
  case (Cons x xs)
  then show ?case by (cases a) auto
qed simp

text \<open>\<open>strncmp(a, b, n) == 0\<close>: the two strings agree up to \<open>n\<close> characters or to a common end.\<close>

definition strncmp_eq :: "string \<Rightarrow> string \<Rightarrow> nat \<Rightarrow> bool" where
  "strncmp_eq a b n = (take n a = take n b)"

text \<open>\<open>s[n]\<close> of a C string: the terminating null byte at the end. Beyond that the read is out of
  the string; the callers never get there.\<close>

definition cchar_at :: "string \<Rightarrow> nat \<Rightarrow> char" where
  "cchar_at s n = (if n < length s then s ! n else NUL)"

text \<open>\<open>snprintf(buf, size, ...)\<close> stores at most \<open>size - 1\<close> characters of the text and a null byte.\<close>

definition snprintf_buf :: "nat \<Rightarrow> string \<Rightarrow> string" where
  "snprintf_buf n t = take (n - 1) t"

text \<open>\<open>strncpy(dst, src, n)\<close> into an array of \<open>n\<close> bytes: at most \<open>n\<close> characters; the array is
  terminated only when the source is shorter than \<open>n\<close>.\<close>

definition strncpy_arr :: "nat \<Rightarrow> string \<Rightarrow> string" where
  "strncpy_arr n src = take n src"

lemma snprintf_buf_length [simp]: "0 < n \<Longrightarrow> length (snprintf_buf n t) < n"
  by (simp add: snprintf_buf_def)

lemma snprintf_buf_fits [simp]: "length t < n \<Longrightarrow> snprintf_buf n t = t"
  by (simp add: snprintf_buf_def)

lemma strncpy_arr_fits [simp]: "length t \<le> n \<Longrightarrow> strncpy_arr n t = t"
  by (simp add: strncpy_arr_def)

lemma strncpy_arr_terminated [simp]: "length t < n \<Longrightarrow> length (strncpy_arr n t) < n"
  by (simp add: strncpy_arr_def)

section \<open>Decimal output (\<open>%d\<close>, \<open>%ld\<close>)\<close>

definition digit_char :: "nat \<Rightarrow> char" where
  "digit_char d = char_of (48 + d)"

fun show_nat :: "nat \<Rightarrow> string" where
  "show_nat n = (if n < 10 then [digit_char n] else show_nat (n div 10) @ [digit_char (n mod 10)])"

declare show_nat.simps [simp del]

definition show_int :: "int \<Rightarrow> string" where
  "show_int i = (if i < 0 then CHR ''-'' # show_nat (nat (- i)) else show_nat (nat i))"

lemma show_nat_not_Nil [simp]: "show_nat n \<noteq> []"
  by (subst show_nat.simps) simp

lemma digit_char_less: "d < 10 \<Longrightarrow> of_char (digit_char d) = 48 + d"
  by (simp add: digit_char_def)

lemma show_nat_digits: "c \<in> set (show_nat n) \<Longrightarrow> \<exists>d < 10. c = digit_char d"
proof (induction n rule: show_nat.induct)
  case (1 n)
  then show ?case
    by (cases "n < 10") (auto simp: show_nat.simps[of n] intro: exI[where x = "n mod 10"])
qed

lemma show_nat_length: "n < 10 ^ Suc k \<Longrightarrow> length (show_nat n) \<le> Suc k"
proof (induction k arbitrary: n)
  case 0
  then show ?case by (simp add: show_nat.simps)
next
  case (Suc k)
  then show ?case by (cases "n < 10") (simp_all add: show_nat.simps[of n] less_mult_imp_div_less)
qed

section \<open>Formatted messages\<close>

text \<open>A \<open>printf\<close>-style call is recorded as its format string and its arguments.\<close>

datatype fmt_arg = FInt int | FStr string | FChar char

type_synonym message = "string \<times> fmt_arg list"

section \<open>Single bits\<close>

lemma single_bit: "and b (2 ^ i) \<noteq> 0 \<Longrightarrow> and b (2 ^ i) = 2 ^ i" for b :: "'a::len word"
proof -
  have "and b (2 ^ i) = (if bit b i then 2 ^ i else 0)"
    by (rule bit_word_eqI) (auto simp: bit_and_iff bit_exp_iff)
  then show "and b (2 ^ i) \<noteq> 0 \<Longrightarrow> and b (2 ^ i) = 2 ^ i" by presburger
qed

lemma sint_small: "0 \<le> x \<Longrightarrow> x < 2 ^ 31 \<Longrightarrow> sint (word_of_int x :: 32 word) = x"
  by (simp add: signed_of_int signed_take_bit_int_eq_self)

section \<open>Command lines (\<open>getopt\<close>)\<close>

text \<open>The GNU \<open>getopt\<close>: options may follow operands (which are moved behind them), options may be
  clustered, and \<open>--\<close> ends the options. The result is the sequence of the option letters it
  returns, each with its \<open>optarg\<close>, a question mark for an unknown letter or a missing argument, and
  the operands from \<open>optind\<close> on. The messages it prints itself are left out.\<close>

fun opt_kind :: "string \<Rightarrow> char \<Rightarrow> bool option" where
  "opt_kind [] c = None"
| "opt_kind (x # os) c =
     (if x = c \<and> c \<noteq> CHR '':'' then Some (case os of y # _ \<Rightarrow> y = CHR '':'' | [] \<Rightarrow> False)
      else opt_kind os c)"

fun opt_cluster :: "string \<Rightarrow> string \<Rightarrow> string list \<Rightarrow> (char \<times> string) list \<times> string list" where
  "opt_cluster os [] as = ([], as)"
| "opt_cluster os (c # cs) as = (case opt_kind os c of
       None \<Rightarrow> (case opt_cluster os cs as of (r, as') \<Rightarrow> ((CHR ''?'', []) # r, as'))
     | Some False \<Rightarrow> (case opt_cluster os cs as of (r, as') \<Rightarrow> ((c, []) # r, as'))
     | Some True \<Rightarrow>
         if cs \<noteq> [] then ([(c, cs)], as)
         else case as of [] \<Rightarrow> ([(CHR ''?'', [])], []) | a # as' \<Rightarrow> ([(c, a)], as'))"

lemma opt_cluster_length: "length (snd (opt_cluster os cs as)) \<le> length as"
  by (induction os cs as rule: opt_cluster.induct) (auto split: option.splits bool.splits list.splits prod.splits)

function getopt :: "string \<Rightarrow> string list \<Rightarrow> (char \<times> string) list \<times> string list" where
  "getopt os [] = ([], [])"
| "getopt os (a # as) =
     (if a = ''--'' then ([], as)
      else case a of
        CHR ''-'' # c # cs \<Rightarrow>
          (case getopt os (snd (opt_cluster os (c # cs) as)) of
             (r, operands) \<Rightarrow> (fst (opt_cluster os (c # cs) as) @ r, operands))
      | _ \<Rightarrow> (case getopt os as of (r, operands) \<Rightarrow> (r, a # operands)))"
  by pat_completeness auto

termination
proof (relation "measure (length o snd)")
  fix os a as x c and cs :: string
  have "length (snd (opt_cluster os (c # cs) as)) \<le> length as" by (rule opt_cluster_length)
  then show "((os, snd (opt_cluster os (c # cs) as)), os, a # as) \<in> measure (length \<circ> snd)"
    by (simp del: opt_cluster.simps)
qed auto


subsection \<open>What a program can return\<close>

named_theorems yield \<open>programs whose results satisfy a predicate\<close>

definition yields :: "('a \<Rightarrow> bool) \<Rightarrow> ('s, 'a) program \<Rightarrow> bool" where
  "yields Q m = (\<forall>s a s'. m s = (Inr a, s') \<longrightarrow> Q a)"

lemma yieldsD: "yields Q m \<Longrightarrow> m s = (Inr a, s') \<Longrightarrow> Q a"
  unfolding yields_def by blast

lemma yields_basic [yield]: "Q a \<Longrightarrow> yields Q (ret a)" "yields Q (halts h)"
  by (simp_all add: yields_def)

lemma yields_andThen [yield]: "(\<And>a. yields Q (f a)) \<Longrightarrow> yields Q (andThen m f)"
  unfolding yields_def by (blast elim: andThen_InrE)

lemma yields_bind: "yields P m \<Longrightarrow> (\<And>a. P a \<Longrightarrow> yields Q (f a)) \<Longrightarrow> yields Q (andThen m f)"
  unfolding yields_def by (blast elim: andThen_InrE)

lemma yields_split [yield]:
  "(b \<Longrightarrow> yields Q m) \<Longrightarrow> (\<not> b \<Longrightarrow> yields Q n) \<Longrightarrow> yields Q (if b then m else n)"
  "yields Q m \<Longrightarrow> (\<And>a. yields Q (g a)) \<Longrightarrow> yields Q (case x of None \<Rightarrow> m | Some a \<Rightarrow> g a)"
  "(\<And>a b. yields Q (h a b)) \<Longrightarrow> yields Q (case p of (a, b) \<Rightarrow> h a b)"
  by (auto split: option.split prod.split)

lemma keeps_bind:
  assumes "keeps I m" and "yields Q m" and "\<And>a. Q a \<Longrightarrow> keeps I (f a)"
  shows "keeps I (andThen m f)"
proof (rule keepsI)
  fix s r s'
  assume I: "I s" and run: "andThen m f s = (r, s')"
  obtain x s1 where m: "m s = (x, s1)" by fastforce
  have "I s1" using keepsD[OF assms(1) I m] .
  show "I s'"
  proof (cases x)
    case (Inl h)
    then show ?thesis using run m \<open>I s1\<close> by (simp add: andThen_def)
  next
    case (Inr a)
    then have "f a s1 = (r, s')" using run m by (simp add: andThen_def)
    moreover have "Q a" using yieldsD[OF assms(2)] m Inr by blast
    ultimately show ?thesis using keepsD[OF assms(3) \<open>I s1\<close>] by blast
  qed
qed

subsection \<open>Properties that hold when a program returns\<close>

text \<open>As \<open>keeps\<close>, but nothing is said about the state in which the process ends.\<close>

named_theorems resume \<open>programs that keep a property of the state when they return\<close>

definition resumes :: "('s \<Rightarrow> bool) \<Rightarrow> ('s, 'a) program \<Rightarrow> bool" where
  "resumes I m = (\<forall>s a s'. I s \<longrightarrow> m s = (Inr a, s') \<longrightarrow> I s')"

lemma resumesD: "resumes I m \<Longrightarrow> I s \<Longrightarrow> m s = (Inr a, s') \<Longrightarrow> I s'"
  unfolding resumes_def by blast

lemma resumes_keeps: "keeps I m \<Longrightarrow> resumes I m"
  unfolding resumes_def by (blast dest: keepsD)

lemma resumes_andThen [resume]: "resumes I m \<Longrightarrow> (\<And>a. resumes I (f a)) \<Longrightarrow> resumes I (andThen m f)"
  unfolding resumes_def by (blast elim: andThen_InrE)

lemma resumes_split [resume]:
  "(b \<Longrightarrow> resumes I m) \<Longrightarrow> (\<not> b \<Longrightarrow> resumes I n) \<Longrightarrow> resumes I (if b then m else n)"
  "resumes I m \<Longrightarrow> (\<And>a. resumes I (g a)) \<Longrightarrow> resumes I (case x of None \<Rightarrow> m | Some a \<Rightarrow> g a)"
  "(\<And>a b. resumes I (h a b)) \<Longrightarrow> resumes I (case p of (a, b) \<Rightarrow> h a b)"
  by (auto split: option.split prod.split)

lemma keeps_conj: "keeps I m \<Longrightarrow> keeps J m \<Longrightarrow> keeps (\<lambda>s. I s \<and> J s) m"
  by (simp add: keeps_def)
section \<open>Buffers\<close>

text \<open>A byte buffer read as a C string.\<close>

definition c_string :: "string \<Rightarrow> string" where
  "c_string buf = takeWhile (\<lambda>c. c \<noteq> NUL) buf"

lemma c_string_append: "NUL \<in> set bs \<Longrightarrow> c_string (bs @ xs) = c_string bs"
  by (simp add: c_string_def takeWhile_append1)

lemma c_string_terminated: "NUL \<notin> set p \<Longrightarrow> c_string (p @ NUL # xs) = p"
  by (induction p) (auto simp: c_string_def)

end
