(* ===== verification/Num_Args.thy ===== *)
theory Num_Args
  imports C_Prelude
begin

unbundle bit_operations_syntax

text \<open>
  Numeric command-line arguments: \<open>lib/get_num.c\<close> (\<open>gnFail\<close>, \<open>getNum\<close>, \<open>getLong\<close>,
  \<open>getInt\<close>) and \<open>timers/itimerspec_from_str.c\<close> (\<open>itimerspecFromStr\<close>), over a model
  of the C library's \<open>strtol\<close> and \<open>atoi\<close> for a 64-bit \<open>long\<close> and a 32-bit \<open>int\<close>.
  The lemmas characterise exactly which texts are accepted, with which values, and show
  that printing and reading a number is a round trip.
\<close>

section \<open>\<open>strtol\<close> and \<open>atoi\<close>\<close>

abbreviation (input) LONG_MIN :: int where "LONG_MIN \<equiv> - (2 ^ 63)"
abbreviation (input) LONG_MAX :: int where "LONG_MAX \<equiv> 2 ^ 63 - 1"
abbreviation (input) INT_MIN :: int where "INT_MIN \<equiv> - (2 ^ 31)"
abbreviation (input) INT_MAX :: int where "INT_MAX \<equiv> 2 ^ 31 - 1"

definition isspace :: "char \<Rightarrow> bool" where
  "isspace c = (let n = (of_char c :: nat) in n = 32 \<or> (9 \<le> n \<and> n \<le> 13))"

definition digit_val :: "char \<Rightarrow> nat option" where
  "digit_val c =
     (let n = (of_char c :: nat) in
      if 48 \<le> n \<and> n \<le> 57 then Some (n - 48)
      else if 97 \<le> n \<and> n \<le> 122 then Some (n - 87)
      else if 65 \<le> n \<and> n \<le> 90 then Some (n - 55)
      else None)"

definition is_digit :: "nat \<Rightarrow> char \<Rightarrow> bool" where
  "is_digit base c = (case digit_val c of None \<Rightarrow> False | Some d \<Rightarrow> d < base)"

definition digits_val :: "nat \<Rightarrow> string \<Rightarrow> nat" where
  "digits_val base s = foldl (\<lambda>a c. base * a + the (digit_val c)) 0 s"

definition strip_sign :: "string \<Rightarrow> bool \<times> string" where
  "strip_sign s =
     (case s of [] \<Rightarrow> (False, [])
      | c # cs \<Rightarrow> if c = CHR ''-'' then (True, cs) else if c = CHR ''+'' then (False, cs)
                 else (False, c # cs))"

definition hex_prefix :: "string \<Rightarrow> bool" where
  "hex_prefix s =
     (case s of
        z # x # d # _ \<Rightarrow> z = CHR ''0'' \<and> (x = CHR ''x'' \<or> x = CHR ''X'') \<and> is_digit 16 d
      | _ \<Rightarrow> False)"

text \<open>The base that applies and the text after a \<open>0x\<close> prefix; base 0 asks for C notation.\<close>

definition strtol_base :: "nat \<Rightarrow> string \<Rightarrow> nat \<times> string" where
  "strtol_base base s =
     (if (base = 0 \<or> base = 16) \<and> hex_prefix s then (16, drop 2 s)
      else if base = 0 then (if s \<noteq> [] \<and> hd s = CHR ''0'' then (8, s) else (10, s))
      else (base, s))"

text \<open>\<open>strtol(s, &endptr, base)\<close>: the value, the text at \<open>endptr\<close>, and whether \<open>errno\<close> was set to
  \<open>ERANGE\<close> because the value was clipped to the range of \<open>long\<close>.\<close>

definition strtol :: "string \<Rightarrow> nat \<Rightarrow> int \<times> string \<times> bool" where
  "strtol s base =
     (let (neg, s2) = strip_sign (dropWhile isspace s);
          (b, s3) = strtol_base base s2;
          ds = takeWhile (is_digit b) s3;
          v = (if neg then - int (digits_val b ds) else int (digits_val b ds))
      in if ds = [] then (0, s, False)
         else if v < LONG_MIN then (LONG_MIN, dropWhile (is_digit b) s3, True)
         else if LONG_MAX < v then (LONG_MAX, dropWhile (is_digit b) s3, True)
         else (v, dropWhile (is_digit b) s3, False))"

text \<open>\<open>atoi(s)\<close> converts the \<open>long\<close> that \<open>strtol(s, NULL, 10)\<close> returns to \<open>int\<close>.\<close>

definition atoi :: "string \<Rightarrow> int" where
  "atoi s = sint (word_of_int (fst (strtol s 10)) :: 32 word)"

section \<open>\<open>lib/get_num.c\<close>\<close>

abbreviation (input) GN_NONNEG :: "32 word" where "GN_NONNEG \<equiv> 0x01"
abbreviation (input) GN_GT_0 :: "32 word" where "GN_GT_0 \<equiv> 0x02"
abbreviation (input) GN_ANY_BASE :: "32 word" where "GN_ANY_BASE \<equiv> 0x40"
abbreviation (input) GN_BASE_8 :: "32 word" where "GN_BASE_8 \<equiv> 0x80"
abbreviation (input) GN_BASE_16 :: "32 word" where "GN_BASE_16 \<equiv> 0x100"

text \<open>The text \<open>gnFail\<close> writes to \<open>stderr\<close>; the process then exits with \<open>EXIT_FAILURE\<close>.\<close>

definition gnFail :: "string \<Rightarrow> string \<Rightarrow> string option \<Rightarrow> string option \<Rightarrow> string" where
  "gnFail fname msg arg name =
     fname @ '' error''
     @ (case name of None \<Rightarrow> [] | Some n \<Rightarrow> '' (in '' @ n @ '')'')
     @ '': '' @ msg @ [NL]
     @ (case arg of None \<Rightarrow> []
        | Some a \<Rightarrow> if a = [] then [] else ''        offending text: '' @ a @ [NL])"

definition gn_base :: "32 word \<Rightarrow> nat" where
  "gn_base flags =
     (if flags AND GN_ANY_BASE \<noteq> 0 then 0
      else if flags AND GN_BASE_8 \<noteq> 0 then 8
      else if flags AND GN_BASE_16 \<noteq> 0 then 16 else 10)"

text \<open>\<open>Inl text\<close>: the text was printed and the process terminated by \<open>exit(EXIT_FAILURE)\<close>.\<close>

definition getNum :: "string \<Rightarrow> string option \<Rightarrow> 32 word \<Rightarrow> string option \<Rightarrow> string + int" where
  "getNum fname arg flags name =
     (case arg of
        None \<Rightarrow> Inl (gnFail fname ''null or empty string'' arg name)
      | Some s \<Rightarrow>
          if s = [] then Inl (gnFail fname ''null or empty string'' arg name)
          else (case strtol s (gn_base flags) of (res, endp, erange) \<Rightarrow>
            if erange then Inl (gnFail fname ''strtol() failed'' arg name)
            else if endp \<noteq> [] then Inl (gnFail fname ''nonnumeric characters'' arg name)
            else if flags AND GN_NONNEG \<noteq> 0 \<and> res < 0
              then Inl (gnFail fname ''negative value not allowed'' arg name)
            else if flags AND GN_GT_0 \<noteq> 0 \<and> res \<le> 0
              then Inl (gnFail fname ''value must be > 0'' arg name)
            else Inr res))"

definition getLong :: "string option \<Rightarrow> 32 word \<Rightarrow> string option \<Rightarrow> string + int" where
  "getLong arg flags name = getNum ''getLong'' arg flags name"

definition getInt :: "string option \<Rightarrow> 32 word \<Rightarrow> string option \<Rightarrow> string + int" where
  "getInt arg flags name =
     (case getNum ''getInt'' arg flags name of
        Inl e \<Rightarrow> Inl e
      | Inr res \<Rightarrow>
          if res > INT_MAX \<or> res < INT_MIN
          then Inl (gnFail ''getInt'' ''integer out of range'' arg name)
          else Inr res)"

section \<open>\<open>timers/itimerspec_from_str.c\<close>\<close>

record timespec =
  tv_sec :: int
  tv_nsec :: int

record itimerspec =
  it_interval :: timespec
  it_value :: timespec

text \<open>One \<open>sec[/nanosec]\<close> component: the text before and after the slash, by \<open>strchr\<close> and
  \<open>atoi\<close>.\<close>

definition timespec_part :: "string \<Rightarrow> timespec" where
  "timespec_part s =
     (case split_at (CHR ''/'') s of
        None \<Rightarrow> \<lparr>tv_sec = atoi s, tv_nsec = 0\<rparr>
      | Some (a, b) \<Rightarrow> \<lparr>tv_sec = atoi a, tv_nsec = atoi b\<rparr>)"

definition itimerspecFromStr :: "string \<Rightarrow> itimerspec" where
  "itimerspecFromStr str =
     (case split_at (CHR '':'') str of
        None \<Rightarrow> \<lparr>it_interval = \<lparr>tv_sec = 0, tv_nsec = 0\<rparr>, it_value = timespec_part str\<rparr>
      | Some (v, i) \<Rightarrow> \<lparr>it_interval = timespec_part i, it_value = timespec_part v\<rparr>)"

section \<open>Lemmas on the conversions\<close>

lemma is_digit_digit_char [simp]: "d < 10 \<Longrightarrow> is_digit 10 (digit_char d)"
  by (simp add: is_digit_def digit_val_def digit_char_less Let_def)

lemma digit_val_digit_char [simp]: "d < 10 \<Longrightarrow> digit_val (digit_char d) = Some d"
  by (simp add: digit_val_def digit_char_less Let_def)

lemma show_nat_is_digit [simp]: "c \<in> set (show_nat n) \<Longrightarrow> is_digit 10 c"
  by (auto dest: show_nat_digits)

lemma digits_val_snoc: "digits_val b (s @ [c]) = b * digits_val b s + the (digit_val c)"
  by (simp add: digits_val_def)

lemma digits_val_show_nat [simp]: "digits_val 10 (show_nat n) = n"
proof (induction n rule: show_nat.induct)
  case (1 n)
  show ?case
  proof (cases "n < 10")
    case True
    then show ?thesis by (simp add: show_nat.simps[of n] digits_val_def)
  next
    case False
    with 1 show ?thesis by (simp add: show_nat.simps[of n] digits_val_snoc)
  qed
qed

lemma decimal_not_special:
  assumes "is_digit 10 c"
  shows "\<not> isspace c" and "c \<noteq> CHR ''-''" and "c \<noteq> CHR ''+''"
    and "c \<noteq> CHR ''/''" and "c \<noteq> CHR '':''"
  using assms
  by (auto simp: is_digit_def digit_val_def isspace_def Let_def split: if_splits)

lemma sign_not_digit [simp]:
  "\<not> is_digit 10 (CHR ''-'')" "\<not> is_digit 10 (CHR ''+'')" "\<not> is_digit 10 NL"
  "\<not> isspace (CHR ''-'')" "\<not> isspace (CHR ''+'')"
  "\<not> is_digit 10 (CHR ''/'')" "\<not> is_digit 10 (CHR '':'')"
  by (simp_all add: is_digit_def digit_val_def isspace_def Let_def)

lemma strtol_base_10 [simp]: "strtol_base 10 s = (10, s)"
  by (simp add: strtol_base_def)

text \<open>Base 10: leading white space, an optional sign, then the longest run of digits.\<close>

definition signed_val :: "string \<Rightarrow> string \<Rightarrow> int" where
  "signed_val sg ds = (if sg = ''-'' then - int (digits_val 10 ds) else int (digits_val 10 ds))"

definition clip_long :: "int \<Rightarrow> int \<times> bool" where
  "clip_long v = (if v < LONG_MIN then (LONG_MIN, True)
                  else if LONG_MAX < v then (LONG_MAX, True) else (v, False))"

lemma dropWhile_all_append: "(\<forall>c \<in> set ws. P c) \<Longrightarrow> dropWhile P (ws @ s) = dropWhile P s"
  by (induction ws) auto

lemma digit_start_not_special:
  assumes "ds \<noteq> []" and "\<forall>c \<in> set ds. is_digit 10 c"
  shows "\<not> isspace (hd ds)" and "hd ds \<noteq> CHR ''-''" and "hd ds \<noteq> CHR ''+''"
  using assms decimal_not_special[of "hd ds"] by (simp_all add: hd_in_set)

lemma strip_decimal:
  assumes ws: "\<forall>c \<in> set ws. isspace c" and sg: "sg \<in> {[], ''+'', ''-''}"
    and ds: "ds \<noteq> []" "\<forall>c \<in> set ds. is_digit 10 c"
  shows "strip_sign (dropWhile isspace (ws @ sg @ ds @ rest)) = (sg = ''-'', ds @ rest)"
proof -
  obtain d ds' where d: "ds = d # ds'" using ds(1) by (cases ds) auto
  have "\<not> isspace d" "d \<noteq> CHR ''-''" "d \<noteq> CHR ''+''"
    using digit_start_not_special[OF ds] d by auto
  with sg d ws show ?thesis by (auto simp: dropWhile_all_append strip_sign_def)
qed

lemma strtol_decimal:
  assumes ws: "\<forall>c \<in> set ws. isspace c" and sg: "sg \<in> {[], ''+'', ''-''}"
    and ds: "ds \<noteq> []" "\<forall>c \<in> set ds. is_digit 10 c"
    and rest: "rest = [] \<or> \<not> is_digit 10 (hd rest)"
  shows "strtol (ws @ sg @ ds @ rest) 10 =
    (fst (clip_long (signed_val sg ds)), rest, snd (clip_long (signed_val sg ds)))"
proof -
  have tw: "takeWhile (is_digit 10) (ds @ rest) = ds"
    using ds(2) rest by (cases rest) (auto simp: takeWhile_append)
  have dw: "dropWhile (is_digit 10) (ds @ rest) = rest"
    using ds(2) rest by (cases rest) (auto simp: dropWhile_append)
  show ?thesis
    by (simp add: strtol_def strip_decimal[OF ws sg ds] tw dw ds(1) Let_def clip_long_def
        signed_val_def)
qed

text \<open>Conversely, a text that is consumed completely has this shape.\<close>

lemma strip_sign_cases:
  "\<exists>sg. sg \<in> {[], ''+'', ''-''} \<and> s = sg @ snd (strip_sign s) \<and> fst (strip_sign s) = (sg = ''-'')"
  by (cases s) (auto simp: strip_sign_def)

lemma strtol_consumed:
  assumes st: "strtol s 10 = (r, [], False)" and ne: "s \<noteq> []"
  shows "\<exists>ws sg ds. s = ws @ sg @ ds \<and> (\<forall>c \<in> set ws. isspace c) \<and> sg \<in> {[], ''+'', ''-''} \<and>
     ds \<noteq> [] \<and> (\<forall>c \<in> set ds. is_digit 10 c) \<and> r = signed_val sg ds \<and> LONG_MIN \<le> r \<and> r \<le> LONG_MAX"
proof -
  define ws s1 where "ws = takeWhile isspace s" and "s1 = dropWhile isspace s"
  obtain sg where sg: "sg \<in> {[], ''+'', ''-''}" "s1 = sg @ snd (strip_sign s1)"
    "fst (strip_sign s1) = (sg = ''-'')"
    using strip_sign_cases[of s1] by blast
  define ds where "ds = takeWhile (is_digit 10) (snd (strip_sign s1))"
  have st': "ds \<noteq> []" "dropWhile (is_digit 10) (snd (strip_sign s1)) = []" "r = signed_val sg ds"
    "LONG_MIN \<le> r" "r \<le> LONG_MAX"
    using st ne sg(3) unfolding strtol_def s1_def[symmetric] ds_def signed_val_def
    by (auto simp: Let_def split: prod.splits if_splits)
  from st'(2) have "ds = snd (strip_sign s1)"
    unfolding ds_def by (metis append_Nil2 takeWhile_dropWhile_id)
  moreover have "\<forall>c \<in> set ds. is_digit 10 c" unfolding ds_def by (auto dest: set_takeWhileD)
  moreover have "\<forall>c \<in> set ws. isspace c" unfolding ws_def by (auto dest: set_takeWhileD)
  moreover have "s = ws @ s1" by (simp add: ws_def s1_def)
  ultimately show ?thesis using sg(1,2) st' by metis
qed

lemma strtol_show_int:
  assumes "rest = [] \<or> \<not> is_digit 10 (hd rest)"
  shows "strtol (show_int i @ rest) 10 = (fst (clip_long i), rest, snd (clip_long i))"
proof (cases "i < 0")
  case True
  then show ?thesis
    using strtol_decimal[of "[]" "''-''" "show_nat (nat (- i))" rest] assms
    by (simp add: show_int_def signed_val_def)
next
  case False
  then show ?thesis
    using strtol_decimal[of "[]" "[]" "show_nat (nat i)" rest] assms
    by (simp add: show_int_def signed_val_def)
qed

lemma atoi_show_int:
  assumes "INT_MIN \<le> i" "i \<le> INT_MAX" and "rest = [] \<or> \<not> is_digit 10 (hd rest)"
  shows "atoi (show_int i @ rest) = i"
proof -
  have "clip_long i = (i, False)" using assms by (simp add: clip_long_def)
  then have "atoi (show_int i @ rest) = sint (word_of_int i :: 32 word)"
    using strtol_show_int[OF assms(3)] by (simp add: atoi_def)
  also have "\<dots> = i"
    using assms(1,2) by (simp add: signed_of_int signed_take_bit_int_eq_self)
  finally show ?thesis .
qed

lemma show_int_length:
  assumes "INT_MIN \<le> i" "i \<le> INT_MAX"
  shows "length (show_int i) \<le> 11"
proof -
  have "length (show_nat (nat \<bar>i\<bar>)) \<le> Suc 9" using assms by (intro show_nat_length) auto
  then show ?thesis by (auto simp: show_int_def)
qed

lemma itimerspec_value_only:
  assumes "INT_MIN \<le> vs" "vs \<le> INT_MAX"
  shows "timespec_part (show_int vs) = \<lparr>tv_sec = vs, tv_nsec = 0\<rparr>"
proof -
  have "CHR ''/'' \<notin> set (show_int vs)"
    by (auto simp: show_int_def dest!: show_nat_is_digit)
  then have "split_at (CHR ''/'') (show_int vs) = None" by (simp add: split_at_None)
  then show ?thesis using assms atoi_show_int[of vs "[]"] by (simp add: timespec_part_def)
qed

lemma show_int_no_separator [simp]:
  "CHR ''/'' \<notin> set (show_int i)" "CHR '':'' \<notin> set (show_int i)"
  by (auto simp: show_int_def dest!: show_nat_is_digit)

lemma timespec_part_pair:
  assumes "INT_MIN \<le> vs" "vs \<le> INT_MAX" "INT_MIN \<le> vn" "vn \<le> INT_MAX"
  shows "timespec_part (show_int vs @ ''/'' @ show_int vn) = \<lparr>tv_sec = vs, tv_nsec = vn\<rparr>"
proof -
  have "split_at (CHR ''/'') (show_int vs @ ''/'' @ show_int vn) = Some (show_int vs, show_int vn)"
    by (simp add: split_at_Some)
  then show ?thesis
    using assms atoi_show_int[of vs "[]"] atoi_show_int[of vn "[]"] by (simp add: timespec_part_def)
qed

text \<open>The texts of the documented form: seconds, perhaps with nanoseconds, and perhaps an interval of the
  same form behind a colon; a component that is left out is 0.\<close>

fun part_text :: "int \<times> int option \<Rightarrow> string" where
  "part_text (sec, None) = show_int sec"
| "part_text (sec, Some nsec) = show_int sec @ ''/'' @ show_int nsec"

fun part_time :: "int \<times> int option \<Rightarrow> timespec" where
  "part_time (sec, None) = \<lparr>tv_sec = sec, tv_nsec = 0\<rparr>"
| "part_time (sec, Some nsec) = \<lparr>tv_sec = sec, tv_nsec = nsec\<rparr>"

fun part_ints :: "int \<times> int option \<Rightarrow> int set" where
  "part_ints (sec, nsec) = insert sec (set_option nsec)"

lemma timespec_part_text:
  assumes "\<forall>x \<in> part_ints c. INT_MIN \<le> x \<and> x \<le> INT_MAX"
  shows "timespec_part (part_text c) = part_time c"
  using assms timespec_part_pair[simplified]
  by (cases c rule: part_text.cases) (simp_all add: itimerspec_value_only)

lemma part_text_no_colon [simp]: "CHR '':'' \<notin> set (part_text c)"
  by (cases c rule: part_text.cases) simp_all

section \<open>Properties\<close>

text \<open>C34: without a base flag, \<open>getLong\<close> returns \<open>r\<close> exactly for the texts made of white space, an
  optional sign and decimal digits whose value is \<open>r\<close>, provided \<open>r\<close> fits a \<open>long\<close> and passes the
  sign checks the flags ask for; every other text terminates the process.\<close>

theorem getLong_decimal_iff:
  assumes base: "gn_base flags = 10"
  shows "getLong (Some s) flags name = Inr r \<longleftrightarrow>
    (\<exists>ws sg ds. s = ws @ sg @ ds \<and> (\<forall>c \<in> set ws. isspace c) \<and> sg \<in> {[], ''+'', ''-''} \<and>
       ds \<noteq> [] \<and> (\<forall>c \<in> set ds. is_digit 10 c) \<and> r = signed_val sg ds) \<and>
    LONG_MIN \<le> r \<and> r \<le> LONG_MAX \<and>
    (flags AND GN_NONNEG \<noteq> 0 \<longrightarrow> 0 \<le> r) \<and> (flags AND GN_GT_0 \<noteq> 0 \<longrightarrow> 0 < r)"
    (is "?lhs \<longleftrightarrow> ?rhs")
proof
  assume L: ?lhs
  then have "s \<noteq> []" and "strtol s 10 = (r, [], False)"
    by (auto simp: getLong_def getNum_def base split: if_splits prod.splits)
  from strtol_consumed[OF this(2,1)] L show ?rhs
    by (auto simp: getLong_def getNum_def base split: if_splits prod.splits)
next
  assume R: ?rhs
  then obtain ws sg ds where d: "s = ws @ sg @ ds" "\<forall>c \<in> set ws. isspace c"
    "sg \<in> {[], ''+'', ''-''}" "ds \<noteq> []" "\<forall>c \<in> set ds. is_digit 10 c" "r = signed_val sg ds"
    by blast
  have "strtol s 10 = (r, [], False)"
    using strtol_decimal[OF d(2-5), of "[]"] R d(1,6) by (simp add: clip_long_def)
  with R d show ?lhs by (auto simp: getLong_def getNum_def base)
qed

theorem getLong_decimal_iff_witness:
  "gn_base GN_GT_0 = 10 \<and> getLong (Some '' +42'') GN_GT_0 None = Inr 42"
proof -
  have b: "gn_base GN_GT_0 = 10" by (simp add: gn_base_def)
  have "'' +42'' = '' '' @ ''+'' @ ''42'' \<and> (\<forall>c \<in> set '' ''. isspace c) \<and>
     (\<forall>c \<in> set ''42''. is_digit 10 c) \<and> (42::int) = signed_val ''+'' ''42''"
    by code_simp
  then have "\<exists>ws sg ds. '' +42'' = ws @ sg @ ds \<and> (\<forall>c \<in> set ws. isspace c) \<and>
     sg \<in> {[], ''+'', ''-''} \<and> ds \<noteq> [] \<and> (\<forall>c \<in> set ds. is_digit 10 c) \<and> 42 = signed_val sg ds"
    by (intro exI[of _ "'' ''"] exI[of _ "''+''"] exI[of _ "''42''"]) simp
  then show ?thesis using getLong_decimal_iff[OF b, of "'' +42''" None 42] b by simp
qed

text \<open>C35: Whatever the text and the flags, a value returned by \<open>getInt\<close> fits an \<open>int\<close> and satisfies
  the sign constraints of the flags.\<close>

theorem getInt_bounds:
  assumes "getInt arg flags name = Inr r"
  shows "INT_MIN \<le> r \<and> r \<le> INT_MAX \<and>
    (flags AND GN_NONNEG \<noteq> 0 \<longrightarrow> 0 \<le> r) \<and> (flags AND GN_GT_0 \<noteq> 0 \<longrightarrow> 0 < r)"
  using assms
  by (auto simp: getInt_def getNum_def split: option.splits sum.splits if_splits prod.splits)

theorem getInt_bounds_witness:
  "getInt (Some ''0x7f'') (GN_ANY_BASE OR GN_GT_0) None = Inr 127 \<and> (127::int) \<le> INT_MAX"
proof -
  have h: "getInt (Some ''0x7f'') (GN_ANY_BASE OR GN_GT_0) None = Inr 127" by code_simp
  show ?thesis using h getInt_bounds[OF h] by simp
qed

text \<open>Reading back a printed decimal number. \<open>getInt\<close> returns every number an \<open>int\<close> holds, and
  terminates the process with "integer out of range" or "strtol() failed" on every other.\<close>

theorem getInt_roundtrip:
  "getInt (Some (show_int i)) 0 name =
     (if INT_MIN \<le> i \<and> i \<le> INT_MAX then Inr i
      else if LONG_MIN \<le> i \<and> i \<le> LONG_MAX
        then Inl (gnFail ''getInt'' ''integer out of range'' (Some (show_int i)) name)
      else Inl (gnFail ''getInt'' ''strtol() failed'' (Some (show_int i)) name))"
proof -
  have "show_int i \<noteq> []" by (simp add: show_int_def)
  then show ?thesis
    using strtol_show_int[of "[]" i]
    by (auto simp: getInt_def getNum_def gn_base_def clip_long_def)
qed

text \<open>C36: \<open>itimerspecFromStr\<close> reads back all the forms of its argument: with or without nanoseconds in the
  initial value, without an interval or with one, with or without nanoseconds in it. Components that are
  left out become 0, and no part is read into another.\<close>

theorem itimerspecFromStr_roundtrip:
  assumes "\<forall>x \<in> part_ints v. INT_MIN \<le> x \<and> x \<le> INT_MAX" and "\<forall>x \<in> part_ints i. INT_MIN \<le> x \<and> x \<le> INT_MAX"
  shows "itimerspecFromStr (part_text v) = \<lparr>it_interval = \<lparr>tv_sec = 0, tv_nsec = 0\<rparr>, it_value = part_time v\<rparr>
    \<and> itimerspecFromStr (part_text v @ '':'' @ part_text i) = \<lparr>it_interval = part_time i, it_value = part_time v\<rparr>"
proof
  have "split_at (CHR '':'') (part_text v) = None" by (simp add: split_at_None)
  then show "itimerspecFromStr (part_text v) = \<lparr>it_interval = \<lparr>tv_sec = 0, tv_nsec = 0\<rparr>, it_value = part_time v\<rparr>"
    by (simp add: itimerspecFromStr_def timespec_part_text[OF assms(1)])
  have "split_at (CHR '':'') (part_text v @ '':'' @ part_text i) = Some (part_text v, part_text i)" by (simp add: split_at_Some)
  then show "itimerspecFromStr (part_text v @ '':'' @ part_text i) = \<lparr>it_interval = part_time i, it_value = part_time v\<rparr>"
    by (simp add: itimerspecFromStr_def timespec_part_text[OF assms(1)] timespec_part_text[OF assms(2)])
qed

theorem itimerspecFromStr_roundtrip_witness:
  "itimerspecFromStr (show_int 2 @ '':'' @ show_int 1 @ ''/'' @ show_int 500)
     = \<lparr>it_interval = \<lparr>tv_sec = 1, tv_nsec = 500\<rparr>, it_value = \<lparr>tv_sec = 2, tv_nsec = 0\<rparr>\<rparr>"
proof -
  have "\<forall>x \<in> part_ints (2, None). INT_MIN \<le> x \<and> x \<le> INT_MAX" "\<forall>x \<in> part_ints (1, Some 500). INT_MIN \<le> x \<and> x \<le> INT_MAX" by simp_all
  from itimerspecFromStr_roundtrip[OF this] show ?thesis by simp
qed

end
