(* ===== verification/Byte_IO.thy ===== *)
theory Byte_IO
  imports C_Prelude
begin

text \<open>
  Byte streams: \<open>sockets/rdwrn.c\<close> (\<open>readn\<close>, \<open>writen\<close>), \<open>sockets/read_line.c\<close>
  (\<open>readLine\<close>) and \<open>sockets/read_line_buf.c\<close> (\<open>readLineBufInit\<close>, \<open>readLineBuf\<close>).

  The kernel's \<open>read\<close> and \<open>write\<close> on a descriptor are parameters: functions from the state \<open>'w\<close>
  of the world to a result and a new state. What the routines rely on is named by
  \<open>reads_stream\<close> and \<open>writes_stream\<close>: a call transfers a prefix of what is left of the stream, in
  order, and a call that fails transfers nothing. Each loop takes fuel, the number of system
  calls it may make; the properties show how much is enough.
\<close>

section \<open>System calls on a descriptor\<close>

type_synonym 'w sys_read = "'w \<Rightarrow> nat \<Rightarrow> (errno + string) \<times> 'w"
type_synonym 'w sys_write = "'w \<Rightarrow> string \<Rightarrow> (errno + nat) \<times> 'w"

section \<open>\<open>readn\<close> and \<open>writen\<close>\<close>

text \<open>The bytes placed in the buffer so far and the outcome: \<open>Inl e\<close> for -1 with \<open>errno = e\<close>,
  \<open>Inr totRead\<close> otherwise. \<open>None\<close>: the fuel ran out inside the loop.\<close>

fun readn_loop :: "nat \<Rightarrow> 'w sys_read \<Rightarrow> nat \<Rightarrow> string \<Rightarrow> 'w \<Rightarrow> ((errno + nat) \<times> string \<times> 'w) option" where
  "readn_loop 0 rd n buf w = (if length buf < n then None else Some (Inr (length buf), buf, w))"
| "readn_loop (Suc k) rd n buf w =
     (if length buf < n then
        (case rd w (n - length buf) of
           (Inl e, w') \<Rightarrow> if e = EINTR then readn_loop k rd n buf w' else Some (Inl e, buf, w')
         | (Inr bs, w') \<Rightarrow>
             if bs = [] then Some (Inr (length buf), buf, w')
             else readn_loop k rd n (buf @ bs) w')
      else Some (Inr (length buf), buf, w))"

definition readn :: "nat \<Rightarrow> 'w sys_read \<Rightarrow> nat \<Rightarrow> 'w \<Rightarrow> ((errno + nat) \<times> string \<times> 'w) option" where
  "readn fuel rd n w = readn_loop fuel rd n [] w"

text \<open>\<open>errno\<close> is a parameter of the loop: a call of \<open>write\<close> that returns 0 is reported as -1 with the
  \<open>errno\<close> that was there before, which may be that of an interrupted \<open>write\<close>.\<close>

fun writen_loop :: "nat \<Rightarrow> 'w sys_write \<Rightarrow> string \<Rightarrow> nat \<Rightarrow> errno \<Rightarrow> 'w \<Rightarrow> ((errno + nat) \<times> 'w) option" where
  "writen_loop 0 wr buffer tot err w = (if tot < length buffer then None else Some (Inr tot, w))"
| "writen_loop (Suc k) wr buffer tot err w =
     (if tot < length buffer then
        (case wr w (drop tot buffer) of
           (Inl e, w') \<Rightarrow> if e = EINTR then writen_loop k wr buffer tot e w' else Some (Inl e, w')
         | (Inr m, w') \<Rightarrow>
             if m = 0 then Some (Inl err, w') else writen_loop k wr buffer (tot + m) err w')
      else Some (Inr tot, w))"

definition writen :: "nat \<Rightarrow> 'w sys_write \<Rightarrow> string \<Rightarrow> errno \<Rightarrow> 'w \<Rightarrow> ((errno + nat) \<times> 'w) option" where
  "writen fuel wr buffer err w = writen_loop fuel wr buffer 0 err w"

section \<open>\<open>readLine\<close>\<close>

text \<open>\<open>acc\<close> holds the bytes stored in the caller's buffer. The result is the return value and the
  contents of the buffer (without the null byte that is added).\<close>

fun readLine_loop :: "nat \<Rightarrow> 'w sys_read \<Rightarrow> nat \<Rightarrow> string \<Rightarrow> 'w \<Rightarrow> ((errno + nat) \<times> string \<times> 'w) option" where
  "readLine_loop 0 rd n acc w = None"
| "readLine_loop (Suc k) rd n acc w =
     (case rd w 1 of
        (Inl e, w') \<Rightarrow> if e = EINTR then readLine_loop k rd n acc w' else Some (Inl e, acc, w')
      | (Inr bs, w') \<Rightarrow>
          (case bs of
             [] \<Rightarrow> Some (Inr (length acc), acc, w')
           | ch # _ \<Rightarrow>
               (let acc' = (if length acc < n - 1 then acc @ [ch] else acc)
                in if ch = NL then Some (Inr (length acc'), acc', w')
                   else readLine_loop k rd n acc' w')))"

text \<open>\<open>nullbuf\<close>: the caller passed a \<open>NULL\<close> buffer.\<close>

definition readLine :: "nat \<Rightarrow> 'w sys_read \<Rightarrow> bool \<Rightarrow> nat \<Rightarrow> 'w \<Rightarrow> ((errno + nat) \<times> string \<times> 'w) option" where
  "readLine fuel rd nullbuf n w =
     (if n = 0 \<or> nullbuf then Some (Inl EINVAL, [], w) else readLine_loop fuel rd n [] w)"

section \<open>\<open>readLineBuf\<close>\<close>

definition RL_MAX_BUF :: nat where "RL_MAX_BUF = 10"

text \<open>\<open>struct ReadLineBuf\<close>: the descriptor is the \<open>rd\<close> parameter; \<open>len\<close> may be -1 after an error.
  \<open>buf\<close> holds the bytes of the last successful \<open>read\<close>.\<close>

record ReadLineBuf =
  rl_buf :: string
  rl_next :: int
  rl_len :: int

definition readLineBufInit :: "ReadLineBuf \<Rightarrow> ReadLineBuf" where
  "readLineBufInit rl = rl\<lparr>rl_len := 0, rl_next := 0\<rparr>"

text \<open>The part of the loop that fetches a block when the buffer is used up: \<open>Inr True\<close>
  to go on, \<open>Inr False\<close> at end of file.\<close>

definition rl_refill :: "'w sys_read \<Rightarrow> ReadLineBuf \<Rightarrow> 'w \<Rightarrow> (errno + bool) \<times> ReadLineBuf \<times> 'w" where
  "rl_refill rd rl w =
     (if rl_next rl \<ge> rl_len rl then
        (case rd w RL_MAX_BUF of
           (Inl e, w') \<Rightarrow> (Inl e, rl\<lparr>rl_len := -1\<rparr>, w')
         | (Inr bs, w') \<Rightarrow>
             if bs = [] then (Inr False, rl\<lparr>rl_len := 0\<rparr>, w')
             else (Inr True, rl\<lparr>rl_buf := bs, rl_len := int (length bs), rl_next := 0\<rparr>, w'))
      else (Inr True, rl, w))"

fun readLineBuf_loop ::
  "nat \<Rightarrow> 'w sys_read \<Rightarrow> nat \<Rightarrow> string \<Rightarrow> ReadLineBuf \<Rightarrow> 'w \<Rightarrow> ((errno + nat) \<times> string \<times> ReadLineBuf \<times> 'w) option" where
  "readLineBuf_loop 0 rd n acc rl w = None"
| "readLineBuf_loop (Suc k) rd n acc rl w =
     (case rl_refill rd rl w of
        (Inl e, rl', w') \<Rightarrow> Some (Inl e, acc, rl', w')
      | (Inr False, rl', w') \<Rightarrow> Some (Inr (length acc), acc, rl', w')
      | (Inr True, rl', w') \<Rightarrow>
          (let c = rl_buf rl' ! nat (rl_next rl');
               rl'' = rl'\<lparr>rl_next := rl_next rl' + 1\<rparr>;
               acc' = (if length acc < n then acc @ [c] else acc)
           in if c = NL then Some (Inr (length acc'), acc', rl'', w')
              else readLineBuf_loop k rd n acc' rl'' w'))"

definition readLineBuf ::
  "nat \<Rightarrow> 'w sys_read \<Rightarrow> bool \<Rightarrow> nat \<Rightarrow> ReadLineBuf \<Rightarrow> 'w \<Rightarrow> ((errno + nat) \<times> string \<times> ReadLineBuf \<times> 'w) option" where
  "readLineBuf fuel rd nullbuf n rl w =
     (if n = 0 \<or> nullbuf then Some (Inl EINVAL, [], rl, w) else readLineBuf_loop fuel rd n [] rl w)"

section \<open>What the routines rely on\<close>

text \<open>\<open>rem w\<close> is what is left of the stream and \<open>intr w\<close> bounds how often calls will still be
  interrupted by a signal handler before they make progress.\<close>

definition reads_stream :: "'w sys_read \<Rightarrow> ('w \<Rightarrow> string) \<Rightarrow> ('w \<Rightarrow> nat) \<Rightarrow> bool" where
  "reads_stream rd rem intr \<longleftrightarrow>
     (\<forall>w n. case rd w n of
        (Inl e, w') \<Rightarrow> rem w' = rem w \<and> intr w' \<le> intr w \<and> (e = EINTR \<longrightarrow> intr w' < intr w)
      | (Inr bs, w') \<Rightarrow> length bs \<le> n \<and> rem w = bs @ rem w' \<and> intr w' \<le> intr w \<and>
          (bs = [] \<longrightarrow> n = 0 \<or> rem w = []))"

definition writes_stream :: "'w sys_write \<Rightarrow> ('w \<Rightarrow> string) \<Rightarrow> ('w \<Rightarrow> nat) \<Rightarrow> bool" where
  "writes_stream wr out intr \<longleftrightarrow>
     (\<forall>w bs. case wr w bs of
        (Inl e, w') \<Rightarrow> out w' = out w \<and> intr w' \<le> intr w \<and> (e = EINTR \<longrightarrow> intr w' < intr w)
      | (Inr m, w') \<Rightarrow> m \<le> length bs \<and> out w' = out w @ take m bs \<and> intr w' \<le> intr w)"

lemma reads_stream_Inl:
  assumes "reads_stream rd rem intr" and "rd w n = (Inl e, w')"
  shows "rem w' = rem w" and "intr w' \<le> intr w" and "e = EINTR \<Longrightarrow> intr w' < intr w"
  using assms unfolding reads_stream_def by (auto dest!: spec[of _ w] spec[of _ n])

lemma reads_stream_Inr:
  assumes "reads_stream rd rem intr" and "rd w n = (Inr bs, w')"
  shows "length bs \<le> n" and "rem w = bs @ rem w'" and "intr w' \<le> intr w"
    and "bs = [] \<Longrightarrow> 0 < n \<Longrightarrow> rem w = []"
  using assms unfolding reads_stream_def by (auto dest!: spec[of _ w] spec[of _ n])

lemma writes_stream_Inl:
  assumes "writes_stream wr out intr" and "wr w bs = (Inl e, w')"
  shows "out w' = out w" and "intr w' \<le> intr w" and "e = EINTR \<Longrightarrow> intr w' < intr w"
  using assms unfolding writes_stream_def by (auto dest!: spec[of _ w] spec[of _ bs])

lemma writes_stream_Inr:
  assumes "writes_stream wr out intr" and "wr w bs = (Inr m, w')"
  shows "m \<le> length bs" and "out w' = out w @ take m bs" and "intr w' \<le> intr w"
  using assms unfolding writes_stream_def by (auto dest!: spec[of _ w] spec[of _ bs])

text \<open>A concrete descriptor: a byte list and a list of signal interruptions and block sizes,
  one for each call.\<close>

datatype io_event = Interrupt | Block nat

type_synonym script_world = "string \<times> io_event list"

fun script_read :: "script_world sys_read" where
  "script_read (s, []) n = (Inr (take n s), (drop n s, []))"
| "script_read (s, Interrupt # es) n = (Inl EINTR, (s, es))"
| "script_read (s, Block m # es) n =
     (Inr (take (min n (Suc m)) s), (drop (min n (Suc m)) s, es))"

fun script_write :: "script_world sys_write" where
  "script_write (s, []) bs = (Inr (length bs), (s @ bs, []))"
| "script_write (s, Interrupt # es) bs = (Inl EINTR, (s, es))"
| "script_write (s, Block m # es) bs =
     (Inr (min m (length bs)), (s @ take m bs, es))"

lemma script_reads_stream: "reads_stream script_read fst (\<lambda>w. length (snd w))"
proof -
  have "case script_read (s, es) n of
        (Inl e, w') \<Rightarrow> fst w' = s \<and> length (snd w') \<le> length es \<and>
          (e = EINTR \<longrightarrow> length (snd w') < length es)
      | (Inr bs, w') \<Rightarrow> length bs \<le> n \<and> s = bs @ fst w' \<and> length (snd w') \<le> length es \<and>
          (bs = [] \<longrightarrow> n = 0 \<or> s = [])" for s es n
    by (cases es; cases "hd es") auto
  then show ?thesis unfolding reads_stream_def split_paired_All fst_conv snd_conv by blast
qed

lemma script_writes_stream: "writes_stream script_write fst (\<lambda>w. length (snd w))"
proof -
  have "case script_write (s, es) bs of
        (Inl e, w') \<Rightarrow> fst w' = s \<and> length (snd w') \<le> length es \<and>
          (e = EINTR \<longrightarrow> length (snd w') < length es)
      | (Inr m, w') \<Rightarrow> m \<le> length bs \<and> fst w' = s @ take m bs \<and> length (snd w') \<le> length es"
    for s es bs
    by (cases es; cases "hd es") (auto simp: min_def)
  then show ?thesis unfolding writes_stream_def split_paired_All fst_conv snd_conv by blast
qed

section \<open>\<open>readn\<close> and \<open>writen\<close>: lemmas\<close>

lemma readn_loop_correct:
  assumes rd: "reads_stream rd rem intr"
  shows "length buf \<le> n \<Longrightarrow> n - length buf + intr w < fuel \<Longrightarrow>
    \<exists>r buf' w'. readn_loop fuel rd n buf w = Some (r, buf', w') \<and> buf' @ rem w' = buf @ rem w \<and>
      length buf' \<le> n \<and>
      (case r of Inl e \<Rightarrow> e \<noteq> EINTR
       | Inr k \<Rightarrow> k = length buf' \<and> (length buf' = n \<or> rem w' = []))"
proof (induction fuel arbitrary: buf w)
  case (Suc fuel)
  show ?case
  proof (cases "length buf < n")
    case False
    with Suc.prems show ?thesis by auto
  next
    case lt: True
    obtain x w1 where x: "rd w (n - length buf) = (x, w1)" by fastforce
    show ?thesis
    proof (cases x)
      case (Inl e)
      note f = reads_stream_Inl[OF rd x[unfolded Inl]]
      show ?thesis
      proof (cases "e = EINTR")
        case True
        with f have "intr w1 < intr w" by simp
        with Suc.prems have "n - length buf + intr w1 < fuel" by simp
        from Suc.IH[OF Suc.prems(1) this] show ?thesis using lt x Inl True f by simp
      next
        case False
        with lt x Inl f Suc.prems show ?thesis by simp
      qed
    next
      case (Inr bs)
      note f = reads_stream_Inr[OF rd x[unfolded Inr]]
      show ?thesis
      proof (cases "bs = []")
        case True
        with f lt x Inr Suc.prems show ?thesis by simp
      next
        case False
        from lt have "0 < n - length buf" by simp
        with False f have "length (buf @ bs) \<le> n" by simp
        moreover from False f Suc.prems lt have "n - length (buf @ bs) + intr w1 < fuel"
          by (cases bs) auto
        ultimately show ?thesis using Suc.IH[of "buf @ bs" w1] lt x Inr False f by simp
      qed
    qed
  qed
qed simp

lemma writen_loop_intr:
  assumes wr: "writes_stream wr out intr"
  shows "writen_loop fuel wr buffer tot err w = Some (r, w') \<Longrightarrow> intr w' \<le> intr w"
proof (induction fuel arbitrary: tot err w)
  case (Suc fuel)
  obtain x w1 where x: "wr w (drop tot buffer) = (x, w1)" by fastforce
  have "intr w1 \<le> intr w" using x wr by (cases x) (auto dest: writes_stream_Inl writes_stream_Inr)
  with Suc x show ?case by (fastforce split: if_splits sum.splits)
qed (simp split: if_splits)

lemma writen_loop_correct:
  assumes wr: "writes_stream wr out intr"
  shows "tot \<le> length buffer \<Longrightarrow> out w = pre @ take tot buffer \<Longrightarrow>
    length buffer - tot + intr w < fuel \<Longrightarrow>
    \<exists>r w' m. writen_loop fuel wr buffer tot err w = Some (r, w') \<and> out w' = pre @ take m buffer \<and>
      (case r of Inl e \<Rightarrow> m < length buffer \<and>
           (\<exists>v. wr v (drop m buffer) = (Inl e, w') \<and> e \<noteq> EINTR
              \<or> wr v (drop m buffer) = (Inr 0, w') \<and> (e = err \<or> e = EINTR \<and> intr w' < intr w))
       | Inr k \<Rightarrow> k = length buffer \<and> m = length buffer)"
proof (induction fuel arbitrary: tot err w)
  case (Suc fuel)
  show ?case
  proof (cases "tot < length buffer")
    case False
    with Suc.prems show ?thesis by (auto intro!: exI[of _ "length buffer"])
  next
    case lt: True
    obtain x w1 where x: "wr w (drop tot buffer) = (x, w1)" by fastforce
    show ?thesis
    proof (cases x)
      case (Inl e)
      note f = writes_stream_Inl[OF wr x[unfolded Inl]]
      show ?thesis
      proof (cases "e = EINTR")
        case True
        with f Suc.prems have "length buffer - tot + intr w1 < fuel" by simp
        moreover from f Suc.prems have "out w1 = pre @ take tot buffer" by simp
        ultimately obtain r w' m where "writen_loop fuel wr buffer tot EINTR w1 = Some (r, w')" "out w' = pre @ take m buffer"
          "case r of Inl e \<Rightarrow> m < length buffer \<and>
           (\<exists>v. wr v (drop m buffer) = (Inl e, w') \<and> e \<noteq> EINTR
              \<or> wr v (drop m buffer) = (Inr 0, w') \<and> (e = EINTR \<or> e = EINTR \<and> intr w' < intr w1))
           | Inr k \<Rightarrow> k = length buffer \<and> m = length buffer"
          using Suc.IH[OF Suc.prems(1), of w1 EINTR] by blast
        moreover from this(3) have "case r of Inl e \<Rightarrow> m < length buffer \<and>
           (\<exists>v. wr v (drop m buffer) = (Inl e, w') \<and> e \<noteq> EINTR
              \<or> wr v (drop m buffer) = (Inr 0, w') \<and> (e = err \<or> e = EINTR \<and> intr w' < intr w))
           | Inr k \<Rightarrow> k = length buffer \<and> m = length buffer"
        proof (cases r)
          case (Inl e')
          with calculation writen_loop_intr[OF wr, of fuel buffer tot EINTR w1 r w'] f(3)[OF True] show ?thesis by auto
        qed simp
        ultimately show ?thesis using lt x Inl True by (intro exI[of _ r] exI[of _ w'] exI[of _ m]) simp
      next
        case False
        with f lt x Inl Suc.prems show ?thesis by (auto intro!: exI[of _ tot])
      qed
    next
      case (Inr m)
      note f = writes_stream_Inr[OF wr x[unfolded Inr]]
      show ?thesis
      proof (cases "m = 0")
        case True
        with f lt x Inr Suc.prems show ?thesis by (auto intro!: exI[of _ tot])
      next
        case False
        from f have "tot + m \<le> length buffer" using lt by simp
        moreover from f Suc.prems have "out w1 = pre @ take (tot + m) buffer"
          by (simp add: take_add)
        moreover from f False Suc.prems lt have "length buffer - (tot + m) + intr w1 < fuel" by simp
        ultimately obtain r w' i where "writen_loop fuel wr buffer (tot + m) err w1 = Some (r, w')" "out w' = pre @ take i buffer"
          "case r of Inl e \<Rightarrow> i < length buffer \<and>
           (\<exists>v. wr v (drop i buffer) = (Inl e, w') \<and> e \<noteq> EINTR
              \<or> wr v (drop i buffer) = (Inr 0, w') \<and> (e = err \<or> e = EINTR \<and> intr w' < intr w1))
           | Inr k \<Rightarrow> k = length buffer \<and> i = length buffer"
          using Suc.IH[of "tot + m" w1 err] by blast
        with lt x Inr False f(3) show ?thesis
          by (intro exI[of _ r] exI[of _ w'] exI[of _ i]) (cases r; fastforce)
      qed
    qed
  qed
qed simp

section \<open>Reading lines: the contract\<close>

text \<open>The next line of a stream, newline included, and what follows it.\<close>

fun line_of :: "string \<Rightarrow> string" where
  "line_of [] = []"
| "line_of (c # s) = (if c = NL then [NL] else c # line_of s)"

fun after_line :: "string \<Rightarrow> string" where
  "after_line [] = []"
| "after_line (c # s) = (if c = NL then s else after_line s)"

lemma line_of_append [simp]: "line_of s @ after_line s = s"
  by (induction s) auto

lemma line_of_Nil_iff [simp]: "line_of s = [] \<longleftrightarrow> s = []"
  by (cases s) auto

lemma after_line_shorter: "s \<noteq> [] \<Longrightarrow> length (after_line s) < length s"
  by (metis append_self_conv2 length_append length_greater_0_conv less_add_same_cancel2
      line_of_Nil_iff line_of_append)

lemma line_of_unterminated: "NL \<notin> set s \<Longrightarrow> line_of s = s \<and> after_line s = []"
  by (induction s) auto

lemma line_of_terminated: "NL \<notin> set l \<Longrightarrow> line_of (l @ NL # s) = l @ [NL] \<and> after_line (l @ NL # s) = s"
  by (induction l) auto

text \<open>The contract of a line reader: a call with enough fuel returns; unless it reports an error,
  it delivers the next line cut to the capacity and consumes exactly that line.\<close>

locale line_reader =
  fixes getline :: "nat \<Rightarrow> 's \<Rightarrow> ((errno + nat) \<times> string \<times> 's) option"
    and pending :: "'s \<Rightarrow> string"
    and delays :: "'s \<Rightarrow> nat"
    and ready :: "'s \<Rightarrow> bool"
    and capacity :: nat
  assumes returns: "ready s \<Longrightarrow> length (pending s) + delays s < fuel \<Longrightarrow>
      \<exists>r l s'. getline fuel s = Some (r, l, s') \<and> ready s' \<and>
        (case r of Inl e \<Rightarrow> True
         | Inr k \<Rightarrow> l = take capacity (line_of (pending s)) \<and> k = length l \<and>
             pending s' = after_line (pending s) \<and> delays s' \<le> delays s)"
begin

lemma getline_Some:
  assumes "ready s" and "length (pending s) + delays s < fuel"
  obtains (error) e l s' where "getline fuel s = Some (Inl e, l, s')"
  | (line) l s' where "getline fuel s = Some (Inr (length l), l, s')" and "ready s'"
      and "l = take capacity (line_of (pending s))" and "pending s' = after_line (pending s)"
      and "delays s' \<le> delays s"
proof -
  from returns[OF assms] obtain r l s' where g: "getline fuel s = Some (r, l, s')" "ready s'"
    and c: "case r of Inl e \<Rightarrow> True
         | Inr k \<Rightarrow> l = take capacity (line_of (pending s)) \<and> k = length l \<and>
             pending s' = after_line (pending s) \<and> delays s' \<le> delays s"
    by blast
  show thesis
  proof (cases r)
    case (Inl e)
    with g show thesis by (auto intro: error)
  next
    case (Inr k)
    with c have "l = take capacity (line_of (pending s)) \<and> k = length l \<and>
        pending s' = after_line (pending s) \<and> delays s' \<le> delays s" by simp
    with g Inr show thesis by (metis line)
  qed
qed

end

section \<open>\<open>readLine\<close> and \<open>readLineBuf\<close> are line readers\<close>

lemma take_snoc_if: "length acc \<le> m \<Longrightarrow> (if length acc < m then acc @ [c] else acc) = take m (acc @ [c])"
  by auto

lemma take_take_append: "take m (take m xs @ ys) = take m (xs @ ys)"
  by (cases "length xs \<le> m") auto

lemma readLine_loop_correct:
  assumes rd: "reads_stream rd rem intr"
  shows "length acc \<le> n - 1 \<Longrightarrow> length (rem w) + intr w < fuel \<Longrightarrow>
    \<exists>r acc' w'. readLine_loop fuel rd n acc w = Some (r, acc', w') \<and> intr w' \<le> intr w \<and>
      (case r of Inl e \<Rightarrow> e \<noteq> EINTR
       | Inr k \<Rightarrow> acc' = take (n - 1) (acc @ line_of (rem w)) \<and> k = length acc' \<and>
           rem w' = after_line (rem w))"
proof (induction fuel arbitrary: acc w)
  case (Suc fuel)
  obtain x w1 where x: "rd w 1 = (x, w1)" by fastforce
  show ?case
  proof (cases x)
    case (Inl e)
    note f = reads_stream_Inl[OF rd x[unfolded Inl]]
    show ?thesis
    proof (cases "e = EINTR")
      case True
      with f Suc.prems have "length (rem w1) + intr w1 < fuel" by simp
      from Suc.IH[OF Suc.prems(1) this, unfolded f(1)] obtain r acc' w' where
        "readLine_loop fuel rd n acc w1 = Some (r, acc', w')" "intr w' \<le> intr w1"
        "case r of Inl e \<Rightarrow> e \<noteq> EINTR
         | Inr k \<Rightarrow> acc' = take (n - 1) (acc @ line_of (rem w)) \<and> k = length acc' \<and>
           rem w' = after_line (rem w)"
        by blast
      then show ?thesis using x Inl True f(2) by fastforce
    qed (use f x Inl in auto)
  next
    case (Inr bs)
    note f = reads_stream_Inr[OF rd x[unfolded Inr]]
    show ?thesis
    proof (cases bs)
      case Nil
      with f have "rem w = []" "rem w1 = []" by auto
      with Nil x Inr f Suc.prems show ?thesis by auto
    next
      case (Cons c cs)
      with f(1,2) have rw: "rem w = c # rem w1" by simp
      define acc2 where "acc2 = take (n - 1) (acc @ [c])"
      have acc2: "(if length acc < n - 1 then acc @ [c] else acc) = acc2"
        using take_snoc_if[OF Suc.prems(1)] by (simp add: acc2_def)
      have cut: "take (n - 1) (acc2 @ line_of (rem w1)) = take (n - 1) (acc @ c # line_of (rem w1))"
        by (simp only: acc2_def take_take_append append_assoc append_Cons append_Nil)
      have body: "readLine_loop (Suc fuel) rd n acc w =
        (if c = NL then Some (Inr (length acc2), acc2, w1) else readLine_loop fuel rd n acc2 w1)"
        using x Inr Cons by (simp add: Let_def acc2[symmetric])
      show ?thesis
      proof (cases "c = NL")
        case True
        then show ?thesis using body rw f(3) by (simp add: acc2_def)
      next
        case False
        have "length acc2 \<le> n - 1" "length (rem w1) + intr w1 < fuel"
          using Suc.prems rw f(3) by (simp_all add: acc2_def)
        from Suc.IH[OF this] obtain r acc' w' where
          "readLine_loop fuel rd n acc2 w1 = Some (r, acc', w')" "intr w' \<le> intr w1"
          "case r of Inl e \<Rightarrow> e \<noteq> EINTR
           | Inr k \<Rightarrow> acc' = take (n - 1) (acc2 @ line_of (rem w1)) \<and> k = length acc' \<and>
             rem w' = after_line (rem w1)"
          by blast
        then show ?thesis using body False rw f(3) cut by (auto split: sum.splits)
      qed
    qed
  qed
qed simp

interpretation line1: line_reader
  "\<lambda>fuel w. readLine fuel rd False (Suc n) w" rem intr "\<lambda>w. reads_stream rd rem intr" n
  for rd :: "'w sys_read" and rem :: "'w \<Rightarrow> string" and intr :: "'w \<Rightarrow> nat" and n :: nat
proof
  fix w :: 'w and fuel :: nat
  assume rd: "reads_stream rd rem intr" and fuel: "length (rem w) + intr w < fuel"
  from readLine_loop_correct[OF rd, of "[]" "Suc n" w fuel, unfolded diff_Suc_1 append_Nil] fuel
  obtain r l w' where "readLine_loop fuel rd (Suc n) [] w = Some (r, l, w')" "intr w' \<le> intr w"
    "case r of Inl e \<Rightarrow> e \<noteq> EINTR
       | Inr k \<Rightarrow> l = take n (line_of (rem w)) \<and> k = length l \<and> rem w' = after_line (rem w)"
    by auto
  then show "\<exists>r l w'. readLine fuel rd False (Suc n) w = Some (r, l, w') \<and> reads_stream rd rem intr \<and>
     (case r of Inl e \<Rightarrow> True
      | Inr k \<Rightarrow> l = take n (line_of (rem w)) \<and> k = length l \<and> rem w' = after_line (rem w) \<and>
          intr w' \<le> intr w)"
    using rd by (auto simp: readLine_def split: sum.splits)
qed

text \<open>The bytes fetched into a \<open>ReadLineBuf\<close> and not yet handed out.\<close>

definition rl_unread :: "ReadLineBuf \<Rightarrow> string" where
  "rl_unread rl = (if rl_next rl < rl_len rl then drop (nat (rl_next rl)) (take (nat (rl_len rl)) (rl_buf rl)) else [])"

definition rl_wf :: "ReadLineBuf \<Rightarrow> bool" where
  "rl_wf rl \<longleftrightarrow> 0 \<le> rl_next rl \<and> rl_len rl \<le> int (length (rl_buf rl))"

lemma rl_unread_Cons:
  assumes "rl_wf rl" and "rl_next rl < rl_len rl"
  shows "rl_unread rl = rl_buf rl ! nat (rl_next rl) # rl_unread (rl\<lparr>rl_next := rl_next rl + 1\<rparr>)"
proof -
  let ?b = "take (nat (rl_len rl)) (rl_buf rl)" and ?i = "nat (rl_next rl)"
  have i: "?i < length ?b" using assms by (auto simp: rl_wf_def)
  then have "drop ?i ?b = ?b ! ?i # drop (Suc ?i) ?b" by (simp only: Cons_nth_drop_Suc)
  moreover have "?b ! ?i = rl_buf rl ! ?i" using i by simp
  moreover have "Suc ?i = nat (rl_next rl + 1)" using assms by (simp add: rl_wf_def nat_add_distrib)
  moreover have "drop (nat (rl_next rl + 1)) ?b = rl_unread (rl\<lparr>rl_next := rl_next rl + 1\<rparr>)"
    using assms by (auto simp: rl_unread_def rl_wf_def)
  ultimately show ?thesis using assms by (simp add: rl_unread_def)
qed

lemma rl_refill_correct:
  assumes rd: "reads_stream rd rem intr" and wf: "rl_wf rl" and r: "rl_refill rd rl w = (r, rl', w')"
  shows "rl_wf rl' \<and> intr w' \<le> intr w \<and> rl_unread rl' @ rem w' = rl_unread rl @ rem w \<and>
    (case r of Inl e \<Rightarrow> True
     | Inr False \<Rightarrow> rl_unread rl @ rem w = []
     | Inr True \<Rightarrow> rl_next rl' < rl_len rl')"
proof (cases "rl_next rl \<ge> rl_len rl")
  case False
  with r wf show ?thesis by (auto simp: rl_refill_def)
next
  case ge: True
  obtain x w1 where x: "rd w RL_MAX_BUF = (x, w1)" by fastforce
  show ?thesis
  proof (cases x)
    case (Inl e)
    with x ge r wf reads_stream_Inl[OF rd x[unfolded Inl]] show ?thesis
      by (auto simp: rl_refill_def rl_wf_def rl_unread_def)
  next
    case (Inr bs)
    note f = reads_stream_Inr[OF rd x[unfolded Inr]]
    show ?thesis
    proof (cases "bs = []")
      case True
      with x Inr ge r wf f show ?thesis
        by (auto simp: rl_refill_def rl_wf_def rl_unread_def RL_MAX_BUF_def)
    next
      case False
      with x Inr ge r wf f show ?thesis by (auto simp: rl_refill_def rl_wf_def rl_unread_def)
    qed
  qed
qed

lemma readLineBuf_loop_correct:
  assumes rd: "reads_stream rd rem intr"
  shows "rl_wf rl \<Longrightarrow> length acc \<le> n \<Longrightarrow> length (rl_unread rl @ rem w) < fuel \<Longrightarrow>
    \<exists>r acc' rl' w'. readLineBuf_loop fuel rd n acc rl w = Some (r, acc', rl', w') \<and> rl_wf rl' \<and>
      intr w' \<le> intr w \<and>
      (case r of Inl e \<Rightarrow> True
       | Inr k \<Rightarrow> acc' = take n (acc @ line_of (rl_unread rl @ rem w)) \<and> k = length acc' \<and>
           rl_unread rl' @ rem w' = after_line (rl_unread rl @ rem w))"
proof (induction fuel arbitrary: acc rl w)
  case (Suc fuel)
  obtain x rl1 w1 where x: "rl_refill rd rl w = (x, rl1, w1)" by (metis prod_cases3)
  note f = rl_refill_correct[OF rd Suc.prems(1) x]
  consider e where "x = Inl e" | "x = Inr False" | "x = Inr True" by (metis (full_types) sum.exhaust)
  then show ?case
  proof cases
    case 1
    with x f show ?thesis by auto
  next
    case 2
    with x f Suc.prems show ?thesis by auto
  next
    case 3
    define c rl2 where "c = rl_buf rl1 ! nat (rl_next rl1)" and "rl2 = rl1\<lparr>rl_next := rl_next rl1 + 1\<rparr>"
    have st: "rl_unread rl @ rem w = c # rl_unread rl2 @ rem w1"
      using f 3 rl_unread_Cons[of rl1] by (simp add: c_def rl2_def)
    have wf2: "rl_wf rl2" using f 3 by (auto simp: rl_wf_def rl2_def)
    define acc2 where "acc2 = take n (acc @ [c])"
    have acc2: "(if length acc < n then acc @ [c] else acc) = acc2"
      using take_snoc_if[OF Suc.prems(2)] by (simp add: acc2_def)
    have cut: "take n (acc2 @ line_of s) = take n (acc @ c # line_of s)" for s
      by (simp only: acc2_def take_take_append append_assoc append_Cons append_Nil)
    have body: "readLineBuf_loop (Suc fuel) rd n acc rl w =
      (if c = NL then Some (Inr (length acc2), acc2, rl2, w1) else readLineBuf_loop fuel rd n acc2 rl2 w1)"
      using x 3 by (simp add: Let_def c_def[symmetric] rl2_def[symmetric] acc2[symmetric])
    show ?thesis
    proof (cases "c = NL")
      case True
      then show ?thesis using body st wf2 f by (simp add: acc2_def)
    next
      case False
      have "length acc2 \<le> n" "length (rl_unread rl2 @ rem w1) < fuel"
        using Suc.prems st by (simp_all add: acc2_def)
      from Suc.IH[OF wf2 this] obtain r acc' rl' w' where
        "readLineBuf_loop fuel rd n acc2 rl2 w1 = Some (r, acc', rl', w')" "rl_wf rl'"
        "intr w' \<le> intr w1"
        "case r of Inl e \<Rightarrow> True
         | Inr k \<Rightarrow> acc' = take n (acc2 @ line_of (rl_unread rl2 @ rem w1)) \<and> k = length acc' \<and>
           rl_unread rl' @ rem w' = after_line (rl_unread rl2 @ rem w1)"
        by blast
      then show ?thesis using body False st f cut by (auto split: sum.splits)
    qed
  qed
qed simp

text \<open>The buffer and the descriptor behind it, as one reader.\<close>

definition rlb_getline :: "'w sys_read \<Rightarrow> nat \<Rightarrow> nat \<Rightarrow> ReadLineBuf \<times> 'w \<Rightarrow>
    ((errno + nat) \<times> string \<times> (ReadLineBuf \<times> 'w)) option" where
  "rlb_getline rd n fuel s = readLineBuf fuel rd False n (fst s) (snd s)"

definition rlb_pending :: "('w \<Rightarrow> string) \<Rightarrow> ReadLineBuf \<times> 'w \<Rightarrow> string" where
  "rlb_pending rem s = rl_unread (fst s) @ rem (snd s)"

interpretation lineb: line_reader
  "rlb_getline rd (Suc n)" "rlb_pending rem" "\<lambda>_. 0" "\<lambda>s. reads_stream rd rem intr \<and> rl_wf (fst s)" "Suc n"
  for rd :: "'w sys_read" and rem :: "'w \<Rightarrow> string" and intr :: "'w \<Rightarrow> nat" and n :: nat
proof
  fix s :: "ReadLineBuf \<times> 'w" and fuel :: nat
  obtain rl w where s: "s = (rl, w)" by fastforce
  assume "reads_stream rd rem intr \<and> rl_wf (fst s)" and "length (rlb_pending rem s) + 0 < fuel"
  with s have rd: "reads_stream rd rem intr" and wf: "rl_wf rl"
    and fuel: "length (rl_unread rl @ rem w) < fuel" by (auto simp: rlb_pending_def)
  from readLineBuf_loop_correct[OF rd wf, of "[]" "Suc n" w fuel, unfolded append_Nil] fuel
  obtain r l rl' w' where l: "readLineBuf_loop fuel rd (Suc n) [] rl w = Some (r, l, rl', w')" "rl_wf rl'"
    "case r of Inl e \<Rightarrow> True
       | Inr k \<Rightarrow> l = take (Suc n) (line_of (rl_unread rl @ rem w)) \<and> k = length l \<and>
           rl_unread rl' @ rem w' = after_line (rl_unread rl @ rem w)"
    by auto
  have "rlb_getline rd (Suc n) fuel s = Some (r, l, (rl', w'))"
    using l(1) s by (simp add: rlb_getline_def readLineBuf_def)
  then show "\<exists>r l s'. rlb_getline rd (Suc n) fuel s = Some (r, l, s') \<and>
      (reads_stream rd rem intr \<and> rl_wf (fst s')) \<and>
      (case r of Inl e \<Rightarrow> True
       | Inr k \<Rightarrow> l = take (Suc n) (line_of (rlb_pending rem s)) \<and> k = length l \<and>
           rlb_pending rem s' = after_line (rlb_pending rem s) \<and> (0::nat) \<le> 0)"
    using s rd l(2,3) by (auto simp: rlb_pending_def split: sum.splits)
qed

subsection \<open>Sequences of calls\<close>

text \<open>Calls one after the other with the given sizes, as long as they succeed; and the lines they
  ought to return.\<close>

fun buffered_calls :: "nat \<Rightarrow> 'w sys_read \<Rightarrow> nat list \<Rightarrow> ReadLineBuf \<Rightarrow> 'w \<Rightarrow> ((nat \<times> string) list \<times> ReadLineBuf \<times> 'w) option" where
  "buffered_calls fuel rd [] rl w = Some ([], rl, w)"
| "buffered_calls fuel rd (n # ns) rl w = (case readLineBuf fuel rd False n rl w of
       Some (Inr k, l, rl', w') \<Rightarrow> map_option (\<lambda>(ls, r). ((k, l) # ls, r)) (buffered_calls fuel rd ns rl' w')
     | _ \<Rightarrow> None)"

fun unbuffered_calls :: "nat \<Rightarrow> 'w sys_read \<Rightarrow> nat list \<Rightarrow> 'w \<Rightarrow> ((nat \<times> string) list \<times> 'w) option" where
  "unbuffered_calls fuel rd [] w = Some ([], w)"
| "unbuffered_calls fuel rd (n # ns) w = (case readLine fuel rd False n w of
       Some (Inr k, l, w') \<Rightarrow> map_option (\<lambda>(ls, r). ((k, l) # ls, r)) (unbuffered_calls fuel rd ns w')
     | _ \<Rightarrow> None)"

fun next_lines :: "nat list \<Rightarrow> string \<Rightarrow> (nat \<times> string) list" where
  "next_lines [] s = []"
| "next_lines (n # ns) s = (length (take n (line_of s)), take n (line_of s)) # next_lines ns (after_line s)"

lemma after_line_length: "length (after_line s) \<le> length s"
  by (induction s) auto

lemma calls_agree:
  assumes rd: "reads_stream rd rem intr" and ok: "\<And>w n e w'. rd w n \<noteq> (Inl e, w')"
    and "rl_wf rl" and "rl_unread rl @ rem w1 = rem w2" and "length (rem w2) + intr w2 < fuel" and "length (rem w2) < fuel"
    and "\<forall>n \<in> set ns. 0 < n"
  shows "\<exists>rl' w1' w2'. buffered_calls fuel rd ns rl w1 = Some (next_lines ns (rem w2), rl', w1')
    \<and> unbuffered_calls fuel rd (map Suc ns) w2 = Some (next_lines ns (rem w2), w2') \<and> rl_unread rl' @ rem w1' = rem w2'"
  using assms(3-)
proof (induction ns arbitrary: rl w1 w2)
  case (Cons n ns)
  have no_err1: "readLine_loop k rd m acc v \<noteq> Some (Inl e, l, v')" for k m acc v e l v'
    by (induction k arbitrary: acc v) (auto simp: ok Let_def split: prod.splits sum.splits list.splits)
  have no_err_refill: "rl_refill rd b v \<noteq> (Inl e, b', v')" for b v e b' v'
    using ok by (auto simp: rl_refill_def split: prod.splits sum.splits if_splits)
  have no_err2: "readLineBuf_loop k rd m acc b v \<noteq> Some (Inl e, l, b', v')" for k m acc b v e l b' v'
    by (induction k arbitrary: acc b v)
      (auto simp: no_err_refill Let_def split: prod.splits sum.splits bool.splits)
  obtain m where n: "n = Suc m" using Cons.prems(5) by (cases n) auto
  obtain l rl' w1' where b: "readLineBuf fuel rd False n rl w1 = Some (Inr (length l), l, rl', w1')" "rl_wf rl'"
    "l = take n (line_of (rem w2))" "rl_unread rl' @ rem w1' = after_line (rem w2)"
  proof (rule lineb.getline_Some[of rd rem intr "(rl, w1)" fuel m])
    fix e l s assume "rlb_getline rd (Suc m) fuel (rl, w1) = Some (Inl e, l, s)"
    then show thesis using no_err2 by (cases s) (auto simp: rlb_getline_def readLineBuf_def)
  qed (use rd Cons.prems that n in \<open>auto simp: rlb_getline_def rlb_pending_def\<close>)
  obtain l' w2' where u: "readLine fuel rd False (Suc n) w2 = Some (Inr (length l'), l', w2')"
    "l' = take n (line_of (rem w2))" "rem w2' = after_line (rem w2)" "intr w2' \<le> intr w2"
  proof (rule line1.getline_Some[of rd rem intr w2 fuel n])
    fix e l s assume "readLine fuel rd False (Suc n) w2 = Some (Inl e, l, s)"
    then show thesis using no_err1 by (auto simp: readLine_def)
  qed (use rd Cons.prems that in auto)
  have "length (rem w2') + intr w2' < fuel" "length (rem w2') < fuel" "\<forall>n \<in> set ns. 0 < n" "rl_unread rl' @ rem w1' = rem w2'"
    using u b(4) Cons.prems after_line_length[of "rem w2"] by simp_all
  from Cons.IH[OF b(2) this(4,1-3)] obtain rl2 v1 v2 where
    "buffered_calls fuel rd ns rl' w1' = Some (next_lines ns (rem w2'), rl2, v1)"
    "unbuffered_calls fuel rd (map Suc ns) w2' = Some (next_lines ns (rem w2'), v2)" "rl_unread rl2 @ rem v1 = rem v2" by blast
  with b u show ?case by simp
qed simp

section \<open>Properties\<close>

text \<open>C27: \<open>readn\<close> returns, whatever partial reads and interruptions occur (at most \<open>n + intr w + 1\<close>
  calls of \<open>read\<close>). When it does not report an error the buffer holds the next \<open>n\<close> bytes of the
  stream, or all of it when it is shorter, and exactly these bytes are consumed; an error it
  reports is never \<open>EINTR\<close>.\<close>

theorem readn_total:
  assumes "reads_stream rd rem intr" and "n + intr w < fuel"
  shows "\<exists>r buf w'. readn fuel rd n w = Some (r, buf, w') \<and>
    (case r of Inl e \<Rightarrow> e \<noteq> EINTR \<and> rem w = buf @ rem w'
     | Inr k \<Rightarrow> k = length buf \<and> buf = take n (rem w) \<and> rem w' = drop n (rem w))"
proof -
  from readn_loop_correct[OF assms(1), of "[]" n w fuel] assms(2)
  obtain r buf w' where h: "readn_loop fuel rd n [] w = Some (r, buf, w')" "buf @ rem w' = rem w"
    "length buf \<le> n"
    "case r of Inl e \<Rightarrow> e \<noteq> EINTR | Inr k \<Rightarrow> k = length buf \<and> (length buf = n \<or> rem w' = [])"
    by auto
  have "buf = take n (rem w) \<and> rem w' = drop n (rem w)" if "length buf = n \<or> rem w' = []"
    using h(2,3) that by (auto simp: h(2)[symmetric])
  with h show ?thesis by (auto simp: readn_def split: sum.splits)
qed

theorem readn_total_witness:
  "\<exists>r buf w'. readn 20 script_read 5 (''hello world'', [Interrupt, Block 1, Interrupt]) = Some (r, buf, w') \<and>
    (case r of Inl e \<Rightarrow> e \<noteq> EINTR \<and> ''hello world'' = buf @ fst w'
     | Inr k \<Rightarrow> k = length buf \<and> buf = ''hello'' \<and> fst w' = '' world'')"
proof -
  show ?thesis
    using readn_total[OF script_reads_stream,
        where n = 5 and w = "(''hello world'', [Interrupt, Block 1, Interrupt])" and fuel = 20]
    by (simp cong: sum.case_cong)
qed

text \<open>C28: \<open>writen\<close> returns after at most \<open>length buffer + intr w + 1\<close> calls of \<open>write\<close>. It returns the
  full length exactly when the whole buffer was appended to the stream. Otherwise a proper prefix was
  appended and its last call of \<open>write\<close>, for the whole rest of the buffer, either failed, with the
  error it reports, which is not \<open>EINTR\<close>, or returned 0; only then \<open>errno\<close> is an old one, the one before
  the call of \<open>writen\<close> or the \<open>EINTR\<close> of a \<open>write\<close> that was restarted.\<close>

theorem writen_total:
  assumes "writes_stream wr out intr" and "length buffer + intr w < fuel"
  shows "\<exists>r w' m. writen fuel wr buffer err w = Some (r, w') \<and> out w' = out w @ take m buffer \<and>
    (case r of Inl e \<Rightarrow> m < length buffer \<and>
         (\<exists>v. wr v (drop m buffer) = (Inl e, w') \<and> e \<noteq> EINTR
            \<or> wr v (drop m buffer) = (Inr 0, w') \<and> (e = err \<or> e = EINTR \<and> intr w' < intr w))
     | Inr k \<Rightarrow> k = length buffer \<and> m = length buffer)"
  using writen_loop_correct[OF assms(1), of 0 buffer w "out w" fuel err] assms(2)
  by (simp add: writen_def)

text \<open>The second \<open>write\<close> is interrupted, the third returns 0.\<close>

theorem writen_total_witness:
  "\<exists>w'. writen 20 script_write ''data'' E_OK (''log:'', [Block 1, Interrupt, Block 0]) = Some (Inl EINTR, w') \<and> fst w' = ''log:d''"
proof -
  let ?w = "(''log:'', [Block 1, Interrupt, Block 0])"
  have run: "writen 20 script_write ''data'' E_OK ?w = Some (Inl EINTR, ''log:d'', [])" by code_simp
  have "\<exists>r w' m. writen 20 script_write ''data'' E_OK ?w = Some (r, w') \<and> fst w' = ''log:'' @ take m ''data''"
    using writen_total[OF script_writes_stream, where buffer = "''data''" and w = ?w and fuel = 20 and err = E_OK] by auto
  with run show ?thesis by auto
qed



text \<open>C30: the buffered reader agrees with the unbuffered one over any sequence of calls, on a stream whose
  reads do not fail. From a freshly initialised buffer, \<open>readLineBuf\<close> with the sizes \<open>n\<close> of \<open>ns\<close> one after
  the other (all on the same buffer) and \<open>readLine\<close> with the sizes \<open>n + 1\<close> return the same counts and the
  same bytes: each call the next line of the stream, cut to \<open>n\<close> bytes; and after the last call both have the
  same bytes left. (\<open>readLine\<close> keeps one byte of its buffer for the null byte, \<open>readLineBuf\<close> does not.)\<close>

theorem readLineBuf_readLine:
  assumes rd: "reads_stream rd rem intr" and ok: "\<And>w n e w'. rd w n \<noteq> (Inl e, w')"
    and fuel: "length (rem w) + intr w < fuel" and ns: "\<forall>n \<in> set ns. 0 < n"
  shows "\<exists>rl' w1 w2. buffered_calls fuel rd ns (readLineBufInit rl) w = Some (next_lines ns (rem w), rl', w1)
    \<and> unbuffered_calls fuel rd (map Suc ns) w = Some (next_lines ns (rem w), w2)
    \<and> rl_unread rl' @ rem w1 = rem w2"
proof -
  have "rl_wf (readLineBufInit rl)" "rl_unread (readLineBufInit rl) = []"
    by (auto simp: readLineBufInit_def rl_wf_def rl_unread_def)
  with calls_agree[OF rd ok _ _ _ _ ns, of "readLineBufInit rl" w w fuel] fuel show ?thesis by simp
qed

theorem readLineBuf_readLine_witness:
  "\<exists>rl' w1 w2.
    buffered_calls 40 (\<lambda>s n. (Inr (take n s), drop n s)) [5, 3, 4] \<lparr>rl_buf = [], rl_next = 0, rl_len = 0\<rparr> (''hello'' @ [NL] @ ''goodbye'')
       = Some ([(5, ''hello''), (3, ''goo''), (0, [])], rl', w1) \<and>
    unbuffered_calls 40 (\<lambda>s n. (Inr (take n s), drop n s)) [6, 4, 5] (''hello'' @ [NL] @ ''goodbye'')
       = Some ([(5, ''hello''), (3, ''goo''), (0, [])], w2) \<and> rl_unread rl' @ w1 = w2"
proof -
  have rd: "reads_stream (\<lambda>s n. (Inr (take n s), drop n s)) (\<lambda>s. s) (\<lambda>_. 0)"
    by (auto simp: reads_stream_def)
  have "readLineBufInit \<lparr>rl_buf = [], rl_next = 7, rl_len = 3\<rparr> = \<lparr>rl_buf = [], rl_next = 0, rl_len = 0\<rparr>"
    "next_lines [5, 3, 4] (''hello'' @ [NL] @ ''goodbye'') = [(5, ''hello''), (3, ''goo''), (0, [])]" "map Suc [5, 3, 4] = [6, 4, 5]"
    by (simp_all add: readLineBufInit_def)
  then show ?thesis
    using readLineBuf_readLine[OF rd, where w = "''hello'' @ [NL] @ ''goodbye''" and fuel = 40 and ns = "[5, 3, 4]"
        and rl = "\<lparr>rl_buf = [], rl_next = 7, rl_len = 3\<rparr>"]
    by (simp only:) simp
qed

end
