(* ===== verification/Env_Exec.thy ===== *)
theory Env_Exec
  imports C_Prelude
begin

text \<open>
  The process environment (\<open>proc/setenv.c\<close>: \<open>unsetenv\<close>, \<open>setenv\<close> over the C library's
  \<open>getenv\<close> and \<open>putenv\<close>) and program execution with a \<open>PATH\<close> search
  (\<open>procexec/execlp.c\<close>: \<open>execShScript\<close>, \<open>execlp\<close>).

  \<open>environ\<close> is the list of its strings before the terminating \<open>NULL\<close>. The kernel's \<open>execve\<close> is a
  parameter that returns the error number, or \<open>None\<close> when the process image is replaced.
\<close>

section \<open>The environment list\<close>

type_synonym environ = "string list"

text \<open>The test of the loops: the entry is \<open>name\<close> followed by an equals sign.\<close>

definition env_match :: "string \<Rightarrow> string \<Rightarrow> bool" where
  "env_match name entry =
     (strncmp_eq entry name (length name) \<and> cchar_at entry (length name) = CHR ''='')"

text \<open>C library: the value of the first matching entry.\<close>

fun getenv :: "environ \<Rightarrow> string \<Rightarrow> string option" where
  "getenv [] name = None"
| "getenv (e # es) name = (if env_match name e then Some (drop (Suc (length name)) e) else getenv es name)"

text \<open>C library: \<open>putenv(name=value)\<close> replaces the first entry of that name or appends.\<close>

fun putenv :: "environ \<Rightarrow> string \<Rightarrow> string \<Rightarrow> environ" where
  "putenv [] name entry = [entry]"
| "putenv (e # es) name entry = (if env_match name e then entry # es else e # putenv es name entry)"

section \<open>\<open>unsetenv\<close> and \<open>setenv\<close>\<close>

text \<open>The inner loop: every element from \<open>ep\<close> on is overwritten by its successor, the last one by
  the terminating \<open>NULL\<close>.\<close>

fun shift_back :: "environ \<Rightarrow> environ" where
  "shift_back [] = []"
| "shift_back [x] = []"
| "shift_back (x # y # zs) = y # shift_back (y # zs)"

lemma shift_back_tl: "shift_back xs = tl xs"
  by (induction xs rule: shift_back.induct) auto

function unsetenv_loop :: "string \<Rightarrow> environ \<Rightarrow> nat \<Rightarrow> environ" where
  "unsetenv_loop name env ep =
     (if ep < length env then
        if env_match name (env ! ep)
        then unsetenv_loop name (take ep env @ shift_back (drop ep env)) ep
        else unsetenv_loop name env (Suc ep)
      else env)"
  by pat_completeness auto
termination
  by (relation "measure (\<lambda>(name, env, ep). length env - ep)") (auto simp: shift_back_tl)

declare unsetenv_loop.simps [simp del]

definition bad_env_name :: "string option \<Rightarrow> bool" where
  "bad_env_name name =
     (case name of None \<Rightarrow> True | Some s \<Rightarrow> s = [] \<or> CHR ''='' \<in> set s)"

text \<open>Return value, \<open>errno\<close> when it is -1, and the new environment.\<close>

definition unsetenv :: "string option \<Rightarrow> environ \<Rightarrow> (errno + unit) \<times> environ" where
  "unsetenv name env =
     (if bad_env_name name then (Inl EINVAL, env)
      else (Inr (), unsetenv_loop (the name) env 0))"

text \<open>\<open>mem_ok\<close>: \<open>malloc\<close> succeeds; \<open>put_ok\<close>: \<open>putenv\<close> succeeds.\<close>

definition setenv :: "bool \<Rightarrow> bool \<Rightarrow> string option \<Rightarrow> string option \<Rightarrow> bool \<Rightarrow> environ \<Rightarrow> (errno + unit) \<times> environ" where
  "setenv mem_ok put_ok name value overwrite env =
     (if bad_env_name name \<or> value = None then (Inl EINVAL, env)
      else if getenv env (the name) \<noteq> None \<and> \<not> overwrite then (Inr (), env)
      else (let env' = snd (unsetenv name env); es = the name @ ''='' @ the value in
        if \<not> mem_ok then (Inl ENOMEM, env')
        else if put_ok then (Inr (), putenv env' (the name) es) else (Inl ENOMEM, env')))"

section \<open>\<open>execlp\<close>\<close>

datatype exec_outcome = ExecReplaced string "string option list" environ | ExecFailed errno | ExecUndefined

type_synonym 'w sys_execve = "'w \<Rightarrow> string \<Rightarrow> string option list \<Rightarrow> environ \<Rightarrow> errno option \<times> 'w"

definition SHELL_PATH :: string where "SHELL_PATH = ''/bin/sh''"

text \<open>Store into an array: out of range is undefined.\<close>

definition array_store :: "'a list \<Rightarrow> nat \<Rightarrow> 'a \<Rightarrow> 'a list option" where
  "array_store a i v = (if i < length a then Some (a[i := v]) else None)"

text \<open>\<open>for (j = 0; j <= argc; j++) shArgv[j + 1] = argv[j]\<close>; \<open>cnt\<close> iterations are left.
  The unused elements the array has beyond the terminating \<open>NULL\<close> are read as \<open>NULL\<close>.\<close>

fun sh_copy :: "nat \<Rightarrow> nat \<Rightarrow> string option list \<Rightarrow> string option list \<Rightarrow> string option list option" where
  "sh_copy 0 j argv shArgv = Some shArgv"
| "sh_copy (Suc cnt) j argv shArgv =
     (case array_store shArgv (Suc j) (if j < length argv then argv ! j else None) of
        None \<Rightarrow> None
      | Some a \<Rightarrow> sh_copy cnt (Suc j) argv a)"

text \<open>\<open>argc\<close> counts the elements of \<open>argv\<close>, its terminating \<open>NULL\<close> included.\<close>

definition execShScript :: "'w sys_execve \<Rightarrow> nat \<Rightarrow> string option list \<Rightarrow> environ \<Rightarrow> 'w \<Rightarrow> exec_outcome \<times> 'w" where
  "execShScript ex argc argv envp w =
     (case array_store (replicate (argc + 1) None) 0 (Some SHELL_PATH) of
        None \<Rightarrow> (ExecUndefined, w)
      | Some sh0 \<Rightarrow>
          (case sh_copy (argc + 1) 0 argv sh0 of
             None \<Rightarrow> (ExecUndefined, w)
           | Some shArgv \<Rightarrow>
               (case ex w SHELL_PATH shArgv envp of
                  (None, w') \<Rightarrow> (ExecReplaced SHELL_PATH shArgv envp, w')
                | (Some e, w') \<Rightarrow> (ExecFailed e, w'))))"

text \<open>Building \<open>argv\<close> from the variable argument list; \<open>argvSize\<close> is the allocated size and \<open>grow\<close>
  tells whether \<open>realloc\<close> to a size succeeds. Walking off a list without \<open>NULL\<close> is undefined.\<close>

datatype argv_result = ArgvOk "string option list" nat | ArgvNoMem | ArgvUndefined

fun build_argv :: "(nat \<Rightarrow> bool) \<Rightarrow> nat \<Rightarrow> string option list \<Rightarrow> string option list \<Rightarrow> argv_result" where
  "build_argv grow asz argv args =
     (if last argv = None then ArgvOk argv asz
      else (let asz' = (if length argv + 1 \<ge> asz then asz + 100 else asz) in
        if length argv + 1 \<ge> asz \<and> \<not> grow asz' then ArgvNoMem
        else (case args of
                [] \<Rightarrow> ArgvUndefined
              | a # as \<Rightarrow> build_argv grow asz' (argv @ [a]) as)))"

declare build_argv.simps [simp del]

text \<open>One prefix of \<open>PATH\<close>: the text up to a colon, and what follows the colon if there is one.\<close>

definition next_prefix :: "string \<Rightarrow> string \<times> string option" where
  "next_prefix p = (case split_at (CHR '':'') p of None \<Rightarrow> (p, None) | Some (a, b) \<Rightarrow> (a, Some b))"

definition candidate :: "string \<Rightarrow> string \<Rightarrow> string" where
  "candidate prefix filename = (if prefix = [] then ''.'' else prefix) @ ''/'' @ filename"

text \<open>The search loop. \<open>fnd\<close> is \<open>fndEACCES\<close>; the result is the outcome when the process was replaced or
  is undefined, otherwise the error number returned to the caller.\<close>

lemma next_prefix_shorter: "next_prefix p = (a, Some b) \<Longrightarrow> length b < length p"
  by (auto simp: next_prefix_def split_at_Some split: option.splits)

function path_loop :: "'w sys_execve \<Rightarrow> nat \<Rightarrow> string option list \<Rightarrow> environ \<Rightarrow> string \<Rightarrow> bool \<Rightarrow> string \<Rightarrow> 'w \<Rightarrow>
    exec_outcome \<times> 'w" where
  "path_loop ex argc argv envp filename fnd prStart w =
     (let (prefix, more) = next_prefix prStart; pathname = candidate prefix filename in
      case ex w pathname argv envp of
        (None, w1) \<Rightarrow> (ExecReplaced pathname argv envp, w1)
      | (Some e, w1) \<Rightarrow>
          (let fnd' = (fnd \<or> e = EACCES);
               sh = (if e = ENOEXEC then execShScript ex argc argv envp w1 else (ExecFailed e, w1)) in
           case sh of
             (ExecFailed e2, w2) \<Rightarrow>
               (case more of
                  None \<Rightarrow> (ExecFailed (if fnd' then EACCES else e), w2)
                | Some rest \<Rightarrow> path_loop ex argc argv envp filename fnd' rest w2)
           | (other, w2) \<Rightarrow> (other, w2)))"
  by pat_completeness auto
termination
  by (relation "measure (\<lambda>(_, _, _, _, _, _, p, _). length p)")
    (auto dest!: next_prefix_shorter simp: eq_commute[of "(_, _)" "next_prefix _"])

declare path_loop.simps [simp del]

definition search_path :: "environ \<Rightarrow> string" where
  "search_path env = (case getenv env ''PATH'' of None \<Rightarrow> ''.'' | Some p \<Rightarrow> if p = [] then ''.'' else p)"

text \<open>\<open>grow n\<close>: an allocation of \<open>argv\<close> with \<open>n\<close> elements succeeds; \<open>envp_ok\<close>: the allocation of
  \<open>envp\<close> does. Short strings are always allocated.\<close>

definition execlp :: "(nat \<Rightarrow> bool) \<Rightarrow> bool \<Rightarrow> 'w sys_execve \<Rightarrow> environ \<Rightarrow> string \<Rightarrow> string option list \<Rightarrow> 'w \<Rightarrow>
    exec_outcome \<times> 'w" where
  "execlp grow envp_ok ex env filename args w =
     (if \<not> grow 100 then (ExecFailed ENOMEM, w)
      else case args of
        [] \<Rightarrow> (ExecUndefined, w)
      | arg # rest \<Rightarrow>
        (case build_argv grow 100 [arg] rest of
           ArgvNoMem \<Rightarrow> (ExecFailed ENOMEM, w)
         | ArgvUndefined \<Rightarrow> (ExecUndefined, w)
         | ArgvOk argv asz \<Rightarrow>
             if \<not> envp_ok then (ExecFailed ENOMEM, w)
             else if CHR ''/'' \<in> set filename then
               (case ex w filename argv env of
                  (None, w1) \<Rightarrow> (ExecReplaced filename argv env, w1)
                | (Some e, w1) \<Rightarrow>
                    if e = ENOEXEC then
                      (case execShScript ex (length argv) argv env w1 of
                         (ExecFailed e2, w2) \<Rightarrow> (ExecFailed e, w2)
                       | other \<Rightarrow> other)
                    else (ExecFailed e, w1))
             else path_loop ex (length argv) argv env filename False (search_path env) w))"

section \<open>Lemmas on the environment\<close>

text \<open>A well-formed entry: \<open>name=value\<close> with a nonempty name that holds no equals sign.\<close>

lemma env_match_iff: "env_match name e \<longleftrightarrow> (\<exists>v. e = name @ CHR ''='' # v)"
proof
  assume m: "env_match name e"
  then have t: "take (length name) e = name" and c: "cchar_at e (length name) = CHR ''=''"
    by (auto simp: env_match_def strncmp_eq_def)
  from c have l: "length name < length e" and "e ! length name = CHR ''=''"
    by (auto simp: cchar_at_def split: if_splits)
  with t have "e = name @ CHR ''='' # drop (Suc (length name)) e"
    by (metis id_take_nth_drop)
  then show "\<exists>v. e = name @ CHR ''='' # v" by blast
next
  assume "\<exists>v. e = name @ CHR ''='' # v"
  then show "env_match name e" by (auto simp: env_match_def strncmp_eq_def cchar_at_def)
qed

lemma env_match_unique:
  assumes "env_match n e" and "env_match m e" and "CHR ''='' \<notin> set n" and "CHR ''='' \<notin> set m"
  shows "n = m"
proof -
  from assms(1,3) obtain v where "split_at (CHR ''='') e = Some (n, v)"
    by (auto simp: env_match_iff split_at_Some)
  moreover from assms(2,4) obtain u where "split_at (CHR ''='') e = Some (m, u)"
    by (auto simp: env_match_iff split_at_Some)
  ultimately show ?thesis by simp
qed

lemma unsetenv_loop_filter:
  "ep \<le> length env \<Longrightarrow> unsetenv_loop name env ep = take ep env @ filter (\<lambda>e. \<not> env_match name e) (drop ep env)"
proof (induction name env ep rule: unsetenv_loop.induct)
  case (1 name env ep)
  show ?case
  proof (cases "ep < length env")
    case lt: True
    note d = Cons_nth_drop_Suc[OF lt, symmetric]
    show ?thesis
    proof (cases "env_match name (env ! ep)")
      case True
      let ?env = "take ep env @ shift_back (drop ep env)"
      have env': "?env = take ep env @ drop (Suc ep) env" by (simp add: shift_back_tl drop_Suc tl_drop)
      have "unsetenv_loop name ?env ep = take ep ?env @ filter (\<lambda>e. \<not> env_match name e) (drop ep ?env)"
        using 1(1)[OF lt True] lt by (simp add: env')
      then show ?thesis using lt True d by (simp add: unsetenv_loop.simps[of name env ep] shift_back_tl)
    next
      case False
      have "unsetenv_loop name env (Suc ep) =
          take (Suc ep) env @ filter (\<lambda>e. \<not> env_match name e) (drop (Suc ep) env)"
        using 1(2)[OF lt False] lt by simp
      then show ?thesis using lt False d
        by (simp add: unsetenv_loop.simps[of name env ep] take_Suc_conv_app_nth)
    qed
  next
    case False
    then show ?thesis by (subst unsetenv_loop.simps) simp
  qed
qed

lemma unsetenv_filter:
  "\<not> bad_env_name (Some name) \<Longrightarrow>
    unsetenv (Some name) env = (Inr (), filter (\<lambda>e. \<not> env_match name e) env)"
  by (simp add: unsetenv_def unsetenv_loop_filter)

lemma getenv_None_iff: "getenv env name = None \<longleftrightarrow> (\<forall>e \<in> set env. \<not> env_match name e)"
  by (induction env) auto

lemma getenv_filter_other:
  assumes "CHR ''='' \<notin> set name" "CHR ''='' \<notin> set m" "m \<noteq> name"
  shows "getenv (filter (\<lambda>e. \<not> env_match name e) env) m = getenv env m"
  using assms env_match_unique[of name _ m] by (induction env) auto

lemma putenv_absent: "\<forall>e \<in> set env. \<not> env_match name e \<Longrightarrow> putenv env name entry = env @ [entry]"
  by (induction env) auto

lemma getenv_append:
  "getenv (es @ fs) m = (case getenv es m of None \<Rightarrow> getenv fs m | Some v \<Rightarrow> Some v)"
  by (induction es) auto

lemma setenv_ok:
  assumes "\<not> bad_env_name (Some name)" and "overwrite \<or> getenv env name = None"
  shows "setenv True True (Some name) (Some value) overwrite env =
    (Inr (), filter (\<lambda>e. \<not> env_match name e) env @ [name @ ''='' @ value])"
  using assms by (auto simp: setenv_def unsetenv_filter putenv_absent)

section \<open>The environment as a key-value store\<close>

text \<open>The interface the callers use: look a name up, set it, remove it.\<close>

locale kv_store =
  fixes lookup :: "'s \<Rightarrow> 'k \<Rightarrow> 'v option"
    and assign :: "'k \<Rightarrow> 'v \<Rightarrow> 's \<Rightarrow> 's"
    and remove :: "'k \<Rightarrow> 's \<Rightarrow> 's"
    and valid :: "'k \<Rightarrow> bool"
  assumes lookup_assign: "valid k \<Longrightarrow> valid m \<Longrightarrow> lookup (assign k v s) m = (if m = k then Some v else lookup s m)"
    and lookup_remove: "valid k \<Longrightarrow> valid m \<Longrightarrow> lookup (remove k s) m = (if m = k then None else lookup s m)"
begin

lemma assign_last_wins:
  "valid k \<Longrightarrow> valid m \<Longrightarrow> lookup (assign k v (assign k u s)) m = lookup (assign k v s) m"
  by (simp add: lookup_assign)

lemma remove_undoes_assign:
  "valid k \<Longrightarrow> valid m \<Longrightarrow> lookup s k = None \<Longrightarrow> lookup (remove k (assign k v s)) m = lookup s m"
  by (simp add: lookup_assign lookup_remove)

lemma assign_commute:
  "valid k \<Longrightarrow> valid j \<Longrightarrow> valid m \<Longrightarrow> k \<noteq> j \<Longrightarrow>
    lookup (assign k v (assign j u s)) m = lookup (assign j u (assign k v s)) m"
  by (simp add: lookup_assign)

end

definition set_value :: "string \<Rightarrow> string \<Rightarrow> environ \<Rightarrow> environ" where
  "set_value name value env = snd (setenv True True (Some name) (Some value) True env)"

definition unset_value :: "string \<Rightarrow> environ \<Rightarrow> environ" where
  "unset_value name env = snd (unsetenv (Some name) env)"

interpretation envkv: kv_store getenv set_value unset_value "\<lambda>k. \<not> bad_env_name (Some k)"
proof
  fix k m :: string and v :: string and s :: environ
  assume k: "\<not> bad_env_name (Some k)" and m: "\<not> bad_env_name (Some m)"
  then have eq: "CHR ''='' \<notin> set k" "CHR ''='' \<notin> set m" by (auto simp: bad_env_name_def)
  have sv: "set_value k v s = filter (\<lambda>e. \<not> env_match k e) s @ [k @ ''='' @ v]"
    using setenv_ok[OF k, of True] by (simp add: set_value_def)
  have none: "getenv (filter (\<lambda>e. \<not> env_match k e) s) k = None" by (simp add: getenv_None_iff)
  show "getenv (set_value k v s) m = (if m = k then Some v else getenv s m)"
  proof (cases "m = k")
    case True
    then show ?thesis using sv none by (simp add: getenv_append env_match_iff)
  next
    case False
    moreover have "\<not> env_match m (k @ ''='' @ v)"
      using env_match_unique[of m "k @ ''='' @ v" k] eq False by (auto simp: env_match_iff)
    ultimately show ?thesis
      using sv getenv_filter_other[OF eq] by (simp add: getenv_append split: option.splits)
  qed
  show "getenv (unset_value k s) m = (if m = k then None else getenv s m)"
    using none getenv_filter_other[OF eq] by (simp add: unset_value_def unsetenv_filter[OF k])
qed

section \<open>Lemmas on \<open>execlp\<close>\<close>

text \<open>The array the shell's arguments are copied to is one element too small: the copy of the
  terminating \<open>NULL\<close> is stored past its end, for every argument vector.\<close>

lemma sh_copy_bounds: "length sh \<le> j + cnt \<Longrightarrow> 0 < cnt \<Longrightarrow> sh_copy cnt j argv sh = None"
proof (induction cnt arbitrary: j sh)
  case (Suc cnt)
  show ?case
  proof (cases "Suc j < length sh")
    case True
    with Suc.prems have "0 < cnt" by simp
    with True Suc show ?thesis by (simp add: array_store_def)
  qed (simp add: array_store_def)
qed simp

lemma execShScript_undefined: "execShScript ex argc argv envp w = (ExecUndefined, w)"
proof -
  have "sh_copy (argc + 1) 0 argv ((replicate (argc + 1) None)[0 := Some SHELL_PATH]) = None"
    by (rule sh_copy_bounds) simp_all
  then show ?thesis by (simp add: execShScript_def array_store_def)
qed

text \<open>The directory prefixes of \<open>PATH\<close> and the pathnames that are tried, in order.\<close>

fun split_all :: "char \<Rightarrow> string \<Rightarrow> string list" where
  "split_all c [] = [[]]"
| "split_all c (x # xs) =
     (if x = c then [] # split_all c xs
      else (case split_all c xs of [] \<Rightarrow> [[x]] | y # ys \<Rightarrow> (x # y) # ys))"

lemma split_all_not_Nil [simp]: "split_all c s \<noteq> []"
  by (induction s) (auto split: list.splits)

lemma split_all_step:
  "split_all c p = (case split_at c p of None \<Rightarrow> [p] | Some (a, b) \<Rightarrow> a # split_all c b)"
  by (induction p) (auto split: option.splits list.splits)

definition candidates :: "string \<Rightarrow> string \<Rightarrow> string list" where
  "candidates filename path = map (\<lambda>p. candidate p filename) (split_all (CHR '':'') path)"

text \<open>What a \<open>PATH\<close> search promises: the candidates are tried in order until one succeeds; if all
  fail the error is \<open>EACCES\<close> when that occurred, else that of the last candidate.\<close>

fun try_all :: "'w sys_execve \<Rightarrow> string option list \<Rightarrow> environ \<Rightarrow> bool \<Rightarrow> errno \<Rightarrow> string list \<Rightarrow> 'w \<Rightarrow> exec_outcome \<times> 'w" where
  "try_all ex argv envp fnd e [] w = (ExecFailed (if fnd then EACCES else e), w)"
| "try_all ex argv envp fnd e (p # ps) w =
     (case ex w p argv envp of
        (None, w1) \<Rightarrow> (ExecReplaced p argv envp, w1)
      | (Some e1, w1) \<Rightarrow> try_all ex argv envp (fnd \<or> e1 = EACCES) e1 ps w1)"

text \<open>The candidates are tried until one of them turns out to be a script: the first attempt that does not
  fail with another error fails with \<open>ENOEXEC\<close>.\<close>

fun meets_script :: "'w sys_execve \<Rightarrow> string option list \<Rightarrow> environ \<Rightarrow> string list \<Rightarrow> 'w \<Rightarrow> 'w option" where
  "meets_script ex argv envp [] w = None"
| "meets_script ex argv envp (p # ps) w =
     (case ex w p argv envp of
        (None, _) \<Rightarrow> None
      | (Some e, w1) \<Rightarrow> if e = ENOEXEC then Some w1 else meets_script ex argv envp ps w1)"

lemma candidates_step:
  assumes "next_prefix p = (pre, more)"
  shows "candidates filename p = candidate pre filename # (case more of None \<Rightarrow> [] | Some rest \<Rightarrow> candidates filename rest)"
  using assms unfolding candidates_def split_all_step[of _ p] by (auto simp: next_prefix_def split: option.splits)

lemma path_loop_script:
  assumes "meets_script ex argv envp (candidates filename p) w = Some w'"
  shows "path_loop ex argc argv envp filename fnd p w = (ExecUndefined, w')"
  using assms
proof (induction "length p" arbitrary: p fnd w rule: less_induct)
  case less
  obtain pre more where np: "next_prefix p = (pre, more)" by fastforce
  note cs = candidates_step[OF np, of filename]
  obtain r w1 where ex: "ex w (candidate pre filename) argv envp = (r, w1)" by fastforce
  obtain e where r: "r = Some e" using less.prems cs ex by (cases r) auto
  show ?case
  proof (cases "e = ENOEXEC")
    case True
    with less.prems cs ex r np show ?thesis by (simp add: path_loop.simps[of _ _ _ _ _ _ p] execShScript_undefined)
  next
    case False
    with less.prems cs ex r obtain rest where more: "more = Some rest" "meets_script ex argv envp (candidates filename rest) w1 = Some w'"
      by (cases more) auto
    have "length rest < length p" using next_prefix_shorter np more by blast
    from less.hyps[OF this more(2)] np ex r False more(1) show ?thesis by (simp add: path_loop.simps[of _ _ _ _ _ _ p])
  qed
qed

lemma path_loop_try_all:
  assumes no_script: "\<And>w p w'. ex w p argv envp \<noteq> (Some ENOEXEC, w')"
  shows "path_loop ex argc argv envp filename fnd p w =
    try_all ex argv envp fnd e0 (candidates filename p) w"
proof (induction "length p" arbitrary: p fnd e0 w rule: less_induct)
  case less
  obtain pre more where np: "next_prefix p = (pre, more)" by fastforce
  obtain r w1 where ex: "ex w (candidate pre filename) argv envp = (r, w1)" by fastforce
  note cs = candidates_step[OF np, of filename]
  show ?case
  proof (cases r)
    case None
    with np ex cs show ?thesis by (simp add: path_loop.simps[of _ _ _ _ _ _ p])
  next
    case (Some e)
    with no_script ex have "e \<noteq> ENOEXEC" by metis
    with np ex cs Some less[of _ "fnd \<or> e = EACCES" w1 e] show ?thesis
      by (auto simp: path_loop.simps[of _ _ _ _ _ _ p] dest: next_prefix_shorter split: option.splits)
  qed
qed

text \<open>The argument vector: everything up to and including the first \<open>NULL\<close>, and always room for
  one more element.\<close>

lemma build_argv_bounds:
  "build_argv grow asz argv args = ArgvOk av asz' \<Longrightarrow> length argv < asz \<Longrightarrow> 1 < asz \<Longrightarrow>
    length av < asz' \<and> asz \<le> asz'"
proof (induction args arbitrary: asz argv)
  case Nil
  then show ?case by (auto simp: build_argv.simps[of _ _ _ "[]"] Let_def split: if_splits)
next
  case (Cons a as)
  from Cons.prems(1) have step: "last argv \<noteq> None \<Longrightarrow>
     build_argv grow (if length argv + 1 \<ge> asz then asz + 100 else asz) (argv @ [a]) as = ArgvOk av asz'"
    by (subst (asm) build_argv.simps) (auto simp: Let_def split: if_splits)
  show ?case
  proof (cases "last argv = None")
    case True
    with Cons.prems show ?thesis by (simp add: build_argv.simps[of _ _ _ "a # as"])
  next
    case False
    from Cons.IH[OF step[OF False]] Cons.prems(2,3) show ?thesis
      by (cases "asz \<le> Suc (length argv)") auto
  qed
qed

lemma build_argv_take:
  assumes "grow = (\<lambda>_. True)" and "argv \<noteq> []" and "last argv \<noteq> None"
  shows "\<exists>n. build_argv grow asz argv (map Some as @ None # junk) = ArgvOk (argv @ map Some as @ [None]) n"
  using assms(2,3)
proof (induction as arbitrary: argv asz)
  case Nil
  then show ?case
    by (simp add: build_argv.simps[of _ _ argv] Let_def assms(1))
      (simp add: build_argv.simps[of _ _ "argv @ [None]"])
next
  case (Cons a as)
  let ?n = "if length argv + 1 \<ge> asz then asz + 100 else asz"
  from Cons.IH[of "argv @ [Some a]" ?n] obtain n where
    "build_argv grow ?n (argv @ [Some a]) (map Some as @ None # junk) =
      ArgvOk ((argv @ [Some a]) @ map Some as @ [None]) n" by auto
  with Cons.prems show ?case
    by (auto simp: build_argv.simps[of _ _ argv] Let_def assms(1))
qed

section \<open>Properties\<close>

text \<open>C32: \<open>setenv\<close> with a valid name makes \<open>getenv\<close> return the value (or, without \<open>overwrite\<close>, keeps
  an existing one), leaves exactly one entry of that name when it writes, and does not change what
  \<open>getenv\<close> returns for any other name.\<close>

theorem setenv_getenv:
  assumes "\<not> bad_env_name (Some name)"
    and "setenv True True (Some name) (Some value) overwrite env = (r, env')"
  shows "r = Inr () \<and>
    getenv env' name = (if overwrite \<or> getenv env name = None then Some value else getenv env name) \<and>
    (overwrite \<longrightarrow> length (filter (env_match name) env') = 1) \<and>
    (\<forall>m. \<not> bad_env_name (Some m) \<and> m \<noteq> name \<longrightarrow> getenv env' m = getenv env m)"
proof (cases "overwrite \<or> getenv env name = None")
  case True
  from setenv_ok[OF assms(1) True] assms(2) have e: "r = Inr ()"
    "env' = filter (\<lambda>e. \<not> env_match name e) env @ [name @ ''='' @ value]" by auto
  then have sv: "env' = set_value name value env"
    using setenv_ok[OF assms(1), of True] by (simp add: set_value_def)
  have "filter (env_match name) env' = [name @ ''='' @ value]"
    using e(2) by (auto simp: env_match_iff filter_empty_conv)
  then show ?thesis
    using True e(1) sv assms(1) envkv.lookup_assign[of name] by auto
next
  case False
  with assms show ?thesis by (auto simp: setenv_def)
qed

theorem setenv_getenv_witness:
  "\<not> bad_env_name (Some ''xyz'') \<and>
   getenv (snd (setenv True True (Some ''xyz'') (Some ''two'') True [''TT=x'', ''xyz=one'', ''xyz=b''])) ''xyz''
     = Some ''two''"
proof -
  have n: "\<not> bad_env_name (Some ''xyz'')" by (simp add: bad_env_name_def)
  obtain r env' where e: "setenv True True (Some ''xyz'') (Some ''two'') True [''TT=x'', ''xyz=one'', ''xyz=b''] = (r, env')"
    by fastforce
  from setenv_getenv[OF n e] have "getenv env' ''xyz'' = Some ''two''" by simp
  then show ?thesis using n e by simp
qed

text \<open>C31: \<open>unsetenv\<close> with a valid name removes every entry of that name, keeps all other entries in
  their order, and reports \<open>EINVAL\<close> without a change for a \<open>NULL\<close>, empty or malformed name. The
  shifting loop is thus a filter of the list.\<close>

theorem unsetenv_removes_all:
  "unsetenv name env =
     (case name of
        None \<Rightarrow> (Inl EINVAL, env)
      | Some n \<Rightarrow> if n = [] \<or> CHR ''='' \<in> set n then (Inl EINVAL, env)
                 else (Inr (), filter (\<lambda>e. \<not> (\<exists>v. e = n @ CHR ''='' # v)) env))"
  by (auto simp: unsetenv_def bad_env_name_def unsetenv_loop_filter env_match_iff split: option.splits)

text \<open>\<open>unsetenv\<close> undoes \<open>setenv\<close>, for a variable that was not set before and with memory available:
  \<open>setenv\<close> succeeds, with or without \<open>overwrite\<close>, and appends the one entry of the variable, which is
  then found by \<open>getenv\<close>; \<open>unsetenv\<close> succeeds and gives back the very list that was there before.\<close>

theorem unsetenv_undoes_setenv:
  assumes "\<not> bad_env_name (Some k)" and "getenv env k = None"
  shows "setenv True True (Some k) (Some v) overwrite env = (Inr (), env @ [k @ ''='' @ v])
    \<and> getenv (env @ [k @ ''='' @ v]) k = Some v
    \<and> unsetenv (Some k) (env @ [k @ ''='' @ v]) = (Inr (), env)"
proof -
  have none: "\<forall>e \<in> set env. \<not> env_match k e" using assms(2) by (simp add: getenv_None_iff)
  then have f: "filter (\<lambda>e. \<not> env_match k e) env = env" by (simp add: filter_id_conv)
  have m: "env_match k (k @ CHR ''='' # v)" by (auto simp: env_match_iff)
  show ?thesis
    using setenv_ok[OF assms(1), of overwrite env v] assms m
    by (simp add: f unsetenv_filter[OF assms(1)] getenv_append)
qed

theorem unsetenv_undoes_setenv_witness:
  "setenv True True (Some ''A'') (Some ''1'') True [''B=2''] = (Inr (), [''B=2'', ''A=1''])
   \<and> unsetenv (Some ''A'') [''B=2'', ''A=1''] = (Inr (), [''B=2''])"
proof -
  have "\<not> bad_env_name (Some ''A'')" "getenv [''B=2''] ''A'' = None"
    by (simp_all add: bad_env_name_def env_match_def strncmp_eq_def)
  from unsetenv_undoes_setenv[OF this, where overwrite = True and v = "''1''"] show ?thesis by simp
qed

text \<open>C33: for a file name without a slash, \<open>execlp\<close> tries the directories of \<open>PATH\<close> in order (an empty
  one is the current directory, an unset or empty \<open>PATH\<close> is "."), passes the arguments up to the
  \<open>NULL\<close>, stops at the first success, and otherwise fails with \<open>EACCES\<close> if any attempt did, else with
  the last error; here no attempt fails with \<open>ENOEXEC\<close>.\<close>

theorem execlp_path_search:
  assumes "CHR ''/'' \<notin> set filename" and "\<And>w p w'. ex w p argv env \<noteq> (Some ENOEXEC, w')"
    and "argv = Some a # map Some as @ [None]"
  shows "execlp (\<lambda>_. True) True ex env filename (argv @ junk) w =
    try_all ex argv env False e0 (candidates filename (search_path env)) w"
proof -
  obtain n where "build_argv (\<lambda>_. True) 100 [Some a] (map Some as @ None # junk) =
      ArgvOk ([Some a] @ map Some as @ [None]) n"
    using build_argv_take[of "\<lambda>_. True" "[Some a]"] by force
  moreover have "path_loop ex (length argv) argv env filename False (search_path env) w =
      try_all ex argv env False e0 (candidates filename (search_path env)) w"
    by (rule path_loop_try_all) (rule assms(2))
  ultimately show ?thesis using assms(1,3) by (simp add: execlp_def)
qed

theorem execlp_path_search_witness:
  "execlp (\<lambda>_. True) True (\<lambda>w p av en. (if p = ''./ls'' then None else Some ENOENT, w)) [''PATH=/bin:''] ''ls''
     ([Some ''ls'', Some ''-l'', None] @ [Some ''junk'']) ()
   = (ExecReplaced ''./ls'' [Some ''ls'', Some ''-l'', None] [''PATH=/bin:''], ())"
proof -
  let ?ex = "\<lambda>w p av en. (if p = ''./ls'' then None else Some ENOENT, w :: unit)"
  have c: "candidates ''ls'' (search_path [''PATH=/bin:'']) = [''/bin/ls'', ''./ls'']" by code_simp
  have "execlp (\<lambda>_. True) True ?ex [''PATH=/bin:''] ''ls'' ([Some ''ls'', Some ''-l'', None] @ [Some ''junk'']) ()
    = try_all ?ex [Some ''ls'', Some ''-l'', None] [''PATH=/bin:''] False E_OK
        (candidates ''ls'' (search_path [''PATH=/bin:''])) ()"
    by (rule execlp_path_search[where a = "''ls''" and as = "[''-l'']"]) simp_all
  then show ?thesis by (simp add: c)
qed

text \<open>The first time the kernel answers \<open>ENOEXEC\<close> for a file that \<open>execlp\<close> tries (the file name itself
  if it has a slash, otherwise the candidates of the \<open>PATH\<close> search in order, as long as they fail with other
  errors), \<open>execShScript\<close> stores one element past the end of its argument array: executing a script is
  undefined behaviour, whatever the arguments.\<close>

theorem execShScript_overflow:
  assumes "meets_script ex (map Some as @ [None]) env
      (if CHR ''/'' \<in> set filename then [filename] else candidates filename (search_path env)) w = Some w'"
    and "as \<noteq> []"
  shows "execlp (\<lambda>_. True) True ex env filename (map Some as @ None # junk) w = (ExecUndefined, w')"
proof -
  obtain a as' where as: "as = a # as'" using assms(2) by (cases as) auto
  obtain n where b: "build_argv (\<lambda>_. True) 100 [Some a] (map Some as' @ None # junk) =
      ArgvOk ([Some a] @ map Some as' @ [None]) n"
    using build_argv_take[of "\<lambda>_. True" "[Some a]"] by force
  show ?thesis
  proof (cases "CHR ''/'' \<in> set filename")
    case True
    then have "ex w filename (map Some as @ [None]) env = (Some ENOEXEC, w')"
      using assms(1) by (auto split: prod.splits option.splits if_splits)
    with True as b show ?thesis by (simp add: execlp_def execShScript_undefined)
  next
    case False
    then have "path_loop ex (length (map Some as @ [None])) (map Some as @ [None]) env filename False (search_path env) w = (ExecUndefined, w')"
      using assms(1) by (intro path_loop_script) simp
    with False as b show ?thesis by (simp add: execlp_def)
  qed
qed

theorem execShScript_overflow_witness:
  "execlp (\<lambda>_. True) True (\<lambda>w p av en. (if p = ''/bin/script'' then Some ENOEXEC else Some ENOENT, w)) [''PATH=/sbin:/bin'']
     ''script'' [Some ''script'', None] () = (ExecUndefined, ())"
proof -
  have "candidates ''script'' (search_path [''PATH=/sbin:/bin'']) = [''/sbin/script'', ''/bin/script'']" by code_simp
  then show ?thesis
    using execShScript_overflow[of "\<lambda>w p av en. (if p = ''/bin/script'' then Some ENOEXEC else Some ENOENT, w)" "[''script'']"
        "[''PATH=/sbin:/bin'']" "''script''" "()" "()" "[]"]
    by simp
qed

text \<open>The argument vector that is built ends in its first \<open>NULL\<close> and its length stays below the
  allocated size, so every store into it is in range, however many arguments there are.\<close>

theorem build_argv_in_range:
  assumes "build_argv grow 100 [arg] rest = ArgvOk argv asz"
  shows "length argv < asz \<and> 100 \<le> asz"
  using build_argv_bounds[OF assms] by simp

theorem build_argv_in_range_witness:
  "build_argv (\<lambda>_. True) 100 [Some ''a''] [Some ''b'', None] = ArgvOk [Some ''a'', Some ''b'', None] 100 \<and>
   length [Some ''a'', Some ''b'', None] < (100::nat)"
proof -
  have h: "build_argv (\<lambda>_. True) 100 [Some ''a''] [Some ''b'', None] = ArgvOk [Some ''a'', Some ''b'', None] 100"
    by (simp add: build_argv.simps)
  from build_argv_in_range[OF h] h show ?thesis by blast
qed

end
