(* ===== verification/Diag.thy ===== *)
theory Diag
  imports Env_Exec
begin

text \<open>
  The process a program of the repository runs in, and the error diagnostics every program
  shares (\<open>lib/error_functions.c\<close>, \<open>lib/alt_functions.c\<close>).

  A process has its environment list, \<open>errno\<close>, the standard output that is still buffered,
  the output already written and, as a type parameter, the rest of the world. A system call is
  a parameter of the programs that use it: a function on that world which either fails with an
  error number or returns a value. A \<open>printf\<close> call is recorded as its format and arguments.
\<close>

section \<open>The process\<close>

record 'w process =
  environment :: environ
  p_errno :: errno
  pending :: "message list"
  written :: "(nat \<times> message) list"
  world :: 'w

type_synonym ('w, 'a) kcall = "'w \<Rightarrow> (errno + 'a) \<times> 'w"

text \<open>A system call: \<open>None\<close> is the return value \<open>-1\<close>, with \<open>errno\<close> set.\<close>

definition syscall :: "('w, 'a) kcall \<Rightarrow> (('w, 'z) process_scheme, 'a option) program" where
  "syscall k = (\<lambda>s. case k (world s) of
       (Inl e, w) \<Rightarrow> (Inr None, s\<lparr>p_errno := e, world := w\<rparr>)
     | (Inr a, w) \<Rightarrow> (Inr (Some a), s\<lparr>world := w\<rparr>))"

text \<open>The C library: \<open>printf\<close>, \<open>fprintf(stderr, ...)\<close> (unbuffered), \<open>fflush(stdout)\<close>, and
  \<open>exit(3)\<close>, which flushes where \<open>_exit(2)\<close> and \<open>abort(3)\<close> do not.\<close>

definition printf :: "string \<Rightarrow> fmt_arg list \<Rightarrow> (('w, 'z) process_scheme, unit) program" where
  "printf f as = modify (\<lambda>s. s\<lparr>pending := pending s @ [(f, as)]\<rparr>)"

definition eprintf :: "string \<Rightarrow> fmt_arg list \<Rightarrow> (('w, 'z) process_scheme, unit) program" where
  "eprintf f as = modify (\<lambda>s. s\<lparr>written := written s @ [(2, (f, as))]\<rparr>)"

definition flushed :: "('w, 'z) process_scheme \<Rightarrow> ('w, 'z) process_scheme" where
  "flushed s = s\<lparr>pending := [], written := written s @ map (Pair 1) (pending s)\<rparr>"

definition fflush_stdout :: "(('w, 'z) process_scheme, unit) program" where
  "fflush_stdout = modify flushed"

definition exit_process :: "int \<Rightarrow> (('w, 'z) process_scheme, 'a) program" where
  "exit_process status = andThen fflush_stdout (\<lambda>_. halts (Exit status))"

text \<open>\<open>errno\<close> as the number the kernel uses.\<close>

fun errnum :: "errno \<Rightarrow> int" where
  "errnum E_OK = 0" | "errnum EPERM = 1" | "errnum ENOENT = 2" | "errnum EINTR = 4"
| "errnum ENOEXEC = 8" | "errnum EBADF = 9" | "errnum EAGAIN = 11" | "errnum ENOMEM = 12"
| "errnum EACCES = 13" | "errnum EEXIST = 17" | "errnum EINVAL = 22" | "errnum ERANGE = 34"
| "errnum ENAMETOOLONG = 36" | "errnum ENOSYS = 38" | "errnum ENOTSUP = 95"
| "errnum (EOTHER n) = int n"

text \<open>\<open>vsnprintf\<close> for the conversions the callers use: \<open>%d\<close>, \<open>%u\<close>, \<open>%s\<close>, \<open>%c\<close>, \<open>%%\<close>, with
  the length modifiers \<open>l\<close> and \<open>z\<close>.\<close>

fun conv_spec :: "string \<Rightarrow> fmt_arg list \<Rightarrow> string \<times> string \<times> fmt_arg list" where
  "conv_spec [] as = ([], [], as)"
| "conv_spec (c # f) as =
     (if c = CHR ''l'' \<or> c = CHR ''z'' then conv_spec f as
      else if c = CHR ''%'' then (''%'', f, as)
      else case as of [] \<Rightarrow> ([], f, [])
        | FInt i # as' \<Rightarrow> (show_int i, f, as')
        | FStr t # as' \<Rightarrow> (t, f, as')
        | FChar x # as' \<Rightarrow> ([x], f, as'))"

lemma conv_spec_length: "length (fst (snd (conv_spec f as))) \<le> length f"
  by (induction f as rule: conv_spec.induct) (auto split: list.splits fmt_arg.splits)

function vformat :: "string \<Rightarrow> fmt_arg list \<Rightarrow> string" where
  "vformat [] as = []"
| "vformat (c # f) as =
     (if c = CHR ''%''
      then fst (conv_spec f as) @ vformat (fst (snd (conv_spec f as))) (snd (snd (conv_spec f as)))
      else c # vformat f as)"
  by pat_completeness auto

termination
  by (relation "measure (length o fst)") (auto simp: conv_spec_length less_Suc_eq_le)

section \<open>\<open>lib/error_functions.c\<close>\<close>

text \<open>The table \<open>ename\<close> is generated for each architecture (\<open>ename.c.inc\<close>) and the texts of
  \<open>strerror\<close> depend on the locale: both are parameters.\<close>

record err_texts =
  ename :: "string list"
  strerror :: "int \<Rightarrow> string"

text \<open>No names and texts of errors, for examples.\<close>

abbreviation no_texts :: err_texts where
  "no_texts \<equiv> \<lparr>ename = [], strerror = (\<lambda>_. [])\<rparr>"

definition BUF_SIZE :: nat where "BUF_SIZE = 500"

definition MAX_ENAME :: "err_texts \<Rightarrow> int" where
  "MAX_ENAME et = int (length (ename et)) - 1"

definition terminate :: "bool \<Rightarrow> (('w, 'z) process_scheme, 'a) program" where
  "terminate useExit3 = (\<lambda>s.
     (case getenv (environment s) ''EF_DUMPCORE'' of
        Some (c # cs) \<Rightarrow> halts Abort
      | _ \<Rightarrow> if useExit3 then exit_process EXIT_FAILURE else halts (UExit EXIT_FAILURE)) s)"

definition errText :: "err_texts \<Rightarrow> bool \<Rightarrow> int \<Rightarrow> string" where
  "errText et useErr err =
     snprintf_buf BUF_SIZE
       (if useErr
        then '' ['' @ (if err > 0 \<and> err \<le> MAX_ENAME et then ename et ! nat err else ''?UNKNOWN?'')
               @ '' '' @ strerror et err @ '']''
        else '':'')"

definition errBuf :: "err_texts \<Rightarrow> bool \<Rightarrow> int \<Rightarrow> string \<Rightarrow> fmt_arg list \<Rightarrow> string" where
  "errBuf et useErr err format ap =
     snprintf_buf BUF_SIZE
       (''ERROR'' @ errText et useErr err @ '' '' @ snprintf_buf BUF_SIZE (vformat format ap) @ [NL])"

definition outputError ::
  "err_texts \<Rightarrow> bool \<Rightarrow> int \<Rightarrow> bool \<Rightarrow> string \<Rightarrow> fmt_arg list \<Rightarrow> (('w, 'z) process_scheme, unit) program" where
  "outputError et useErr err flushStdout format ap =
     andThen (if flushStdout then fflush_stdout else ret ())
       (\<lambda>_. eprintf ''%s'' [FStr (errBuf et useErr err format ap)])"

definition errMsg :: "err_texts \<Rightarrow> string \<Rightarrow> fmt_arg list \<Rightarrow> (('w, 'z) process_scheme, unit) program" where
  "errMsg et format ap = andThen (query p_errno) (\<lambda>savedErrno.
     andThen (outputError et True (errnum savedErrno) True format ap) (\<lambda>_.
       modify (\<lambda>s. s\<lparr>p_errno := savedErrno\<rparr>)))"

definition errExit :: "err_texts \<Rightarrow> string \<Rightarrow> fmt_arg list \<Rightarrow> (('w, 'z) process_scheme, 'a) program" where
  "errExit et format ap = andThen (query p_errno) (\<lambda>e.
     andThen (outputError et True (errnum e) True format ap) (\<lambda>_. terminate True))"

definition err_exit :: "err_texts \<Rightarrow> string \<Rightarrow> fmt_arg list \<Rightarrow> (('w, 'z) process_scheme, 'a) program" where
  "err_exit et format ap = andThen (query p_errno) (\<lambda>e.
     andThen (outputError et True (errnum e) False format ap) (\<lambda>_. terminate False))"

definition errExitEN ::
  "err_texts \<Rightarrow> int \<Rightarrow> string \<Rightarrow> fmt_arg list \<Rightarrow> (('w, 'z) process_scheme, 'a) program" where
  "errExitEN et errnm format ap =
     andThen (outputError et True errnm True format ap) (\<lambda>_. terminate True)"

definition fatal :: "err_texts \<Rightarrow> string \<Rightarrow> fmt_arg list \<Rightarrow> (('w, 'z) process_scheme, 'a) program" where
  "fatal et format ap = andThen (outputError et False 0 True format ap) (\<lambda>_. terminate True)"

definition usageErr :: "string \<Rightarrow> fmt_arg list \<Rightarrow> (('w, 'z) process_scheme, 'a) program" where
  "usageErr format ap = andThen fflush_stdout (\<lambda>_. andThen (eprintf ''Usage: '' []) (\<lambda>_.
     andThen (eprintf format ap) (\<lambda>_. exit_process EXIT_FAILURE)))"

definition cmdLineErr :: "string \<Rightarrow> fmt_arg list \<Rightarrow> (('w, 'z) process_scheme, 'a) program" where
  "cmdLineErr format ap = andThen fflush_stdout (\<lambda>_.
     andThen (eprintf ''Command-line usage error: '' []) (\<lambda>_.
       andThen (eprintf format ap) (\<lambda>_. exit_process EXIT_FAILURE)))"

text \<open>The C library's \<open>perror\<close>, and the macro \<open>errExit\<close> that some programs define for themselves.\<close>

definition perror :: "err_texts \<Rightarrow> string \<Rightarrow> (('w, 'z) process_scheme, unit) program" where
  "perror et msg = andThen (query p_errno) (\<lambda>e.
     eprintf ''%s: %s\<newline>'' [FStr msg, FStr (strerror et (errnum e))])"

definition errExit_macro :: "err_texts \<Rightarrow> string \<Rightarrow> (('w, 'z) process_scheme, 'a) program" where
  "errExit_macro et msg = andThen (perror et msg) (\<lambda>_. exit_process EXIT_FAILURE)"

text \<open>A system call whose failure is fatal, and one of the \<open>exec\<close> family, which returns only on
  failure.\<close>

definition or_die :: "(('w, 'z) process_scheme, 'a option) program \<Rightarrow> (('w, 'z) process_scheme, 'a) program \<Rightarrow> (('w, 'z) process_scheme, 'a) program" where
  "or_die m die = andThen m (\<lambda>r. case r of None \<Rightarrow> die | Some a \<Rightarrow> ret a)"

definition exec_call ::
  "(string \<Rightarrow> string list \<Rightarrow> ('w, unit) kcall) \<Rightarrow> string \<Rightarrow> string list \<Rightarrow> (('w, 'z) process_scheme, unit) program" where
  "exec_call ex file argv = andThen (syscall (ex file argv)) (\<lambda>r. case r of
       None \<Rightarrow> ret () | Some _ \<Rightarrow> halts (Execed file argv))"

section \<open>\<open>lib/alt_functions.c\<close>\<close>

definition ALT_BUF_SIZE :: nat where "ALT_BUF_SIZE = 100"

definition ALT_strsignal :: "int \<Rightarrow> string" where
  "ALT_strsignal sig = snprintf_buf ALT_BUF_SIZE (''SIG-'' @ show_int sig)"

definition ALT_hstrerror :: "int \<Rightarrow> string" where
  "ALT_hstrerror err = snprintf_buf ALT_BUF_SIZE (''hstrerror-'' @ show_int err)"

definition ALT_posix_openpt ::
  "(string \<Rightarrow> 32 word \<Rightarrow> ('w, int) kcall) \<Rightarrow> 32 word \<Rightarrow> (('w, 'z) process_scheme, int option) program" where
  "ALT_posix_openpt open flags = syscall (open ''/dev/ptmx'' flags)"

text \<open>Unbuffered output: some programs call \<open>setbuf(stdout, NULL)\<close> first.\<close>

definition say :: "string \<Rightarrow> fmt_arg list \<Rightarrow> (('w, 'z) process_scheme, unit) program" where
  "say f as = andThen (printf f as) (\<lambda>_. fflush_stdout)"

section \<open>Lemmas\<close>

lemma syscall_fail [simp]:
  "k (world s) = (Inl e, w) \<Longrightarrow> syscall k s = (Inr None, s\<lparr>p_errno := e, world := w\<rparr>)"
  by (simp add: syscall_def)

lemma syscall_ok [simp]:
  "k (world s) = (Inr a, w) \<Longrightarrow> syscall k s = (Inr (Some a), s\<lparr>world := w\<rparr>)"
  by (simp add: syscall_def)

text \<open>A system call never ends the process and touches only \<open>errno\<close> and the world.\<close>

lemma syscall_cases:
  obtains (fail) e w where "k (world s) = (Inl e, w)"
      and "syscall k s = (Inr None, s\<lparr>p_errno := e, world := w\<rparr>)"
    | (ok) a w where "k (world s) = (Inr a, w)" and "syscall k s = (Inr (Some a), s\<lparr>world := w\<rparr>)"
proof (cases "k (world s)")
  case (Pair r w)
  then show thesis using fail ok by (cases r) simp_all
qed

lemma printf_run [simp, prog]: "printf f as s = (Inr (), s\<lparr>pending := pending s @ [(f, as)]\<rparr>)"
  by (simp add: printf_def)

lemma eprintf_run [simp, prog]: "eprintf f as s = (Inr (), s\<lparr>written := written s @ [(2, (f, as))]\<rparr>)"
  by (simp add: eprintf_def)

lemma fflush_stdout_run [simp, prog]: "fflush_stdout s = (Inr (), flushed s)"
  by (simp add: fflush_stdout_def)

lemma exit_process_run [simp, prog]: "exit_process n s = (Inl (Exit n), flushed s)"
  by (simp add: exit_process_def)

lemma flushed_sel [simp]:
  "pending (flushed s) = []" "written (flushed s) = written s @ map (Pair 1) (pending s)"
  "environment (flushed s) = environment s" "p_errno (flushed s) = p_errno s"
  "world (flushed s) = world s"
  by (simp_all add: flushed_def)

lemma flushed_idem: "pending s = [] \<Longrightarrow> flushed s = s"
  by (simp add: flushed_def)

text \<open>How a process that reports a fatal error ends.\<close>

definition ending :: "bool \<Rightarrow> environ \<Rightarrow> halt" where
  "ending useExit3 env =
     (if getenv env ''EF_DUMPCORE'' \<noteq> None \<and> getenv env ''EF_DUMPCORE'' \<noteq> Some []
      then Abort else if useExit3 then Exit EXIT_FAILURE else UExit EXIT_FAILURE)"

lemma terminate_cases:
  "terminate useExit3 s =
     (Inl (ending useExit3 (environment s)),
      if ending useExit3 (environment s) = Exit EXIT_FAILURE then flushed s else s)"
  by (auto simp: terminate_def ending_def split: option.split list.split)

lemma terminate_flushed: "pending s = [] \<Longrightarrow> terminate b s = (Inl (ending b (environment s)), s)"
  by (simp add: terminate_cases flushed_idem)

lemma terminate_unbuffered: "terminate False s = (Inl (ending False (environment s)), s)"
  by (simp add: terminate_cases ending_def)

text \<open>The state after a diagnostic that flushes standard output first.\<close>

definition reported :: "string \<Rightarrow> ('w, 'z) process_scheme \<Rightarrow> ('w, 'z) process_scheme" where
  "reported line s = (flushed s)\<lparr>written := written (flushed s) @ [(2, (''%s'', [FStr line]))]\<rparr>"

lemma reported_sel [simp]:
  "pending (reported l s) = []" "environment (reported l s) = environment s"
  "p_errno (reported l s) = p_errno s" "world (reported l s) = world s"
  "written (reported l s) = written s @ map (Pair 1) (pending s) @ [(2, (''%s'', [FStr l]))]"
  by (simp_all add: reported_def)

lemma outputError_flushing:
  "outputError et u e True f as s = (Inr (), reported (errBuf et u e f as) s)"
  by (simp add: outputError_def reported_def)

lemma errExit_run [prog]:
  "errExit et f as s = (Inl (ending True (environment s)),
     reported (errBuf et True (errnum (p_errno s)) f as) s)"
  by (simp add: errExit_def andThen_run outputError_flushing terminate_flushed)

lemma errExitEN_run [prog]:
  "errExitEN et n f as s = (Inl (ending True (environment s)), reported (errBuf et True n f as) s)"
  by (simp add: errExitEN_def andThen_run outputError_flushing terminate_flushed)

lemma fatal_run [prog]:
  "fatal et f as s = (Inl (ending True (environment s)), reported (errBuf et False 0 f as) s)"
  by (simp add: fatal_def andThen_run outputError_flushing terminate_flushed)

lemma err_exit_run [prog]:
  "err_exit et f as s = (Inl (ending False (environment s)),
     s\<lparr>written := written s @ [(2, (''%s'', [FStr (errBuf et True (errnum (p_errno s)) f as)]))]\<rparr>)"
  by (simp add: err_exit_def andThen_run outputError_def terminate_unbuffered)

lemma errMsg_run [prog]:
  "errMsg et f as s = (Inr (), reported (errBuf et True (errnum (p_errno s)) f as) s)"
  by (simp add: errMsg_def andThen_run outputError_flushing reported_def flushed_def)

lemma usageErr_run [prog]:
  "usageErr f as s = (Inl (Exit EXIT_FAILURE),
     (flushed s)\<lparr>written := written s @ map (Pair 1) (pending s) @ [(2, (''Usage: '', [])), (2, (f, as))]\<rparr>)"
  by (simp add: usageErr_def andThen_run flushed_def)

lemma cmdLineErr_run [prog]:
  "cmdLineErr f as s = (Inl (Exit EXIT_FAILURE),
     (flushed s)\<lparr>written := written s @ map (Pair 1) (pending s)
        @ [(2, (''Command-line usage error: '', [])), (2, (f, as))]\<rparr>)"
  by (simp add: cmdLineErr_def andThen_run flushed_def)

lemma perror_run [prog]:
  "perror et m s = (Inr (), s\<lparr>written := written s
     @ [(2, (''%s: %s\<newline>'', [FStr m, FStr (strerror et (errnum (p_errno s)))]))]\<rparr>)"
  by (simp add: perror_def andThen_run)

lemma errExit_macro_run [prog]:
  "errExit_macro et m s = (Inl (Exit EXIT_FAILURE), flushed (s\<lparr>written := written s
     @ [(2, (''%s: %s\<newline>'', [FStr m, FStr (strerror et (errnum (p_errno s)))]))]\<rparr>))"
  by (simp add: errExit_macro_def andThen_run perror_run)

lemma or_die_cases:
  assumes "or_die (syscall kc) die s = (r, s')"
  obtains (fail) e w where "kc (world s) = (Inl e, w)" and "die (s\<lparr>p_errno := e, world := w\<rparr>) = (r, s')"
    | (ok) a w where "kc (world s) = (Inr a, w)" and "r = Inr a" and "s' = s\<lparr>world := w\<rparr>"
proof (cases rule: syscall_cases[of kc s])
  case (fail e w)
  with assms that(1) show thesis by (simp add: or_die_def)
next
  case (ok a w)
  with assms that(2) show thesis by (simp add: or_die_def)
qed

lemma ending_not_Execed [simp]: "ending b env \<noteq> Execed f as" "ending b env \<noteq> Undefined"
  by (simp_all add: ending_def)

lemma or_die_not_Execed:
  assumes "andThen (or_die (syscall kc) (errExit et m ms)) f s = (Inl (Execed x y), s')"
  obtains a w where "kc (world s) = (Inr a, w)" and "f a (s\<lparr>world := w\<rparr>) = (Inl (Execed x y), s')"
proof (cases rule: syscall_cases[of kc s])
  case (fail e w)
  with assms show thesis by (simp add: or_die_def andThen_run errExit_run)
next
  case (ok a w)
  with assms that show thesis by (simp add: or_die_def andThen_run)
qed

lemma seqs_or_die_not_Execed:
  assumes "seqs (or_die (syscall kc) (errExit et m as) # ms) s = (Inl (Execed x y), s')"
  obtains w where "kc (world s) = (Inr (), w)" and "seqs ms (s\<lparr>world := w\<rparr>) = (Inl (Execed x y), s')"
  using assms unfolding seqs.simps by (elim or_die_not_Execed) simp

lemma or_die_ok [simp]: "kc (world s) = (Inr a, w) \<Longrightarrow> or_die (syscall kc) die s = (Inr a, s\<lparr>world := w\<rparr>)"
  by (simp add: or_die_def)

lemma or_die_fail [simp]:
  "kc (world s) = (Inl e, w) \<Longrightarrow> or_die (syscall kc) die s = die (s\<lparr>p_errno := e, world := w\<rparr>)"
  by (simp add: or_die_def)

text \<open>The contract the callers of the fatal diagnostics rely on: the call does not return, so
  nothing after it is executed.\<close>

locale noreturn =
  fixes f :: "'x \<Rightarrow> ('s, 'a) program"
  assumes ends: "isl (fst (f x s))"
begin

lemma never_returns: "f x s \<noteq> (Inr a, s')"
  using ends[of x s] by auto

lemma code_after_is_dead: "andThen (f x) g s = andThen (f x) g' s"
  using ends[of x s] by (auto simp: andThen_def isl_def split: prod.splits)

lemma absorbs: "\<exists>h s'. f x s = (Inl h, s') \<and> andThen (f x) g s = (Inl h, s')"
  using ends[of x s] by (cases "f x s") (auto simp: isl_def)

end

interpretation nr_errExit: noreturn "\<lambda>(et, f, as). errExit et f as"
  by unfold_locales (auto simp: errExit_run)

interpretation nr_err_exit: noreturn "\<lambda>(et, f, as). err_exit et f as"
  by unfold_locales (auto simp: err_exit_run)

interpretation nr_errExitEN: noreturn "\<lambda>(et, n, f, as). errExitEN et n f as"
  by unfold_locales (auto simp: errExitEN_run)

interpretation nr_fatal: noreturn "\<lambda>(et, f, as). fatal et f as"
  by unfold_locales (auto simp: fatal_run)

interpretation nr_usageErr: noreturn "\<lambda>(f, as). usageErr f as"
  by unfold_locales (auto simp: usageErr_run)

interpretation nr_cmdLineErr: noreturn "\<lambda>(f, as). cmdLineErr f as"
  by unfold_locales (auto simp: cmdLineErr_run)

lemma errBuf_bounded: "length (errBuf et u e f as) < BUF_SIZE"
  by (simp add: errBuf_def BUF_SIZE_def)

lemma errBuf_complete:
  assumes "length t + length (vformat f as) < 492"
    and "t = (if u then '' ['' @ (if e > 0 \<and> e \<le> MAX_ENAME et then ename et ! nat e else ''?UNKNOWN?'')
               @ '' '' @ strerror et e @ '']'' else '':'')"
  shows "errBuf et u e f as = ''ERROR'' @ t @ '' '' @ vformat f as @ [NL]"
  using assms(1) unfolding errBuf_def errText_def assms(2)[symmetric] by (simp add: BUF_SIZE_def)

section \<open>What a program leaves alone\<close>

lemma say_run [simp, prog]: "say f as s = (Inr (), flushed (s\<lparr>pending := pending s @ [(f, as)]\<rparr>))"
  by (simp add: say_def)

text \<open>A program preserves an observation of the world if no run of it changes the observation,
  whether it returns or ends the process. The rules follow the structure of the programs.\<close>

named_theorems pres \<open>programs that preserve an observation\<close>

definition preserves :: "('w \<Rightarrow> 'x) \<Rightarrow> (('w, 'z) process_scheme, 'a) program \<Rightarrow> bool" where
  "preserves ob m = (\<forall>s. ob (world (snd (m s))) = ob (world s))"

lemma preservesD: "preserves ob m \<Longrightarrow> m s = (r, s') \<Longrightarrow> ob (world s') = ob (world s)"
  unfolding preserves_def by (metis snd_conv)

lemma preserves_ret [pres]: "preserves ob (ret a)"
  by (simp add: preserves_def)

lemma preserves_halts [pres]: "preserves ob (halts h)"
  by (simp add: preserves_def)

lemma preserves_query [pres]: "preserves ob (query f)"
  by (simp add: preserves_def)

lemma preserves_errno [pres]: "preserves ob (modify (\<lambda>s. s\<lparr>p_errno := e\<rparr>))"
  by (simp add: preserves_def)

lemma preserves_andThen [pres]:
  "preserves ob m \<Longrightarrow> (\<And>a. preserves ob (f a)) \<Longrightarrow> preserves ob (andThen m f)"
  by (auto simp: preserves_def andThen_def split: prod.split sum.split) (metis snd_conv)+

lemma preserves_seqs [pres]: "(\<And>m. m \<in> set ms \<Longrightarrow> preserves ob m) \<Longrightarrow> preserves ob (seqs ms)"
  by (induction ms) (auto intro: pres)

lemma preserves_forEach [pres]: "(\<And>x. x \<in> set xs \<Longrightarrow> preserves ob (f x)) \<Longrightarrow> preserves ob (forEach xs f)"
  by (induction xs) (auto intro: pres)

lemma preserves_if [pres]: "preserves ob m \<Longrightarrow> preserves ob n \<Longrightarrow> preserves ob (if b then m else n)"
  by simp

lemma preserves_option [pres]:
  "preserves ob m \<Longrightarrow> (\<And>a. preserves ob (f a)) \<Longrightarrow> preserves ob (case x of None \<Rightarrow> m | Some a \<Rightarrow> f a)"
  by (cases x) simp_all

lemma preserves_printf [pres]: "preserves ob (printf f as)" "preserves ob (eprintf f as)"
  "preserves ob fflush_stdout" "preserves ob (exit_process n)"
  by (simp_all add: preserves_def)

lemma preserves_say [pres]: "preserves ob (say f as)"
  by (simp add: preserves_def)

lemma preserves_diag [pres]: "preserves ob (errExit et f as)" "preserves ob (err_exit et f as)"
  "preserves ob (errExitEN et n f as)" "preserves ob (fatal et f as)" "preserves ob (errMsg et f as)"
  "preserves ob (usageErr f as)" "preserves ob (cmdLineErr f as)" "preserves ob (perror et m)"
  "preserves ob (errExit_macro et m)"
  by (simp_all add: preserves_def errExit_run err_exit_run errExitEN_run fatal_run errMsg_run usageErr_run
      cmdLineErr_run perror_run errExit_macro_run)

lemma preserves_syscall [pres]: "(\<And>w. ob (snd (k w)) = ob w) \<Longrightarrow> preserves ob (syscall k)"
  by (auto simp: preserves_def syscall_def split: prod.split sum.split) (metis snd_conv)+

lemma preserves_or_die [pres]: "preserves ob m \<Longrightarrow> preserves ob die \<Longrightarrow> preserves ob (or_die m die)"
  unfolding or_die_def by (intro pres)

text \<open>Likewise for properties of a whole state that output, \<open>errno\<close> and the world do not affect.\<close>

definition insensitive :: "(('w, 'z) process_scheme \<Rightarrow> bool) \<Rightarrow> bool" where
  "insensitive I = (\<forall>s e p w v. I (s\<lparr>p_errno := e, pending := p, written := w, world := v\<rparr>) = I s)"

lemma insensitiveD: "insensitive I \<Longrightarrow> I (s\<lparr>p_errno := e, pending := p, written := w, world := v\<rparr>) = I s"
  by (simp add: insensitive_def)

lemma insensitive_sel:
  assumes "insensitive I"
  shows "I (s\<lparr>p_errno := e\<rparr>) = I s" "I (s\<lparr>pending := p\<rparr>) = I s" "I (s\<lparr>written := w\<rparr>) = I s"
    "I (s\<lparr>world := v\<rparr>) = I s" "I (flushed s) = I s"
  using insensitiveD[OF assms, where s = s and e = e and p = "pending s" and w = "written s" and v = "world s"]
    insensitiveD[OF assms, where s = s and e = "p_errno s" and p = p and w = "written s" and v = "world s"]
    insensitiveD[OF assms, where s = s and e = "p_errno s" and p = "pending s" and w = w and v = "world s"]
    insensitiveD[OF assms, where s = s and e = "p_errno s" and p = "pending s" and w = "written s" and v = v]
    insensitiveD[OF assms, where s = s and e = "p_errno s" and p = "[]"
      and w = "written s @ map (Pair 1) (pending s)" and v = "world s"]
  by (simp_all add: flushed_def)

lemma keeps_output:
  assumes "insensitive I"
  shows "keeps I (printf f as)" "keeps I (eprintf f as)" "keeps I fflush_stdout" "keeps I (exit_process n)"
    "keeps I (perror et m)" "keeps I (errExit_macro et m)" "keeps I (syscall kc)"
proof -
  note sel = insensitive_sel[OF assms]
  show "keeps I (printf f as)" "keeps I (eprintf f as)" "keeps I fflush_stdout" "keeps I (exit_process n)"
    "keeps I (perror et m)" "keeps I (errExit_macro et m)"
    by (simp_all add: keeps_def sel perror_run errExit_macro_run)
  have "I (s\<lparr>p_errno := e, world := w\<rparr>) = I s" for s e w
    using sel(1)[where s = s and e = e] sel(4)[where s = "s\<lparr>p_errno := e\<rparr>" and v = w] by simp
  then show "keeps I (syscall kc)"
    by (auto simp: keeps_def syscall_def sel split: prod.split sum.split)
qed

lemma keeps_or_die:
  assumes "insensitive I" and "keeps I die"
  shows "keeps I (or_die (syscall kc) die)"
  unfolding or_die_def using assms by (intro keep keeps_output)

section \<open>Properties\<close>

text \<open>C40: The fatal diagnostics. \<open>errExit\<close> writes the buffered standard output first, then its
  error line, and ends the process by \<open>exit(EXIT_FAILURE)\<close>, or by \<open>abort()\<close> when the variable
  \<open>EF_DUMPCORE\<close> is set and not empty. \<open>err_exit\<close> writes its line too but leaves the buffered
  output alone and ends by \<open>_exit(EXIT_FAILURE)\<close>: output inherited across a \<open>fork\<close> is not
  duplicated. Neither returns, so what follows a call is never executed.\<close>
theorem errExit_flushes_err_exit_does_not:
  fixes g g' :: "'b \<Rightarrow> (('w, 'z) process_scheme, 'c) program"
  shows "let line = (2, (''%s'', [FStr (errBuf et True (errnum (p_errno s)) f as)])) in
   fst (errExit et f as s) = Inl (ending True (environment s))
   \<and> written (snd (errExit et f as s)) = written s @ map (Pair 1) (pending s) @ [line]
   \<and> pending (snd (errExit et f as s)) = []
   \<and> fst (err_exit et f as s) = Inl (ending False (environment s))
   \<and> written (snd (err_exit et f as s)) = written s @ [line]
   \<and> pending (snd (err_exit et f as s)) = pending s
   \<and> andThen (errExit et f as) g s = andThen (errExit et f as) g' s"
  using nr_errExit.code_after_is_dead[of "(et, f, as)" g s g']
  by (simp add: Let_def errExit_run err_exit_run)

text \<open>An error line never exceeds its buffer, and nothing of it is lost while the texts are
  short enough. A symbolic error name is printed for the numbers of the table only, so the table
  is never read out of range.\<close>
theorem error_line_complete:
  assumes "length (strerror et (errnum (p_errno s))) + length (vformat f as) < 400"
    and "\<forall>n \<in> set (ename et). length n < 80"
  shows "errBuf et True (errnum (p_errno s)) f as =
      ''ERROR ['' @ (if 0 < errnum (p_errno s) \<and> nat (errnum (p_errno s)) < length (ename et)
                    then ename et ! nat (errnum (p_errno s)) else ''?UNKNOWN?'')
        @ '' '' @ strerror et (errnum (p_errno s)) @ ''] '' @ vformat f as @ [NL]
    \<and> length (errBuf et True (errnum (p_errno s)) f as) < BUF_SIZE"
proof -
  let ?e = "errnum (p_errno s)"
  let ?n = "if 0 < ?e \<and> ?e \<le> MAX_ENAME et then ename et ! nat ?e else ''?UNKNOWN?''"
  have idx: "(0 < ?e \<and> ?e \<le> MAX_ENAME et) = (0 < ?e \<and> nat ?e < length (ename et))"
    by (auto simp: MAX_ENAME_def)
  have "length ?n < 80"
    using assms(2) idx nth_mem[of "nat ?e" "ename et"] by auto
  then have "errBuf et True ?e f as =
      ''ERROR'' @ ('' ['' @ ?n @ '' '' @ strerror et ?e @ '']'') @ '' '' @ vformat f as @ [NL]"
    using assms(1) by (intro errBuf_complete) auto
  then show ?thesis using errBuf_bounded[of et True ?e f as] idx by simp
qed

theorem error_line_complete_witness:
  "errBuf \<lparr>ename = [[], ''EPERM'', ''ENOENT''], strerror = (\<lambda>_. ''No such file or directory'')\<rparr> True
     (errnum (p_errno \<lparr>environment = [], p_errno = ENOENT, pending = [], written = [], world = ()\<rparr>))
     ''open %s'' [FStr ''/tmp/a''] =
     ''ERROR [ENOENT No such file or directory] open /tmp/a\<newline>''"
proof -
  let ?et = "\<lparr>ename = [[], ''EPERM'', ''ENOENT''], strerror = (\<lambda>_. ''No such file or directory'')\<rparr>"
  let ?s = "\<lparr>environment = [], p_errno = ENOENT, pending = [], written = [], world = ()\<rparr>"
  show ?thesis
    using error_line_complete[of ?et ?s "''open %s''" "[FStr ''/tmp/a'']"] by simp
qed

end
