(* ===== verification/Bpf.thy ===== *)
theory Bpf
  imports C_Prelude
begin

text \<open>
  Classic BPF, the language the seccomp filters of \<open>seccomp/\<close> are written in: the instruction
  record \<open>struct sock_filter\<close>, the initialiser macros \<open>BPF_STMT\<close> and \<open>BPF_JUMP\<close>, the data a filter
  reads (\<open>struct seccomp_data\<close> of a little-endian machine) and the run of a filter on it.

  Instructions and data keep their machine widths. Jumps only go forward, so a run recurses on
  the suffix of the program that is left and always ends; \<open>None\<close> stands for a program that the
  machine cannot run (an unknown instruction, a load outside the data, control leaving the end).
\<close>

unbundle bit_operations_syntax

named_theorems bpf \<open>evaluation of filters\<close>

section \<open>Instructions\<close>

record sock_filter =
  code :: "16 word"
  jt :: "8 word"
  jf :: "8 word"
  k :: "32 word"

definition BPF_STMT :: "16 word \<Rightarrow> 32 word \<Rightarrow> sock_filter" where
  "BPF_STMT c v = \<lparr>code = c, jt = 0, jf = 0, k = v\<rparr>"

definition BPF_JUMP :: "16 word \<Rightarrow> 32 word \<Rightarrow> 8 word \<Rightarrow> 8 word \<Rightarrow> sock_filter" where
  "BPF_JUMP c v t f = \<lparr>code = c, jt = t, jf = f, k = v\<rparr>"

abbreviation (input) BPF_LD :: "16 word" where "BPF_LD \<equiv> 0x00"
abbreviation (input) BPF_ALU :: "16 word" where "BPF_ALU \<equiv> 0x04"
abbreviation (input) BPF_JMP :: "16 word" where "BPF_JMP \<equiv> 0x05"
abbreviation (input) BPF_RET :: "16 word" where "BPF_RET \<equiv> 0x06"
abbreviation (input) BPF_W :: "16 word" where "BPF_W \<equiv> 0x00"
abbreviation (input) BPF_ABS :: "16 word" where "BPF_ABS \<equiv> 0x20"
abbreviation (input) BPF_K :: "16 word" where "BPF_K \<equiv> 0x00"
abbreviation (input) BPF_ADD :: "16 word" where "BPF_ADD \<equiv> 0x00"
abbreviation (input) BPF_JA :: "16 word" where "BPF_JA \<equiv> 0x00"
abbreviation (input) BPF_JEQ :: "16 word" where "BPF_JEQ \<equiv> 0x10"
abbreviation (input) BPF_JGT :: "16 word" where "BPF_JGT \<equiv> 0x20"
abbreviation (input) BPF_JGE :: "16 word" where "BPF_JGE \<equiv> 0x30"
abbreviation (input) BPF_JSET :: "16 word" where "BPF_JSET \<equiv> 0x40"

datatype jump_test = JEq | JGt | JGe | JSet

datatype bpf_insn =
    LdAbs "32 word"
  | AddK "32 word"
  | Ja "32 word"
  | JmpK jump_test "32 word" "8 word" "8 word"
  | RetK "32 word"
  | BadInsn

definition decode :: "sock_filter \<Rightarrow> bpf_insn" where
  "decode i =
     (if code i = BPF_LD OR BPF_W OR BPF_ABS then LdAbs (k i)
      else if code i = BPF_ALU OR BPF_ADD OR BPF_K then AddK (k i)
      else if code i = BPF_JMP OR BPF_JA then Ja (k i)
      else if code i = BPF_JMP OR BPF_JEQ OR BPF_K then JmpK JEq (k i) (jt i) (jf i)
      else if code i = BPF_JMP OR BPF_JGT OR BPF_K then JmpK JGt (k i) (jt i) (jf i)
      else if code i = BPF_JMP OR BPF_JGE OR BPF_K then JmpK JGe (k i) (jt i) (jf i)
      else if code i = BPF_JMP OR BPF_JSET OR BPF_K then JmpK JSet (k i) (jt i) (jf i)
      else if code i = BPF_RET OR BPF_K then RetK (k i)
      else BadInsn)"

section \<open>The data a filter reads\<close>

record seccomp_data =
  nr :: "32 word"
  arch :: "32 word"
  instruction_pointer :: "64 word"
  args :: "nat \<Rightarrow> 64 word"

definition lo32 :: "64 word \<Rightarrow> 32 word" where "lo32 a = ucast a"
definition hi32 :: "64 word \<Rightarrow> 32 word" where "hi32 a = ucast (drop_bit 32 a)"

definition sd_words :: "seccomp_data \<Rightarrow> 32 word list" where
  "sd_words sd = [nr sd, arch sd, lo32 (instruction_pointer sd), hi32 (instruction_pointer sd),
     lo32 (args sd 0), hi32 (args sd 0), lo32 (args sd 1), hi32 (args sd 1),
     lo32 (args sd 2), hi32 (args sd 2), lo32 (args sd 3), hi32 (args sd 3),
     lo32 (args sd 4), hi32 (args sd 4), lo32 (args sd 5), hi32 (args sd 5)]"

text \<open>A 32-bit load at an absolute offset; it must be aligned and inside the 64 bytes.\<close>

definition ld_ok :: "32 word \<Rightarrow> bool" where
  "ld_ok off = (unat off mod 4 = 0 \<and> unat off < 64)"

definition ld_word :: "seccomp_data \<Rightarrow> 32 word \<Rightarrow> 32 word option" where
  "ld_word sd off = (if ld_ok off then Some (sd_words sd ! (unat off div 4)) else None)"

abbreviation (input) offsetof_nr :: "32 word" where "offsetof_nr \<equiv> 0"
abbreviation (input) offsetof_arch :: "32 word" where "offsetof_arch \<equiv> 4"
abbreviation (input) offsetof_args0 :: "32 word" where "offsetof_args0 \<equiv> 16"
abbreviation (input) offsetof_args1 :: "32 word" where "offsetof_args1 \<equiv> 24"
abbreviation (input) offsetof_args2 :: "32 word" where "offsetof_args2 \<equiv> 32"
abbreviation (input) sizeof_u32 :: "32 word" where "sizeof_u32 \<equiv> 4"

section \<open>Running a filter\<close>

fun jump_cond :: "jump_test \<Rightarrow> 32 word \<Rightarrow> 32 word \<Rightarrow> bool" where
  "jump_cond JEq a v = (a = v)"
| "jump_cond JGt a v = (a > v)"
| "jump_cond JGe a v = (a \<ge> v)"
| "jump_cond JSet a v = (a AND v \<noteq> 0)"

function bpf_run :: "sock_filter list \<Rightarrow> seccomp_data \<Rightarrow> 32 word \<Rightarrow> 32 word option" where
  "bpf_run [] sd A = None"
| "bpf_run (i # rest) sd A = (case decode i of
       LdAbs off \<Rightarrow> (case ld_word sd off of None \<Rightarrow> None | Some v \<Rightarrow> bpf_run rest sd v)
     | AddK v \<Rightarrow> bpf_run rest sd (A + v)
     | Ja off \<Rightarrow> bpf_run (drop (unat off) rest) sd A
     | JmpK t v a b \<Rightarrow> bpf_run (drop (unat (if jump_cond t A v then a else b)) rest) sd A
     | RetK v \<Rightarrow> Some v
     | BadInsn \<Rightarrow> None)"
  by pat_completeness auto

termination
  by (relation "measure (\<lambda>(p, _, _). length p)") auto

declare bpf_run.simps [simp del]

text \<open>A filter that starts with an empty accumulator.\<close>

definition bpf_filter :: "sock_filter list \<Rightarrow> seccomp_data \<Rightarrow> 32 word option" where
  "bpf_filter p sd = bpf_run p sd 0"

section \<open>Well-formed filters\<close>

text \<open>Each instruction is known, loads stay inside the data, jumps stay inside the program and the
  last instruction returns.\<close>

fun insn_ok :: "bpf_insn \<Rightarrow> nat \<Rightarrow> bool" where
  "insn_ok (LdAbs off) n = (ld_ok off \<and> 0 < n)"
| "insn_ok (AddK v) n = (0 < n)"
| "insn_ok (Ja off) n = (unat off < n)"
| "insn_ok (JmpK t v a b) n = (unat a < n \<and> unat b < n)"
| "insn_ok (RetK v) n = True"
| "insn_ok BadInsn n = False"

fun insns_ok :: "sock_filter list \<Rightarrow> bool" where
  "insns_ok [] = True"
| "insns_ok (i # rest) = (insn_ok (decode i) (length rest) \<and> insns_ok rest)"

definition BPF_MAXINSNS :: nat where "BPF_MAXINSNS = 4096"

definition bpf_valid :: "sock_filter list \<Rightarrow> bool" where
  "bpf_valid p = (p \<noteq> [] \<and> length p \<le> BPF_MAXINSNS \<and> insns_ok p)"

lemma insns_ok_drop: "insns_ok p \<Longrightarrow> insns_ok (drop n p)"
proof (induction p arbitrary: n)
  case (Cons i p)
  then show ?case by (cases n) auto
qed simp

lemma insns_ok_replicate:
  assumes "\<And>n. 0 < n \<Longrightarrow> insn_ok (decode i) n" and "insns_ok p" and "p \<noteq> []"
  shows "insns_ok (replicate m i @ p)"
  using assms by (induction m) auto

lemma insns_ok_returns:
  assumes "insns_ok p" and "p \<noteq> []"
  shows "\<exists>v. bpf_run p sd A = Some v"
  using assms
proof (induction p sd A rule: bpf_run.induct)
  case (2 i rest sd A)
  have rest: "insns_ok rest" and i: "insn_ok (decode i) (length rest)"
    using "2.prems" by auto
  have far: "n < length rest \<Longrightarrow> insns_ok (drop n rest) \<and> drop n rest \<noteq> []" for n
    using rest insns_ok_drop by auto
  show ?case
  proof (cases "decode i")
    case (LdAbs off)
    with i obtain v where "ld_word sd off = Some v" and "rest \<noteq> []" by (auto simp: ld_word_def)
    with "2.IH"(1)[OF LdAbs] rest LdAbs show ?thesis by (simp add: bpf_run.simps)
  next
    case (AddK v)
    with "2.IH"(2)[OF AddK] rest i show ?thesis by (auto simp: bpf_run.simps)
  next
    case (Ja off)
    with "2.IH"(3)[OF Ja] far i show ?thesis by (auto simp: bpf_run.simps)
  next
    case (JmpK t v a b)
    with "2.IH"(4)[OF JmpK] far i show ?thesis by (auto simp: bpf_run.simps)
  qed (use i in \<open>auto simp: bpf_run.simps\<close>)
qed simp

section \<open>Evaluation rules\<close>

lemma run_ld [bpf]:
  "bpf_run (BPF_STMT 0x20 off # rest) sd A =
     (if ld_ok off then bpf_run rest sd (sd_words sd ! (unat off div 4)) else None)"
  by (simp add: bpf_run.simps BPF_STMT_def decode_def ld_word_def)

lemma run_ret [bpf]: "bpf_run (BPF_STMT 0x06 v # rest) sd A = Some v"
  by (simp add: bpf_run.simps BPF_STMT_def decode_def)

lemma run_add [bpf]: "bpf_run (BPF_STMT 0x04 v # rest) sd A = bpf_run rest sd (A + v)"
  by (simp add: bpf_run.simps BPF_STMT_def decode_def)

lemma run_jeq [bpf]:
  "bpf_run (BPF_JUMP 0x15 v a b # rest) sd A =
     (if A = v then bpf_run (drop (unat a) rest) sd A else bpf_run (drop (unat b) rest) sd A)"
  by (simp add: bpf_run.simps BPF_JUMP_def decode_def)

lemma run_jgt [bpf]:
  "bpf_run (BPF_JUMP 0x25 v a b # rest) sd A =
     (if A > v then bpf_run (drop (unat a) rest) sd A else bpf_run (drop (unat b) rest) sd A)"
  by (simp add: bpf_run.simps BPF_JUMP_def decode_def)

lemma run_jge [bpf]:
  "bpf_run (BPF_JUMP 0x35 v a b # rest) sd A =
     (if A \<ge> v then bpf_run (drop (unat a) rest) sd A else bpf_run (drop (unat b) rest) sd A)"
  by (simp add: bpf_run.simps BPF_JUMP_def decode_def)

lemma run_jset [bpf]:
  "bpf_run (BPF_JUMP 0x45 v a b # rest) sd A =
     (if A AND v \<noteq> 0 then bpf_run (drop (unat a) rest) sd A else bpf_run (drop (unat b) rest) sd A)"
  by (simp add: bpf_run.simps BPF_JUMP_def decode_def)

lemma run_ja [bpf]:
  "bpf_run (BPF_JUMP 0x05 v a b # rest) sd A = bpf_run (drop (unat v) rest) sd A"
  by (simp add: bpf_run.simps BPF_JUMP_def decode_def)

lemma hi_lo: "unat a = unat (hi32 a) * 2 ^ 32 + unat (lo32 a)"
proof -
  have "unat a < 2 ^ 64" using unsigned_less[of a] by simp
  then have "unat a div 2 ^ 32 < 2 ^ 32" by simp
  then have "unat (hi32 a) = unat a div 2 ^ 32"
    by (simp add: hi32_def unsigned_ucast_eq unat_div_distrib drop_bit_eq_div take_bit_eq_mod)
  moreover have "unat (lo32 a) = unat a mod 2 ^ 32"
    by (simp add: lo32_def unsigned_ucast_eq take_bit_eq_mod)
  ultimately show ?thesis by simp
qed

lemma lo32_less: "unat (lo32 a) < 2 ^ 32"
proof -
  have "unat (lo32 a) < 2 ^ LENGTH(32)" by (rule unsigned_less)
  then show ?thesis by simp
qed

text \<open>A 64-bit comparison from the two halves: the high half must vanish.\<close>

lemma le_by_halves:
  assumes "n < 2 ^ 32"
  shows "unat a \<le> n \<longleftrightarrow> hi32 a = 0 \<and> unat (lo32 a) \<le> n"
proof (cases "hi32 a = 0")
  case True
  then show ?thesis using hi_lo[of a] by simp
next
  case False
  then have "0 < unat (hi32 a)" by (simp add: unat_gt_0)
  then have "2 ^ 32 \<le> unat a" using hi_lo[of a] by simp
  with False assms show ?thesis by simp
qed

end
