(* ===== verification/Seccomp_Filters.thy ===== *)
theory Seccomp_Filters
  imports Bpf
begin

text \<open>
  The seccomp filters of \<open>seccomp/*.c\<close>, instruction by instruction, and the policies they
  implement. The C initialisers \<open>struct sock_filter filter[] = { ... }\<close> become lists; the choices
  the preprocessor makes (\<open>#if defined __x86_64\<close>, \<open>#ifdef __NR_open\<close>) are the parameter
  \<open>target\<close>. Constants of the kernel headers keep their values.
\<close>

section \<open>Constants of the kernel headers\<close>

abbreviation (input) AUDIT_ARCH_X86_64 :: "32 word" where "AUDIT_ARCH_X86_64 \<equiv> 0xC000003E"
abbreviation (input) AUDIT_ARCH_AARCH64 :: "32 word" where "AUDIT_ARCH_AARCH64 \<equiv> 0xC00000B7"
abbreviation (input) AUDIT_ARCH_I386 :: "32 word" where "AUDIT_ARCH_I386 \<equiv> 0x40000003"
abbreviation (input) X32_SYSCALL_BIT :: "32 word" where "X32_SYSCALL_BIT \<equiv> 0x40000000"

abbreviation (input) SECCOMP_RET_KILL_PROCESS :: "32 word" where "SECCOMP_RET_KILL_PROCESS \<equiv> 0x80000000"
abbreviation (input) SECCOMP_RET_KILL :: "32 word" where "SECCOMP_RET_KILL \<equiv> 0x00000000"
abbreviation (input) SECCOMP_RET_TRAP :: "32 word" where "SECCOMP_RET_TRAP \<equiv> 0x00030000"
abbreviation (input) SECCOMP_RET_ERRNO :: "32 word" where "SECCOMP_RET_ERRNO \<equiv> 0x00050000"
abbreviation (input) SECCOMP_RET_USER_NOTIF :: "32 word" where "SECCOMP_RET_USER_NOTIF \<equiv> 0x7fc00000"
abbreviation (input) SECCOMP_RET_TRACE :: "32 word" where "SECCOMP_RET_TRACE \<equiv> 0x7ff00000"
abbreviation (input) SECCOMP_RET_LOG :: "32 word" where "SECCOMP_RET_LOG \<equiv> 0x7ffc0000"
abbreviation (input) SECCOMP_RET_ALLOW :: "32 word" where "SECCOMP_RET_ALLOW \<equiv> 0x7fff0000"

abbreviation (input) NR_lseek :: "32 word" where "NR_lseek \<equiv> 8"
abbreviation (input) NR_getppid :: "32 word" where "NR_getppid \<equiv> 110"
abbreviation (input) NR_mkdir :: "32 word" where "NR_mkdir \<equiv> 83"
abbreviation (input) NR_openat_x86_64 :: "32 word" where "NR_openat_x86_64 \<equiv> 257"
abbreviation (input) NR_mq_notify_x86_64 :: "32 word" where "NR_mq_notify_x86_64 \<equiv> 244"
abbreviation (input) NR_mq_notify_i386 :: "32 word" where "NR_mq_notify_i386 \<equiv> 281"
abbreviation (input) NR_mq_notify_x32 :: "32 word" where "NR_mq_notify_x32 \<equiv> 527"

abbreviation (input) O_WRONLY :: "32 word" where "O_WRONLY \<equiv> 0x1"
abbreviation (input) O_RDWR :: "32 word" where "O_RDWR \<equiv> 0x2"
abbreviation (input) O_CREAT :: "32 word" where "O_CREAT \<equiv> 0x40"
abbreviation (input) ENOTSUP_NR :: "32 word" where "ENOTSUP_NR \<equiv> 95"

text \<open>The machine a program is compiled for. An architecture without \<open>open()\<close> has no \<open>__NR_open\<close>;
  for the architectures the code does not name, the system call numbers are their own.\<close>

datatype target = X86_64 | AArch64 | OtherArch "32 word option" "32 word"

fun NR_open :: "target \<Rightarrow> 32 word option" where
  "NR_open X86_64 = Some 2" | "NR_open AArch64 = None" | "NR_open (OtherArch op at) = op"

fun NR_openat :: "target \<Rightarrow> 32 word" where
  "NR_openat X86_64 = 257" | "NR_openat AArch64 = 56" | "NR_openat (OtherArch op at) = at"

fun native_arch :: "target \<Rightarrow> 32 word option" where
  "native_arch X86_64 = Some AUDIT_ARCH_X86_64" | "native_arch AArch64 = Some AUDIT_ARCH_AARCH64"
| "native_arch (OtherArch op at) = None"

section \<open>The filters\<close>

definition arg64_filter :: "sock_filter list" where
  "arg64_filter = [
     BPF_STMT (BPF_LD OR BPF_W OR BPF_ABS) offsetof_arch,
     BPF_JUMP (BPF_JMP OR BPF_JEQ OR BPF_K) AUDIT_ARCH_X86_64 0 2,
     BPF_STMT (BPF_LD OR BPF_W OR BPF_ABS) offsetof_nr,
     BPF_JUMP (BPF_JMP OR BPF_JGE OR BPF_K) X32_SYSCALL_BIT 0 1,
     BPF_STMT (BPF_RET OR BPF_K) SECCOMP_RET_KILL_PROCESS,
     BPF_JUMP (BPF_JMP OR BPF_JEQ OR BPF_K) NR_lseek 1 0,
     BPF_STMT (BPF_RET OR BPF_K) SECCOMP_RET_ALLOW,
     BPF_STMT (BPF_LD OR BPF_W OR BPF_ABS) (offsetof_args1 + sizeof_u32),
     BPF_JUMP (BPF_JMP OR BPF_JEQ OR BPF_K) 0 1 0,
     BPF_STMT (BPF_RET OR BPF_K) (SECCOMP_RET_ERRNO OR 2),
     BPF_STMT (BPF_LD OR BPF_W OR BPF_ABS) offsetof_args1,
     BPF_JUMP (BPF_JMP OR BPF_JGT OR BPF_K) 1000 0 1,
     BPF_STMT (BPF_RET OR BPF_K) (SECCOMP_RET_ERRNO OR 1),
     BPF_STMT (BPF_RET OR BPF_K) SECCOMP_RET_ALLOW]"

definition arch_test :: "target \<Rightarrow> sock_filter list" where
  "arch_test t = (case native_arch t of
       Some a \<Rightarrow> [BPF_JUMP (BPF_JMP OR BPF_JEQ OR BPF_K) a 1 0]
     | None \<Rightarrow> [])"

definition x32_test :: "target \<Rightarrow> sock_filter list" where
  "x32_test t = (if t = X86_64 then [
     BPF_JUMP (BPF_JMP OR BPF_JGE OR BPF_K) X32_SYSCALL_BIT 0 1,
     BPF_STMT (BPF_RET OR BPF_K) SECCOMP_RET_KILL_PROCESS] else [])"

definition control_open_filter :: "target \<Rightarrow> sock_filter list" where
  "control_open_filter t =
     [BPF_STMT (BPF_LD OR BPF_W OR BPF_ABS) offsetof_arch]
     @ arch_test t @
     [BPF_STMT (BPF_RET OR BPF_K) SECCOMP_RET_KILL_PROCESS,
      BPF_STMT (BPF_LD OR BPF_W OR BPF_ABS) offsetof_nr]
     @ x32_test t
     @ (case NR_open t of
          Some n \<Rightarrow> [
            BPF_JUMP (BPF_JMP OR BPF_JEQ OR BPF_K) n 0 2,
            BPF_STMT (BPF_LD OR BPF_W OR BPF_ABS) offsetof_args1,
            BPF_JUMP (BPF_JMP OR BPF_JA) 3 0 0]
        | None \<Rightarrow> []) @
     [BPF_JUMP (BPF_JMP OR BPF_JEQ OR BPF_K) (NR_openat t) 1 0,
      BPF_STMT (BPF_RET OR BPF_K) SECCOMP_RET_ALLOW,
      BPF_STMT (BPF_LD OR BPF_W OR BPF_ABS) offsetof_args2,
      BPF_JUMP (BPF_JMP OR BPF_JSET OR BPF_K) O_CREAT 0 1,
      BPF_STMT (BPF_RET OR BPF_K) SECCOMP_RET_KILL_PROCESS,
      BPF_JUMP (BPF_JMP OR BPF_JSET OR BPF_K) (O_WRONLY OR O_RDWR) 0 1,
      BPF_STMT (BPF_RET OR BPF_K) (SECCOMP_RET_ERRNO OR ENOTSUP_NR),
      BPF_STMT (BPF_RET OR BPF_K) SECCOMP_RET_ALLOW]"

definition deny_open_filter :: "target \<Rightarrow> sock_filter list" where
  "deny_open_filter t =
     [BPF_STMT (BPF_LD OR BPF_W OR BPF_ABS) offsetof_arch]
     @ arch_test t @
     [BPF_STMT (BPF_RET OR BPF_K) SECCOMP_RET_KILL_PROCESS,
      BPF_STMT (BPF_LD OR BPF_W OR BPF_ABS) offsetof_nr]
     @ x32_test t
     @ (case NR_open t of
          Some n \<Rightarrow> [BPF_JUMP (BPF_JMP OR BPF_JEQ OR BPF_K) n 2 0]
        | None \<Rightarrow> []) @
     [BPF_JUMP (BPF_JMP OR BPF_JEQ OR BPF_K) (NR_openat t) 1 0,
      BPF_STMT (BPF_RET OR BPF_K) SECCOMP_RET_ALLOW,
      BPF_STMT (BPF_RET OR BPF_K) SECCOMP_RET_KILL_PROCESS]"

definition deny_syscall_filter :: "32 word \<Rightarrow> sock_filter list" where
  "deny_syscall_filter syscallNum = [
     BPF_STMT (BPF_LD OR BPF_W OR BPF_ABS) offsetof_nr,
     BPF_JUMP (BPF_JMP OR BPF_JEQ OR BPF_K) syscallNum 1 0,
     BPF_STMT (BPF_RET OR BPF_K) SECCOMP_RET_ALLOW,
     BPF_STMT (BPF_RET OR BPF_K) SECCOMP_RET_KILL_PROCESS]"

definition perf_filter :: "sock_filter list" where
  "perf_filter = [
     BPF_STMT (BPF_LD OR BPF_W OR BPF_ABS) offsetof_arch,
     BPF_JUMP (BPF_JMP OR BPF_JEQ OR BPF_K) AUDIT_ARCH_X86_64 0 2,
     BPF_STMT (BPF_LD OR BPF_W OR BPF_ABS) offsetof_nr,
     BPF_JUMP (BPF_JMP OR BPF_JGE OR BPF_K) X32_SYSCALL_BIT 0 1,
     BPF_STMT (BPF_RET OR BPF_K) SECCOMP_RET_KILL_PROCESS,
     BPF_JUMP (BPF_JMP OR BPF_JEQ OR BPF_K) NR_openat_x86_64 1 0,
     BPF_STMT (BPF_RET OR BPF_K) SECCOMP_RET_ALLOW,
     BPF_STMT (BPF_RET OR BPF_K) SECCOMP_RET_KILL_PROCESS]"

definition multiarch_filter :: "sock_filter list" where
  "multiarch_filter = [
     BPF_STMT (BPF_LD OR BPF_W OR BPF_ABS) offsetof_arch,
     BPF_JUMP (BPF_JMP OR BPF_JEQ OR BPF_K) AUDIT_ARCH_X86_64 0 5,
     BPF_STMT (BPF_LD OR BPF_W OR BPF_ABS) offsetof_nr,
     BPF_JUMP (BPF_JMP OR BPF_JEQ OR BPF_K) NR_mq_notify_x86_64 0 1,
     BPF_STMT (BPF_RET OR BPF_K) (SECCOMP_RET_ERRNO OR NR_mq_notify_x86_64),
     BPF_JUMP (BPF_JMP OR BPF_JEQ OR BPF_K) (NR_mq_notify_x32 + X32_SYSCALL_BIT) 0 5,
     BPF_STMT (BPF_RET OR BPF_K) (SECCOMP_RET_ERRNO OR NR_mq_notify_x32),
     BPF_JUMP (BPF_JMP OR BPF_JEQ OR BPF_K) AUDIT_ARCH_I386 0 4,
     BPF_STMT (BPF_LD OR BPF_W OR BPF_ABS) offsetof_nr,
     BPF_JUMP (BPF_JMP OR BPF_JEQ OR BPF_K) NR_mq_notify_i386 0 1,
     BPF_STMT (BPF_RET OR BPF_K) (SECCOMP_RET_ERRNO OR NR_mq_notify_i386),
     BPF_STMT (BPF_RET OR BPF_K) SECCOMP_RET_ALLOW,
     BPF_STMT (BPF_RET OR BPF_K) SECCOMP_RET_KILL_PROCESS]"

definition logging_filter :: "sock_filter list" where
  "logging_filter = [
     BPF_STMT (BPF_LD OR BPF_W OR BPF_ABS) offsetof_arch,
     BPF_JUMP (BPF_JMP OR BPF_JEQ OR BPF_K) AUDIT_ARCH_X86_64 0 2,
     BPF_STMT (BPF_LD OR BPF_W OR BPF_ABS) offsetof_nr,
     BPF_JUMP (BPF_JMP OR BPF_JGE OR BPF_K) X32_SYSCALL_BIT 0 1,
     BPF_STMT (BPF_RET OR BPF_K) SECCOMP_RET_KILL_PROCESS,
     BPF_STMT (BPF_RET OR BPF_K) SECCOMP_RET_LOG]"

definition trap_sigsys_filter :: "sock_filter list" where
  "trap_sigsys_filter = [
     BPF_STMT (BPF_LD OR BPF_W OR BPF_ABS) offsetof_arch,
     BPF_JUMP (BPF_JMP OR BPF_JEQ OR BPF_K) AUDIT_ARCH_X86_64 1 0,
     BPF_STMT (BPF_RET OR BPF_K) SECCOMP_RET_KILL,
     BPF_STMT (BPF_LD OR BPF_W OR BPF_ABS) offsetof_nr,
     BPF_JUMP (BPF_JMP OR BPF_JGE OR BPF_K) X32_SYSCALL_BIT 0 1,
     BPF_STMT (BPF_RET OR BPF_K) SECCOMP_RET_KILL_PROCESS,
     BPF_JUMP (BPF_JMP OR BPF_JEQ OR BPF_K) NR_getppid 0 1,
     BPF_STMT (BPF_RET OR BPF_K) SECCOMP_RET_TRAP,
     BPF_STMT (BPF_RET OR BPF_K) SECCOMP_RET_ALLOW]"

definition X86_64_CHECK_ARCH_AND_LOAD_SYSCALL_NR :: "sock_filter list" where
  "X86_64_CHECK_ARCH_AND_LOAD_SYSCALL_NR = [
     BPF_STMT (BPF_LD OR BPF_W OR BPF_ABS) offsetof_arch,
     BPF_JUMP (BPF_JMP OR BPF_JEQ OR BPF_K) AUDIT_ARCH_X86_64 0 2,
     BPF_STMT (BPF_LD OR BPF_W OR BPF_ABS) offsetof_nr,
     BPF_JUMP (BPF_JMP OR BPF_JGE OR BPF_K) X32_SYSCALL_BIT 0 1,
     BPF_STMT (BPF_RET OR BPF_K) SECCOMP_RET_KILL_PROCESS]"

definition mkdir_notify_filter :: "sock_filter list" where
  "mkdir_notify_filter = X86_64_CHECK_ARCH_AND_LOAD_SYSCALL_NR @ [
     BPF_JUMP (BPF_JMP OR BPF_JEQ OR BPF_K) NR_mkdir 0 1,
     BPF_STMT (BPF_RET + BPF_K) SECCOMP_RET_USER_NOTIF,
     BPF_STMT (BPF_RET OR BPF_K) SECCOMP_RET_ALLOW]"

text \<open>The last element of the second filter is a placeholder that is overwritten before use.\<close>

definition mkdir_filter2 :: "32 word \<Rightarrow> sock_filter list" where
  "mkdir_filter2 secondFilter =
     (let flt = X86_64_CHECK_ARCH_AND_LOAD_SYSCALL_NR @ [
            BPF_JUMP (BPF_JMP OR BPF_JEQ OR BPF_K) NR_mkdir 1 0,
            BPF_STMT (BPF_RET OR BPF_K) SECCOMP_RET_ALLOW,
            \<lparr>code = 0, jt = 0, jf = 0, k = 0\<rparr>];
          retTrace = BPF_STMT (BPF_RET + BPF_K) SECCOMP_RET_TRACE;
          retErrno = BPF_STMT (BPF_RET + BPF_K) (SECCOMP_RET_ERRNO OR ENOTSUP_NR)
      in flt[length flt - 1 := (if secondFilter = SECCOMP_RET_ERRNO then retErrno else retTrace)])"

definition openat_notify_filter :: "sock_filter list" where
  "openat_notify_filter = X86_64_CHECK_ARCH_AND_LOAD_SYSCALL_NR @ [
     BPF_JUMP (BPF_JMP OR BPF_JEQ OR BPF_K) NR_openat_x86_64 0 1,
     BPF_STMT (BPF_RET + BPF_K) SECCOMP_RET_USER_NOTIF,
     BPF_STMT (BPF_RET OR BPF_K) SECCOMP_RET_ALLOW]"

text \<open>\<open>seccomp_bench.c\<close>: \<open>icnt\<close> copies of one instruction and a return; \<open>None\<close> is the exit on a bad
  instruction letter.\<close>

definition bench_instruction :: "char \<Rightarrow> sock_filter option" where
  "bench_instruction instr =
     (if instr = CHR ''a'' then Some (BPF_STMT (BPF_ALU OR BPF_ADD OR BPF_K) 1)
      else if instr = CHR ''j'' then Some (BPF_JUMP (BPF_JMP OR BPF_JEQ OR BPF_K) 0 0 0)
      else if instr = CHR ''l'' then Some (BPF_STMT (BPF_LD OR BPF_W OR BPF_ABS) 0)
      else None)"

definition bench_filter :: "sock_filter \<Rightarrow> nat \<Rightarrow> sock_filter list" where
  "bench_filter instruction icnt =
     replicate icnt instruction @ [BPF_STMT (BPF_RET OR BPF_K) SECCOMP_RET_ALLOW]"

section \<open>Lemmas\<close>

text \<open>The two shapes of the x86-64 preamble: after it the accumulator holds the number of a native
  system call, or the filter has already killed the caller.\<close>

definition x86_preamble :: "32 word \<Rightarrow> seccomp_data \<Rightarrow> (32 word \<Rightarrow> 32 word option) \<Rightarrow> 32 word option" where
  "x86_preamble kill sd cont =
     (if arch sd \<noteq> AUDIT_ARCH_X86_64 then Some kill
      else if X32_SYSCALL_BIT \<le> nr sd then Some SECCOMP_RET_KILL_PROCESS
      else cont (nr sd))"

lemma sd_words_sel [bpf]:
  "sd_words sd ! 0 = nr sd" "sd_words sd ! Suc 0 = arch sd"
  "sd_words sd ! 4 = lo32 (args sd 0)" "sd_words sd ! 5 = hi32 (args sd 0)"
  "sd_words sd ! 6 = lo32 (args sd 1)" "sd_words sd ! 7 = hi32 (args sd 1)"
  "sd_words sd ! 8 = lo32 (args sd 2)" "sd_words sd ! 9 = hi32 (args sd 2)"
  by (simp_all add: sd_words_def nth_Cons')

lemma ld_ok_sel [bpf]: "ld_ok 0" "ld_ok 4" "ld_ok 24" "ld_ok 28" "ld_ok 32"
  by (simp_all add: ld_ok_def)

lemmas filter_run = x86_preamble_def bpf bpf_filter_def

lemma arg64_run:
  "bpf_filter arg64_filter sd = x86_preamble SECCOMP_RET_KILL_PROCESS sd (\<lambda>n.
     Some (if n \<noteq> NR_lseek then SECCOMP_RET_ALLOW
           else if hi32 (args sd 1) \<noteq> 0 then SECCOMP_RET_ERRNO OR 2
           else if lo32 (args sd 1) > 1000 then SECCOMP_RET_ERRNO OR 1 else SECCOMP_RET_ALLOW))"
  by (simp add: arg64_filter_def filter_run)

lemma perf_run:
  "bpf_filter perf_filter sd = x86_preamble SECCOMP_RET_KILL_PROCESS sd (\<lambda>n.
     Some (if n = NR_openat_x86_64 then SECCOMP_RET_KILL_PROCESS else SECCOMP_RET_ALLOW))"
  by (simp add: perf_filter_def filter_run)

lemma logging_run:
  "bpf_filter logging_filter sd = x86_preamble SECCOMP_RET_KILL_PROCESS sd (\<lambda>n. Some SECCOMP_RET_LOG)"
  by (simp add: logging_filter_def filter_run)

lemma trap_sigsys_run:
  "bpf_filter trap_sigsys_filter sd = x86_preamble SECCOMP_RET_KILL sd (\<lambda>n.
     Some (if n = NR_getppid then SECCOMP_RET_TRAP else SECCOMP_RET_ALLOW))"
  by (simp add: trap_sigsys_filter_def filter_run)

lemma mkdir_notify_run:
  "bpf_filter mkdir_notify_filter sd = x86_preamble SECCOMP_RET_KILL_PROCESS sd (\<lambda>n.
     Some (if n = NR_mkdir then SECCOMP_RET_USER_NOTIF else SECCOMP_RET_ALLOW))"
  by (simp add: mkdir_notify_filter_def X86_64_CHECK_ARCH_AND_LOAD_SYSCALL_NR_def filter_run)

lemma openat_notify_run:
  "bpf_filter openat_notify_filter sd = x86_preamble SECCOMP_RET_KILL_PROCESS sd (\<lambda>n.
     Some (if n = NR_openat_x86_64 then SECCOMP_RET_USER_NOTIF else SECCOMP_RET_ALLOW))"
  by (simp add: openat_notify_filter_def X86_64_CHECK_ARCH_AND_LOAD_SYSCALL_NR_def filter_run)

lemma mkdir_filter2_run:
  "bpf_filter (mkdir_filter2 v) sd = x86_preamble SECCOMP_RET_KILL_PROCESS sd (\<lambda>n.
     Some (if n = NR_mkdir
           then (if v = SECCOMP_RET_ERRNO then SECCOMP_RET_ERRNO OR ENOTSUP_NR else SECCOMP_RET_TRACE)
           else SECCOMP_RET_ALLOW))"
  by (simp add: mkdir_filter2_def X86_64_CHECK_ARCH_AND_LOAD_SYSCALL_NR_def filter_run)

lemma deny_open_x86_run:
  "bpf_filter (deny_open_filter X86_64) sd = x86_preamble SECCOMP_RET_KILL_PROCESS sd (\<lambda>n.
     Some (if n = 2 \<or> n = NR_openat_x86_64 then SECCOMP_RET_KILL_PROCESS else SECCOMP_RET_ALLOW))"
  by (simp add: deny_open_filter_def arch_test_def x32_test_def filter_run)

text \<open>What the flags of an \<open>open\<close> decide.\<close>

definition flags_decision :: "32 word \<Rightarrow> 32 word" where
  "flags_decision flags =
     (if flags AND O_CREAT \<noteq> 0 then SECCOMP_RET_KILL_PROCESS
      else if flags AND (O_WRONLY OR O_RDWR) \<noteq> 0 then SECCOMP_RET_ERRNO OR ENOTSUP_NR
      else SECCOMP_RET_ALLOW)"

lemma control_open_x86_run:
  "bpf_filter (control_open_filter X86_64) sd = x86_preamble SECCOMP_RET_KILL_PROCESS sd (\<lambda>n.
     Some (if n = 2 then flags_decision (lo32 (args sd 1))
           else if n = NR_openat_x86_64 then flags_decision (lo32 (args sd 2))
           else SECCOMP_RET_ALLOW))"
  by (simp add: control_open_filter_def arch_test_def x32_test_def flags_decision_def filter_run)

subsection \<open>Acceptance\<close>

lemma decode_sel [simp]:
  "decode (BPF_STMT 0x20 v) = LdAbs v" "decode (BPF_STMT 0x06 v) = RetK v"
  "decode (BPF_STMT 0x04 v) = AddK v" "decode (BPF_JUMP 0x05 v a b) = Ja v"
  "decode (BPF_JUMP 0x15 v a b) = JmpK JEq v a b" "decode (BPF_JUMP 0x25 v a b) = JmpK JGt v a b"
  "decode (BPF_JUMP 0x35 v a b) = JmpK JGe v a b" "decode (BPF_JUMP 0x45 v a b) = JmpK JSet v a b"
  by (simp_all add: decode_def BPF_STMT_def BPF_JUMP_def)

lemmas valid_defs = bpf_valid_def BPF_MAXINSNS_def ld_ok_def

lemma valid_x86_filters:
  "bpf_valid arg64_filter" "bpf_valid perf_filter" "bpf_valid logging_filter"
  "bpf_valid trap_sigsys_filter" "bpf_valid mkdir_notify_filter" "bpf_valid openat_notify_filter"
  "bpf_valid (mkdir_filter2 v)" "bpf_valid multiarch_filter" "bpf_valid (deny_syscall_filter n)"
  by (simp_all add: valid_defs arg64_filter_def perf_filter_def logging_filter_def
      trap_sigsys_filter_def mkdir_notify_filter_def openat_notify_filter_def mkdir_filter2_def
      multiarch_filter_def deny_syscall_filter_def X86_64_CHECK_ARCH_AND_LOAD_SYSCALL_NR_def)

lemma valid_open_filters:
  "bpf_valid (deny_open_filter t)" "bpf_valid (control_open_filter t)"
  by (cases t; simp add: valid_defs deny_open_filter_def control_open_filter_def arch_test_def
      x32_test_def split: option.split)+

lemma valid_bench_filter:
  assumes "bench_instruction c = Some i"
  shows "bpf_valid (bench_filter i n) \<longleftrightarrow> n < BPF_MAXINSNS"
proof -
  have "insns_ok (bench_filter i n)"
    unfolding bench_filter_def
    using assms by (intro insns_ok_replicate) (auto simp: bench_instruction_def ld_ok_def split: if_splits)
  then show ?thesis by (auto simp: bpf_valid_def bench_filter_def)
qed

lemma valid_decides: "bpf_valid p \<Longrightarrow> \<exists>r. bpf_filter p sd = Some r"
  unfolding bpf_valid_def bpf_filter_def using insns_ok_returns by blast

subsection \<open>Filters for native x86-64 system calls\<close>

definition kill_actions :: "32 word set" where
  "kill_actions = {SECCOMP_RET_KILL_PROCESS, SECCOMP_RET_KILL}"

definition native_x86 :: "seccomp_data \<Rightarrow> bool" where
  "native_x86 sd = (arch sd = AUDIT_ARCH_X86_64 \<and> nr sd < X32_SYSCALL_BIT)"

text \<open>The contract of a filter that is written for one ABI: it is accepted, and system calls of
  every other ABI are killed.\<close>

locale x86_guarded =
  fixes flt :: "sock_filter list"
  assumes accepted: "bpf_valid flt"
    and foreign: "\<not> native_x86 sd \<Longrightarrow> bpf_filter flt sd \<in> Some ` kill_actions"
begin

lemma decides: "\<exists>r. bpf_filter flt sd = Some r"
  using accepted by (rule valid_decides)

lemma native_only: "bpf_filter flt sd = Some r \<Longrightarrow> r \<notin> kill_actions \<Longrightarrow> native_x86 sd"
  using foreign[of sd] by (cases "native_x86 sd") auto

end

text \<open>A filter that denies a set of system calls and allows the others.\<close>

locale x86_denying = x86_guarded +
  fixes denied :: "32 word set"
  assumes native: "native_x86 sd \<Longrightarrow> bpf_filter flt sd =
    Some (if nr sd \<in> denied then SECCOMP_RET_KILL_PROCESS else SECCOMP_RET_ALLOW)"
begin

lemma allows_iff: "bpf_filter flt sd = Some SECCOMP_RET_ALLOW \<longleftrightarrow> native_x86 sd \<and> nr sd \<notin> denied"
  using native[of sd] foreign[of sd] by (cases "native_x86 sd") (auto simp: kill_actions_def)

lemma kills_iff: "bpf_filter flt sd \<in> Some ` kill_actions \<longleftrightarrow> \<not> native_x86 sd \<or> nr sd \<in> denied"
  using native[of sd] foreign[of sd] by (cases "native_x86 sd") (auto simp: kill_actions_def)

end

lemma preamble_foreign:
  "\<not> native_x86 sd \<Longrightarrow> kl \<in> kill_actions \<Longrightarrow> x86_preamble kl sd c \<in> Some ` kill_actions"
  by (auto simp: x86_preamble_def native_x86_def kill_actions_def not_less)

lemma preamble_native: "native_x86 sd \<Longrightarrow> x86_preamble kl sd c = c (nr sd)"
  by (auto simp: x86_preamble_def native_x86_def)

lemma kill_actions_mem [simp]:
  "SECCOMP_RET_KILL_PROCESS \<in> kill_actions" "SECCOMP_RET_KILL \<in> kill_actions"
  by (simp_all add: kill_actions_def)

interpretation g_arg64: x86_guarded arg64_filter
  by unfold_locales (simp_all add: valid_x86_filters arg64_run preamble_foreign)

interpretation g_logging: x86_guarded logging_filter
  by unfold_locales (simp_all add: valid_x86_filters logging_run preamble_foreign)

interpretation g_trap: x86_guarded trap_sigsys_filter
  by unfold_locales (simp_all add: valid_x86_filters trap_sigsys_run preamble_foreign)

interpretation g_mkdir: x86_guarded mkdir_notify_filter
  by unfold_locales (simp_all add: valid_x86_filters mkdir_notify_run preamble_foreign)

interpretation g_mkdir2: x86_guarded "mkdir_filter2 v" for v
  by unfold_locales (simp_all add: valid_x86_filters mkdir_filter2_run preamble_foreign)

interpretation g_openat: x86_guarded openat_notify_filter
  by unfold_locales (simp_all add: valid_x86_filters openat_notify_run preamble_foreign)

interpretation g_control: x86_guarded "control_open_filter X86_64"
  by unfold_locales (simp_all add: valid_open_filters control_open_x86_run preamble_foreign)

interpretation d_perf: x86_denying perf_filter "{NR_openat_x86_64}"
  by unfold_locales (simp_all add: valid_x86_filters perf_run preamble_foreign preamble_native)

interpretation d_deny_open: x86_denying "deny_open_filter X86_64" "{2, NR_openat_x86_64}"
  by unfold_locales (simp_all add: valid_open_filters deny_open_x86_run preamble_foreign preamble_native)

lemma multiarch_run:
  "bpf_filter multiarch_filter sd =
     Some (if arch sd = AUDIT_ARCH_X86_64
           then (if nr sd = NR_mq_notify_x86_64 then SECCOMP_RET_ERRNO OR NR_mq_notify_x86_64
                 else if nr sd = NR_mq_notify_x32 + X32_SYSCALL_BIT then SECCOMP_RET_ERRNO OR NR_mq_notify_x32
                 else SECCOMP_RET_ALLOW)
           else if arch sd = AUDIT_ARCH_I386
           then (if nr sd = NR_mq_notify_i386 then SECCOMP_RET_ERRNO OR NR_mq_notify_i386
                 else SECCOMP_RET_ALLOW)
           else SECCOMP_RET_KILL_PROCESS)"
  by (simp add: multiarch_filter_def bpf bpf_filter_def)

lemma bench_run:
  assumes "bench_instruction c = Some i"
  shows "bpf_run (bench_filter i n) sd A = Some SECCOMP_RET_ALLOW"
proof (induction n arbitrary: A)
  case 0
  then show ?case by (simp add: bench_filter_def bpf)
next
  case (Suc n)
  have "\<exists>A'. bpf_run (bench_filter i (Suc n)) sd A = bpf_run (bench_filter i n) sd A'"
    using assms by (auto simp: bench_instruction_def bench_filter_def bpf split: if_splits)
  with Suc show ?case by auto
qed

lemma native_preamble_eq:
  "x86_preamble kl sd c = (if native_x86 sd then c (nr sd)
     else Some (if arch sd \<noteq> AUDIT_ARCH_X86_64 then kl else SECCOMP_RET_KILL_PROCESS))"
  by (auto simp: x86_preamble_def native_x86_def)

section \<open>Properties\<close>

text \<open>C14: \<open>seccomp_arg64.c\<close>: the filter compares a 64-bit argument with 32-bit loads and still decides
  on the whole value. A native \<open>lseek\<close> is allowed exactly when its offset, read as an unsigned
  64-bit number, is at most 1000; larger offsets fail with \<open>errno\<close> 1 below \<open>2 ^ 32\<close> and 2 from
  there on, so that every negative offset fails. Other native calls are allowed, foreign ones
  killed.\<close>
theorem arg64_policy:
  "bpf_filter arg64_filter sd = Some
     (if \<not> native_x86 sd then SECCOMP_RET_KILL_PROCESS
      else if nr sd \<noteq> NR_lseek then SECCOMP_RET_ALLOW
      else if unat (args sd 1) \<le> 1000 then SECCOMP_RET_ALLOW
      else if unat (args sd 1) < 2 ^ 32 then SECCOMP_RET_ERRNO OR 1
      else SECCOMP_RET_ERRNO OR 2)"
proof -
  have hi: "hi32 (args sd 1) = 0 \<longleftrightarrow> unat (args sd 1) \<le> 2 ^ 32 - 1"
    using le_by_halves[of "2 ^ 32 - 1" "args sd 1"] lo32_less[of "args sd 1"] by auto
  have lo: "unat (args sd 1) \<le> 1000 \<longleftrightarrow> hi32 (args sd 1) = 0 \<and> lo32 (args sd 1) \<le> 1000"
    using le_by_halves[of 1000 "args sd 1"] by (simp add: word_le_nat_alt)
  show ?thesis
    using hi lo by (auto simp: arg64_run native_preamble_eq not_less)
qed

text \<open>C15: \<open>seccomp_control_open.c\<close>, for every target it can be compiled for: a call of another
  architecture (or of the x32 ABI on x86-64) kills the process; \<open>open\<close> and \<open>openat\<close> are decided on
  their own flags argument, killing on \<open>O_CREAT\<close>, failing with \<open>ENOTSUP\<close> on a writing access mode
  and allowing the rest; every other system call is allowed.\<close>
theorem control_open_policy:
  "bpf_filter (control_open_filter t) sd = Some
     (if native_arch t \<noteq> Some (arch sd) \<or> t = X86_64 \<and> X32_SYSCALL_BIT \<le> nr sd
      then SECCOMP_RET_KILL_PROCESS
      else if NR_open t = Some (nr sd) then flags_decision (lo32 (args sd 1))
      else if NR_openat t = nr sd then flags_decision (lo32 (args sd 2))
      else SECCOMP_RET_ALLOW)"
proof (cases t)
  case X86_64
  then show ?thesis by (auto simp: control_open_x86_run x86_preamble_def)
next
  case AArch64
  then show ?thesis
    by (auto simp: control_open_filter_def arch_test_def x32_test_def flags_decision_def bpf bpf_filter_def)
next
  case (OtherArch op at)
  then show ?thesis by (simp add: control_open_filter_def arch_test_def bpf bpf_filter_def)
qed

theorem control_open_policy_witness:
  "bpf_filter (control_open_filter X86_64)
     \<lparr>nr = 257, arch = AUDIT_ARCH_X86_64, instruction_pointer = 0, args = (\<lambda>i. if i = 2 then 0x40 else 0)\<rparr>
   = Some SECCOMP_RET_KILL_PROCESS"
  unfolding control_open_policy by (simp add: flags_decision_def lo32_def)

text \<open>\<open>seccomp_deny_open.c\<close> kills the process on \<open>open\<close> and \<open>openat\<close> of the native
  architecture and on every foreign call, and allows exactly the other native calls.\<close>
theorem deny_open_policy:
  "bpf_filter (deny_open_filter t) sd = Some
     (if native_arch t = Some (arch sd) \<and> (t = X86_64 \<longrightarrow> nr sd < X32_SYSCALL_BIT)
         \<and> nr sd \<noteq> NR_openat t \<and> NR_open t \<noteq> Some (nr sd)
      then SECCOMP_RET_ALLOW else SECCOMP_RET_KILL_PROCESS)"
proof (cases t)
  case X86_64
  then show ?thesis by (auto simp: deny_open_x86_run x86_preamble_def)
next
  case AArch64
  then show ?thesis by (auto simp: deny_open_filter_def arch_test_def x32_test_def bpf bpf_filter_def)
next
  case (OtherArch op at)
  then show ?thesis by (simp add: deny_open_filter_def arch_test_def bpf bpf_filter_def)
qed

theorem deny_open_policy_witness:
  "bpf_filter (deny_open_filter X86_64)
     \<lparr>nr = 257, arch = AUDIT_ARCH_X86_64, instruction_pointer = 0, args = (\<lambda>_. 0)\<rparr>
   = Some SECCOMP_RET_KILL_PROCESS"
  using deny_open_policy[of X86_64
     "\<lparr>nr = 257, arch = AUDIT_ARCH_X86_64, instruction_pointer = 0, args = (\<lambda>_. 0)\<rparr>"] by simp

text \<open>C16: No filter that checks its architecture can be bypassed through another ABI: whenever one of
  them lets a system call proceed in any way (allow, log, error, trap, notification), the call is
  a native x86-64 call with the x32 bit clear.\<close>
theorem guarded_filters_native_only:
  assumes "flt \<in> {arg64_filter, perf_filter, logging_filter, trap_sigsys_filter, mkdir_notify_filter,
      mkdir_filter2 v, openat_notify_filter, control_open_filter X86_64, deny_open_filter X86_64}"
    and "bpf_filter flt sd = Some r" and "r \<notin> kill_actions"
  shows "arch sd = AUDIT_ARCH_X86_64 \<and> nr sd < X32_SYSCALL_BIT"
proof -
  have "native_x86 sd"
    using assms(1,2)
      g_arg64.native_only[OF _ assms(3)] d_perf.native_only[OF _ assms(3)]
      g_logging.native_only[OF _ assms(3)] g_trap.native_only[OF _ assms(3)]
      g_mkdir.native_only[OF _ assms(3)] g_mkdir2.native_only[OF _ assms(3)]
      g_openat.native_only[OF _ assms(3)] g_control.native_only[OF _ assms(3)]
      d_deny_open.native_only[OF _ assms(3)]
    by blast
  then show ?thesis by (simp add: native_x86_def)
qed

theorem guarded_filters_native_only_witness:
  "bpf_filter logging_filter \<lparr>nr = 39, arch = AUDIT_ARCH_X86_64, instruction_pointer = 0, args = (\<lambda>_. 0)\<rparr>
     = Some SECCOMP_RET_LOG
   \<and> AUDIT_ARCH_X86_64 = AUDIT_ARCH_X86_64 \<and> (39::32 word) < X32_SYSCALL_BIT"
proof -
  let ?sd = "\<lparr>nr = 39, arch = AUDIT_ARCH_X86_64, instruction_pointer = 0, args = (\<lambda>_. 0)\<rparr>"
  have run: "bpf_filter logging_filter ?sd = Some SECCOMP_RET_LOG"
    by (simp add: logging_run x86_preamble_def)
  have "arch ?sd = AUDIT_ARCH_X86_64 \<and> nr ?sd < X32_SYSCALL_BIT"
    using guarded_filters_native_only[of logging_filter 0 ?sd SECCOMP_RET_LOG] run
    by (simp add: kill_actions_def)
  with run show ?thesis by simp
qed

text \<open>C37: Every filter of the repository meets the static rules of the machine (known instructions,
  loads inside the data, forward jumps inside the program, a final return, at most 4096
  instructions), so it reaches a decision on every system call; the benchmark filter does so for
  every instruction letter and every count below 4096, and allows every call.\<close>
theorem filters_accepted_and_decide:
  assumes "flt \<in> {arg64_filter, perf_filter, logging_filter, trap_sigsys_filter, mkdir_notify_filter,
      mkdir_filter2 v, openat_notify_filter, multiarch_filter, deny_syscall_filter n,
      control_open_filter t, deny_open_filter t}"
    and "bench_instruction c = Some i"
  shows "bpf_valid flt \<and> (\<exists>r. bpf_filter flt sd = Some r)
    \<and> (bpf_valid (bench_filter i icnt) \<longleftrightarrow> icnt < BPF_MAXINSNS)
    \<and> bpf_filter (bench_filter i icnt) sd = Some SECCOMP_RET_ALLOW"
proof -
  have "bpf_valid flt"
    using assms(1) valid_x86_filters valid_open_filters by auto
  then show ?thesis
    using valid_decides[of flt sd] valid_bench_filter[OF assms(2)] bench_run[OF assms(2)]
    by (simp add: bpf_filter_def)
qed

theorem filters_accepted_and_decide_witness:
  "bpf_valid multiarch_filter
   \<and> bpf_filter (bench_filter (BPF_STMT 0x04 1) 3)
       \<lparr>nr = 1, arch = 0, instruction_pointer = 0, args = (\<lambda>_. 0)\<rparr> = Some SECCOMP_RET_ALLOW"
  using filters_accepted_and_decide[of multiarch_filter 0 0 X86_64 "CHR ''a''" "BPF_STMT 0x04 1"
      "\<lparr>nr = 1, arch = 0, instruction_pointer = 0, args = (\<lambda>_. 0)\<rparr>" 3]
  by (simp add: bench_instruction_def)

text \<open>\<open>seccomp_multiarch.c\<close>: \<open>mq_notify\<close> fails with its own system call number as the error on each
  of the three ABIs, no other call of a known architecture is affected, and an unknown
  architecture is killed.\<close>
theorem multiarch_policy:
  "bpf_filter multiarch_filter sd =
     Some (if arch sd = AUDIT_ARCH_X86_64 \<and> nr sd = 244 then SECCOMP_RET_ERRNO OR 244
      else if arch sd = AUDIT_ARCH_X86_64 \<and> nr sd = (527 OR X32_SYSCALL_BIT) then SECCOMP_RET_ERRNO OR 527
      else if arch sd = AUDIT_ARCH_I386 \<and> nr sd = 281 then SECCOMP_RET_ERRNO OR 281
      else if arch sd = AUDIT_ARCH_X86_64 \<or> arch sd = AUDIT_ARCH_I386 then SECCOMP_RET_ALLOW
      else SECCOMP_RET_KILL_PROCESS)"
  by (simp add: multiarch_run)

end
