(* ===== verification/Seccomp_Apps.thy ===== *)
theory Seccomp_Apps
  imports Seccomp_Filters Diag Num_Args
begin

text \<open>
  The programs around the filters of \<open>seccomp/*.c\<close>: how each builds its \<open>struct sock_fprog\<close>, installs
  it, and what it runs afterwards. The system calls are the fields of a kernel record; a program
  is a function of the kernel, the texts of the error messages and its argument vector.
\<close>

section \<open>The kernel the programs talk to\<close>

text \<open>\<open>struct sock_fprog\<close>: the length is an \<open>unsigned short\<close>, and the kernel sees that many
  instructions.\<close>

record sock_fprog =
  len :: "16 word"
  filter_insns :: "sock_filter list"

definition mk_fprog :: "nat \<Rightarrow> sock_filter list \<Rightarrow> sock_fprog" where
  "mk_fprog n flt = \<lparr>len = of_nat n, filter_insns = flt\<rparr>"

definition fprog_insns :: "sock_fprog \<Rightarrow> sock_filter list" where
  "fprog_insns p = take (unat (len p)) (filter_insns p)"

record 'w kernel =
  sys_prctl_no_new_privs :: "('w, unit) kcall"
  sys_seccomp_set_filter :: "sock_filter list \<Rightarrow> ('w, unit) kcall"
  sys_open :: "string \<Rightarrow> 32 word \<Rightarrow> ('w, int) kcall"
  sys_lseek :: "int \<Rightarrow> int \<Rightarrow> ('w, int) kcall"
  sys_getppid :: "('w, int) kcall"
  sys_geteuid :: "('w, int) kcall"
  sys_getpid :: "'w \<Rightarrow> int"
  sys_execvp :: "string \<Rightarrow> string list \<Rightarrow> ('w, unit) kcall"
  sys_execv :: "string \<Rightarrow> string list \<Rightarrow> ('w, unit) kcall"
  sys_mq_notify :: "int \<Rightarrow> ('w, unit) kcall"
  lib_system :: "string \<Rightarrow> ('w, int) kcall"
  sys_fstat_size :: "int \<Rightarrow> ('w, int) kcall"
  sys_read :: "int \<Rightarrow> nat \<Rightarrow> ('w, string) kcall"
  sys_close :: "int \<Rightarrow> ('w, unit) kcall"
  lib_alloc_ok :: "'w \<Rightarrow> nat \<Rightarrow> bool"

definition prctl_or_die ::
  "('w process, unit) program \<Rightarrow> 'w kernel \<Rightarrow> ('w process, unit) program" where
  "prctl_or_die die K = or_die (syscall (sys_prctl_no_new_privs K)) die"

definition seccomp_or_die ::
  "('w process, unit) program \<Rightarrow> 'w kernel \<Rightarrow> sock_fprog \<Rightarrow> ('w process, unit) program" where
  "seccomp_or_die die K p = or_die (syscall (sys_seccomp_set_filter K (fprog_insns p))) die"

text \<open>The tail all the functions \<open>install_filter\<close> share: \<open>prog\<close> is set up over the whole array and
  installed, with a fatal error if that fails.\<close>

definition install_with ::
  "('w process, unit) program \<Rightarrow> 'w kernel \<Rightarrow> sock_filter list \<Rightarrow> ('w process, unit) program" where
  "install_with die K flt = seccomp_or_die die K (mk_fprog (length flt) flt)"

section \<open>\<open>seccomp_arg64.c\<close>\<close>

definition install_arg64 :: "err_texts \<Rightarrow> 'w kernel \<Rightarrow> ('w process, unit) program" where
  "install_arg64 et K = install_with (errExit et ''seccomp'' []) K arg64_filter"

definition seek_test :: "'w kernel \<Rightarrow> int \<Rightarrow> int \<Rightarrow> ('w process, unit) program" where
  "seek_test K fd offset =
     andThen (printf ''Seek to byte %lld: '' [FInt offset]) (\<lambda>_.
     andThen (syscall (sys_lseek K fd offset)) (\<lambda>r.
       if r = Some 0 then printf ''succeeded\<newline>'' []
       else andThen (query p_errno) (\<lambda>e. printf ''failed with errno = %d\<newline>'' [FInt (errnum e)])))"

definition main_arg64 :: "err_texts \<Rightarrow> 'w kernel \<Rightarrow> ('w process, unit) program" where
  "main_arg64 et K =
     andThen (prctl_or_die (errExit et ''prctl'' []) K) (\<lambda>_.
     andThen (install_arg64 et K) (\<lambda>_.
     andThen (or_die (syscall (sys_open K ''/dev/zero'' O_RDWR)) (errExit et ''open'' [])) (\<lambda>fd.
     seqs [seek_test K fd 0, seek_test K fd 10000, seek_test K fd 0x100000001,
           exit_process EXIT_SUCCESS])))"

section \<open>\<open>seccomp_control_open.c\<close>, \<open>seccomp_deny_open.c\<close>\<close>

definition install_control_open ::
  "err_texts \<Rightarrow> 'w kernel \<Rightarrow> target \<Rightarrow> ('w process, unit) program" where
  "install_control_open et K t = install_with (errExit et ''seccomp'' []) K (control_open_filter t)"

definition open_or_perror ::
  "err_texts \<Rightarrow> 'w kernel \<Rightarrow> 32 word \<Rightarrow> string \<Rightarrow> ('w process, unit) program" where
  "open_or_perror et K flags msg = andThen (syscall (sys_open K ''/tmp/a'' flags)) (\<lambda>r.
     if r = None then perror et msg else ret ())"

definition main_control_open :: "err_texts \<Rightarrow> 'w kernel \<Rightarrow> target \<Rightarrow> ('w process, unit) program" where
  "main_control_open et K t = seqs [
     prctl_or_die (errExit et ''prctl'' []) K,
     install_control_open et K t,
     open_or_perror et K 0 ''open1'',
     open_or_perror et K O_WRONLY ''open2'',
     open_or_perror et K O_RDWR ''open3'',
     open_or_perror et K (O_CREAT OR O_RDWR) ''open4'',
     exit_process EXIT_SUCCESS]"

definition install_deny_open ::
  "err_texts \<Rightarrow> 'w kernel \<Rightarrow> target \<Rightarrow> ('w process, unit) program" where
  "install_deny_open et K t = install_with (errExit et ''seccomp'' []) K (deny_open_filter t)"

definition main_deny_open :: "err_texts \<Rightarrow> 'w kernel \<Rightarrow> target \<Rightarrow> ('w process, unit) program" where
  "main_deny_open et K t = seqs [
     prctl_or_die (errExit et ''prctl'' []) K,
     install_deny_open et K t,
     andThen (or_die (syscall (sys_open K ''/tmp/a'' 0)) (errExit et ''open'' [])) (\<lambda>_. ret ()),
     printf ''We shouldn't see this message\<newline>'' [],
     exit_process EXIT_SUCCESS]"

section \<open>\<open>seccomp_deny_syscall.c\<close>\<close>

definition install_deny_syscall ::
  "err_texts \<Rightarrow> 'w kernel \<Rightarrow> int \<Rightarrow> ('w process, unit) program" where
  "install_deny_syscall et K syscallNum =
     install_with (errExit et ''seccomp'' []) K (deny_syscall_filter (word_of_int syscallNum))"

text \<open>A missing argument is only reported: the program goes on with the null pointers behind the end
  of \<open>argv\<close>.\<close>

definition main_deny_syscall ::
  "err_texts \<Rightarrow> 'w kernel \<Rightarrow> string list \<Rightarrow> ('w process, unit) program" where
  "main_deny_syscall et K argv = seqs [
     if length argv < 3
       then eprintf ''Usage: %s <syscall-num> <command> <arg>...\<newline>'' [FStr (argv ! 0)] else ret (),
     prctl_or_die (errExit et ''prctl'' []) K,
     if 1 < length argv then install_deny_syscall et K (atoi (argv ! 1)) else halts Undefined,
     if 2 < length argv then exec_call (sys_execvp K) (argv ! 2) (drop 2 argv) else halts Undefined,
     errExit et ''execve'' [],
     exit_process EXIT_SUCCESS]"

section \<open>\<open>seccomp_perf.c\<close>\<close>

definition install_perf :: "err_texts \<Rightarrow> 'w kernel \<Rightarrow> ('w process, unit) program" where
  "install_perf et K = install_with (errExit_macro et ''seccomp'') K perf_filter"

definition getppid_loop :: "'w kernel \<Rightarrow> int \<Rightarrow> ('w process, unit) program" where
  "getppid_loop K nloops =
     forEach [0..<nat nloops] (\<lambda>j. andThen (syscall (sys_getppid K)) (\<lambda>_. ret ()))"

definition main_perf :: "err_texts \<Rightarrow> 'w kernel \<Rightarrow> string list \<Rightarrow> ('w process, unit) program" where
  "main_perf et K argv = seqs [
     if length argv < 2
       then seqs [eprintf ''Usage: %s <num-loops> [x]\<newline>'' [FStr (argv ! 0)],
                  eprintf ''       (use 'x' to run with BPF filter applied)\<newline>'' [],
                  exit_process EXIT_FAILURE]
       else ret (),
     if 2 < length argv
       then seqs [printf ''Applying BPF filter\<newline>'' [],
                  prctl_or_die (errExit_macro et ''prctl'') K,
                  install_perf et K]
       else ret (),
     getppid_loop K (atoi (argv ! 1)),
     exit_process EXIT_SUCCESS]"

section \<open>\<open>seccomp_logging.c\<close>\<close>

definition install_logging :: "err_texts \<Rightarrow> 'w kernel \<Rightarrow> ('w process, unit) program" where
  "install_logging et K = install_with (errExit et ''seccomp'' []) K logging_filter"

definition main_logging :: "err_texts \<Rightarrow> 'w kernel \<Rightarrow> ('w process, unit) program" where
  "main_logging et K = seqs [
     prctl_or_die (errExit et ''prctl'' []) K,
     install_logging et K,
     andThen (syscall (sys_geteuid K)) (\<lambda>_. ret ()),
     andThen (syscall (sys_getppid K)) (\<lambda>_. ret ()),
     exit_process EXIT_SUCCESS]"

section \<open>\<open>seccomp_multiarch.c\<close>\<close>

definition install_multiarch :: "err_texts \<Rightarrow> 'w kernel \<Rightarrow> ('w process, unit) program" where
  "install_multiarch et K = install_with (errExit_macro et ''seccomp'') K multiarch_filter"

definition no_seccomp_filter_var :: string where
  "no_seccomp_filter_var = ''NO_SECCOMP_FILTER''"

definition system_line :: "'w kernel \<Rightarrow> string \<Rightarrow> string \<Rightarrow> ('w process, unit) program" where
  "system_line K before after = andThen (query (\<lambda>s. sys_getpid K (world s))) (\<lambda>pid.
     andThen (syscall (lib_system K (snprintf_buf 1024 (before @ show_int pid @ after)))) (\<lambda>_. ret ()))"

definition main_multiarch ::
  "err_texts \<Rightarrow> 'w kernel \<Rightarrow> string list \<Rightarrow> ('w process, unit) program" where
  "main_multiarch et K argv = seqs [
     andThen (query (\<lambda>s. getenv (environment s) no_seccomp_filter_var)) (\<lambda>v.
       if v = None
       then seqs [prctl_or_die (errExit_macro et ''prctl'') K,
                  printf ''Initial execution; installing seccomp filter\<newline>'' [],
                  install_multiarch et K]
       else ret ()),
     andThen (query (\<lambda>s. sys_getpid K (world s))) (\<lambda>pid.
       printf (TAB # ''argv[0] = %s; PID = %ld\<newline>'') [FStr (argv ! 0), FInt pid]),
     system_line K (''echo -n '' @ [QUOTE, TAB, QUOTE] @ ''; grep Seccomp /proc/'') ''/status'',
     system_line K (''echo -n '' @ [QUOTE, TAB, QUOTE] @ ''; file -L /proc/'') (''/exe | sed 's/,.*//'' @ [QUOTE]),
     andThen (syscall (sys_mq_notify K 0)) (\<lambda>r. andThen (query p_errno) (\<lambda>e.
       if r = None \<and> e \<noteq> EBADF
       then printf ''mq_notify() failed with errno = %d\<newline>'' [FInt (errnum e)]
       else seqs [
         printf ''mq_notify() was not failed by seccomp() filter!\<newline>'' [],
         printf ''*** Make sure that the %s environment variable is not set\<newline>'' [FStr no_seccomp_filter_var],
         printf ''    when running this program.\<newline>'' [],
         printf ''*** Otherwise, check the syscall numbers in kernel headers\<newline>'' [],
         printf ''    to see that they are correct\<newline>'' [],
         exit_process EXIT_FAILURE])),
     if 1 < length argv
       then seqs [
         modify (\<lambda>s. s\<lparr>environment := putenv (environment s) no_seccomp_filter_var
                               (no_seccomp_filter_var @ ''='' @ ''y'')\<rparr>),
         printf ''\<newline>'' [],
         printf ''About to exec: %s\<newline>'' [FStr (argv ! 1)],
         exec_call (sys_execv K) (argv ! 1) (drop 1 argv),
         errExit_macro et ''execvp'']
       else ret (),
     exit_process EXIT_SUCCESS]"

section \<open>\<open>seccomp_bench.c\<close>\<close>

text \<open>\<open>calloc\<close> converts a negative count to a huge unsigned one and fails; with a count of zero it may
  return a block, and the store of the final return is then one element before it.\<close>

definition create_filter ::
  "err_texts \<Rightarrow> 'w kernel \<Rightarrow> char \<Rightarrow> int \<Rightarrow> ('w process, sock_fprog) program" where
  "create_filter et K instr icnt = (case bench_instruction instr of
       None \<Rightarrow> andThen (eprintf ''Bad instruction value: %c\<newline>'' [FChar instr])
                 (\<lambda>_. exit_process EXIT_FAILURE)
     | Some instruction \<Rightarrow>
         if icnt = INT_MAX then halts Undefined
         else (let fsize = icnt + 1 in
           andThen (query (\<lambda>s. 0 \<le> fsize \<and> lib_alloc_ok K (world s) (nat fsize * 8))) (\<lambda>ok1.
           if \<not> ok1 then errExit_macro et ''calloc''
           else if icnt < 0 then halts Undefined
           else andThen (query (\<lambda>s. lib_alloc_ok K (world s) 16)) (\<lambda>ok2.
           if \<not> ok2 then errExit_macro et ''malloc''
           else andThen (printf ''Total instructions in filter (including \"return\"): %d\<newline>'' [FInt fsize])
                  (\<lambda>_. ret (mk_fprog (nat fsize) (bench_filter instruction (nat icnt))))))))"

definition main_bench :: "err_texts \<Rightarrow> 'w kernel \<Rightarrow> string list \<Rightarrow> ('w process, unit) program" where
  "main_bench et K argv = seqs [
     if length argv < 2
       then seqs [eprintf ''Usage: %s <num-loops> [<instr-cnt> [<add|jump|load> [num-filters]]]\<newline>'' [FStr (argv ! 0)],
                  exit_process EXIT_FAILURE]
       else ret (),
     if 2 < length argv
       then (let icnt = atoi (argv ! 2);
                 instr = (if 3 < length argv then cchar_at (argv ! 3) 0 else CHR ''a'');
                 nfilters = (if 4 < length argv then atoi (argv ! 4) else 1)
             in seqs [
               prctl_or_die (errExit_macro et ''prctl'') K,
               andThen (create_filter et K instr icnt) (\<lambda>prog.
                 forEach [0..<nat nfilters] (\<lambda>j. seccomp_or_die (errExit_macro et ''seccomp'') K prog)),
               printf ''Total number of filters added: %d\<newline>'' [FInt nfilters]])
       else ret (),
     getppid_loop K (atoi (argv ! 1)),
     exit_process EXIT_SUCCESS]"

section \<open>\<open>seccomp_launch.c\<close>\<close>

text \<open>A \<open>struct sock_filter\<close> in a file: eight bytes, little-endian.\<close>

definition byte :: "char \<Rightarrow> 32 word" where
  "byte c = of_nat (of_char c)"

fun insns_of_bytes :: "string \<Rightarrow> sock_filter list" where
  "insns_of_bytes (c0 # c1 # t # f # k0 # k1 # k2 # k3 # bs) =
     \<lparr>code = of_nat (of_char c0) OR push_bit 8 (of_nat (of_char c1)),
      jt = of_nat (of_char t), jf = of_nat (of_char f),
      k = byte k0 OR push_bit 8 (byte k1) OR push_bit 16 (byte k2) OR push_bit 24 (byte k3)\<rparr>
     # insns_of_bytes bs"
| "insns_of_bytes bs = []"

text \<open>\<open>noNewPrivsAlreadySet\<close>, a static variable, is passed in and out. The size of the file is
  truncated to \<open>int\<close>.\<close>

definition loadFilter ::
  "err_texts \<Rightarrow> 'w kernel \<Rightarrow> string \<Rightarrow> bool \<Rightarrow> ('w process, bool) program" where
  "loadFilter et K filterPathname noNewPrivsAlreadySet =
     andThen (if \<not> noNewPrivsAlreadySet then prctl_or_die (errExit_macro et ''prctl'') K else ret ()) (\<lambda>_.
     andThen (or_die (syscall (sys_open K filterPathname 0)) (errExit_macro et ''open'')) (\<lambda>fd.
     andThen (or_die (syscall (sys_fstat_size K fd)) (errExit_macro et ''fstat'')) (\<lambda>st_size.
     let filterSize = sint (word_of_int st_size :: 32 word) in
     if filterSize mod 8 \<noteq> 0
     then andThen (eprintf ''Filter has odd size\<newline>'' []) (\<lambda>_. exit_process EXIT_FAILURE)
     else
     andThen (query (\<lambda>s. 0 \<le> filterSize \<and> lib_alloc_ok K (world s) (nat filterSize))) (\<lambda>ok.
     if \<not> ok then errExit_macro et ''malloc''
     else
     andThen (syscall (sys_read K fd (nat filterSize))) (\<lambda>r.
     if map_option (int o length) r \<noteq> Some filterSize
     then andThen (eprintf ''Failure reading filter\<newline>'' []) (\<lambda>_. exit_process EXIT_FAILURE)
     else
     andThen (or_die (syscall (sys_close K fd)) (errExit_macro et ''close'')) (\<lambda>_.
     andThen (seccomp_or_die (errExit_macro et ''seccomp'') K
                (mk_fprog (nat filterSize div 8) (insns_of_bytes (the r)))) (\<lambda>_.
     ret True)))))))"

definition usageError_launch :: "string \<Rightarrow> string \<Rightarrow> ('w process, 'a) program" where
  "usageError_launch pname msg =
     andThen (eprintf ''%s'' [FStr msg]) (\<lambda>_.
     andThen (eprintf ''Usage: %s [-f filter] prog arg...\<newline>'' [FStr pname]) (\<lambda>_.
     exit_process EXIT_FAILURE))"

text \<open>The loop over the options \<open>getopt\<close> delivers.\<close>

fun launch_options ::
  "err_texts \<Rightarrow> 'w kernel \<Rightarrow> string \<Rightarrow> (char \<times> string) list \<Rightarrow> bool \<Rightarrow> ('w process, unit) program" where
  "launch_options et K pname [] st = ret ()"
| "launch_options et K pname ((opt, optarg) # os) st =
     (if opt = CHR ''f''
      then andThen (loadFilter et K optarg st) (\<lambda>st'. launch_options et K pname os st')
      else andThen (usageError_launch pname ''Bad option\<newline>'' :: ('w process, unit) program) (\<lambda>_. launch_options et K pname os st))"

text \<open>\<open>getopt\<close> moves the operands behind the options, so the word it leaves in \<open>argv[1]\<close> is the first
  operand only if there was no option.\<close>

definition first_permuted :: "string list \<Rightarrow> string list \<Rightarrow> string" where
  "first_permuted words rest =
     (if length rest = length words then rest ! 0
      else hd (filter (\<lambda>a. cchar_at a 0 = CHR ''-'' \<and> a \<noteq> ''-'') words))"

definition main_launch :: "err_texts \<Rightarrow> 'w kernel \<Rightarrow> string list \<Rightarrow> ('w process, unit) program" where
  "main_launch et K argv =
     (let (opts, rest) = getopt ''f:'' (drop 1 argv) in
      seqs [
        launch_options et K (argv ! 0) opts False,
        if rest = [] \<or> first_permuted (drop 1 argv) rest = ''--help''
          then usageError_launch (argv ! 0) ''No program specified\<newline>'' else ret (),
        exec_call (sys_execvp K) (rest ! 0) rest,
        errExit_macro et ''execve''])"

section \<open>Lemmas\<close>

lemma fprog_insns_mk: "fprog_insns (mk_fprog n flt) = take (n mod 65536) flt"
  by (simp add: fprog_insns_def mk_fprog_def unsigned_of_nat take_bit_eq_mod)

lemma fprog_insns_short: "length flt < 65536 \<Longrightarrow> fprog_insns (mk_fprog (length flt) flt) = flt"
  by (simp add: fprog_insns_mk)

lemma install_with_short:
  "length flt < 65536 \<Longrightarrow>
     install_with die K flt = or_die (syscall (sys_seccomp_set_filter K flt)) die"
  by (simp add: install_with_def seccomp_or_die_def fprog_insns_short)

lemma valid_short: "bpf_valid flt \<Longrightarrow> length flt < 65536"
  by (simp add: bpf_valid_def BPF_MAXINSNS_def)

lemmas install_valid = install_with_short[OF valid_short]

subsection \<open>A kernel that enforces filters\<close>

text \<open>What a program can observe of the kernel: the filters in force for the process, whether
  \<open>no_new_privs\<close> is set, whether it has \<open>CAP_SYS_ADMIN\<close>, the file and the offset behind each open
  descriptor, and the bytes of the files.\<close>

record 'w sandbox_view =
  in_force :: "'w \<Rightarrow> sock_filter list list"
  no_new_privs :: "'w \<Rightarrow> bool"
  sys_admin :: "'w \<Rightarrow> bool"
  opened :: "'w \<Rightarrow> int \<Rightarrow> (string \<times> nat) option"
  contents :: "'w \<Rightarrow> string \<Rightarrow> string option"

text \<open>\<open>seccomp(2)\<close>, in any state: a filter comes into force through a successful call only, the call
  succeeds only with \<open>no_new_privs\<close> or with \<open>CAP_SYS_ADMIN\<close>, a successful \<open>prctl\<close> sets
  \<open>no_new_privs\<close>, and \<open>execve\<close> keeps both.\<close>

definition filters_tracked :: "'w kernel \<Rightarrow> 'w sandbox_view \<Rightarrow> bool" where
  "filters_tracked K V \<longleftrightarrow> (\<forall>w.
     (\<forall>r w'. sys_prctl_no_new_privs K w = (r, w') \<longrightarrow>
        in_force V w' = in_force V w \<and> (r = Inr () \<longrightarrow> no_new_privs V w'))
   \<and> (\<forall>p w'. sys_seccomp_set_filter K p w = (Inr (), w') \<longrightarrow>
        (no_new_privs V w \<or> sys_admin V w) \<and> no_new_privs V w' = no_new_privs V w
        \<and> in_force V w' = p # in_force V w)
   \<and> (\<forall>f as r w'. sys_execvp K f as w = (r, w') \<longrightarrow>
        in_force V w' = in_force V w \<and> no_new_privs V w' = no_new_privs V w))"

text \<open>A process without filters: \<open>prctl\<close> with these arguments succeeds, and a well-formed filter is
  accepted from a process that is entitled to install one.\<close>

definition calm :: "'w sandbox_view \<Rightarrow> 'w \<Rightarrow> 'w \<Rightarrow> bool" where
  "calm V w w' \<longleftrightarrow> in_force V w' = in_force V w \<and> no_new_privs V w' = no_new_privs V w
     \<and> contents V w' = contents V w"

definition grants_filters :: "'w kernel \<Rightarrow> 'w sandbox_view \<Rightarrow> bool" where
  "grants_filters K V \<longleftrightarrow> (\<forall>w. in_force V w = [] \<longrightarrow>
     (\<exists>w'. sys_prctl_no_new_privs K w = (Inr (), w') \<and> no_new_privs V w' \<and> in_force V w' = []
        \<and> opened V w' = opened V w \<and> contents V w' = contents V w)
   \<and> (\<forall>p. bpf_valid p \<and> (no_new_privs V w \<or> sys_admin V w) \<longrightarrow>
        (\<exists>w'. sys_seccomp_set_filter K p w = (Inr (), w') \<and> in_force V w' = [p]
           \<and> no_new_privs V w' = no_new_privs V w \<and> opened V w' = opened V w)))"

text \<open>\<open>lseek(2)\<close> under a single filter, on the architecture of the program. A decision the filter
  takes wherever the call comes from is carried out: with \<open>SECCOMP_RET_ERRNO\<close> and a number up to 4095
  the call fails with that number; an allowed seek to the start of the device \<open>/dev/zero\<close> succeeds.
  \<open>open\<close> may fail.\<close>

definition lseek_call :: "64 word \<Rightarrow> int \<Rightarrow> int \<Rightarrow> seccomp_data" where
  "lseek_call ip fd off = \<lparr>nr = NR_lseek, arch = AUDIT_ARCH_X86_64, instruction_pointer = ip,
     args = (\<lambda>i. if i = 0 then word_of_int fd else if i = 1 then word_of_int off else 0)\<rparr>"

definition decides_lseek :: "sock_filter list \<Rightarrow> int \<Rightarrow> int \<Rightarrow> 32 word \<Rightarrow> bool" where
  "decides_lseek p fd off d \<longleftrightarrow> (\<forall>ip. bpf_filter p (lseek_call ip fd off) = Some d)"

definition refuses_with :: "32 word \<Rightarrow> int \<Rightarrow> bool" where
  "refuses_with d n \<longleftrightarrow> d AND 0xffff0000 = SECCOMP_RET_ERRNO \<and> uint (d AND 0xffff) = n \<and> 0 < n \<and> n \<le> 4095"

definition seeks_filtered :: "'w kernel \<Rightarrow> 'w sandbox_view \<Rightarrow> bool" where
  "seeks_filtered K V \<longleftrightarrow> (\<forall>w p. in_force V w = [p] \<longrightarrow>
     (\<forall>fl r w'. sys_open K ''/dev/zero'' fl w = (r, w') \<longrightarrow> in_force V w' = [p]
        \<and> no_new_privs V w' = no_new_privs V w
        \<and> (\<forall>fd. r = Inr fd \<longrightarrow> opened V w' fd = Some (''/dev/zero'', 0)))
   \<and> (\<forall>fd off r w'. sys_lseek K fd off w = (r, w') \<longrightarrow> in_force V w' = [p]
        \<and> no_new_privs V w' = no_new_privs V w
        \<and> (decides_lseek p fd off SECCOMP_RET_ALLOW \<and> off = 0
             \<and> map_option fst (opened V w fd) = Some ''/dev/zero'' \<longrightarrow> r = Inr 0)
        \<and> (\<forall>d n. decides_lseek p fd off d \<and> refuses_with d n \<longrightarrow> (\<exists>e. r = Inl e \<and> errnum e = n))))"

lemma open_under_filter:
  assumes "seeks_filtered K V" and "in_force V w = [p]" and "sys_open K ''/dev/zero'' fl w = (r, w')"
  shows "in_force V w' = [p]" and "no_new_privs V w' = no_new_privs V w"
    and "r = Inr fd \<Longrightarrow> opened V w' fd = Some (''/dev/zero'', 0)"
  using conjunct1[OF assms(1)[unfolded seeks_filtered_def, rule_format, OF assms(2)], rule_format, OF assms(3)]
  by simp_all

lemma lseek_under_filter:
  assumes "seeks_filtered K V" and "in_force V w = [p]" and "sys_lseek K fd off w = (r, w')"
  shows "in_force V w' = [p]" and "no_new_privs V w' = no_new_privs V w"
    and "\<lbrakk>decides_lseek p fd off SECCOMP_RET_ALLOW; off = 0; opened V w fd = Some (''/dev/zero'', pos)\<rbrakk> \<Longrightarrow> r = Inr 0"
    and "\<lbrakk>decides_lseek p fd off d; refuses_with d n\<rbrakk> \<Longrightarrow> \<exists>e. r = Inl e \<and> errnum e = n"
  using conjunct2[OF assms(1)[unfolded seeks_filtered_def, rule_format, OF assms(2)], rule_format, OF assms(3)]
  by simp_all

lemma prctl_granted:
  assumes "grants_filters K V" and "in_force V w = []"
  obtains w' where "sys_prctl_no_new_privs K w = (Inr (), w')" and "no_new_privs V w'" and "in_force V w' = []"
    and "opened V w' = opened V w" and "contents V w' = contents V w"
  using assms unfolding grants_filters_def by blast

lemma filter_granted:
  assumes "grants_filters K V" and "in_force V w = []" and "no_new_privs V w" and "bpf_valid p"
  obtains w' where "sys_seccomp_set_filter K p w = (Inr (), w')" and "in_force V w' = [p]"
    and "no_new_privs V w'" and "opened V w' = opened V w"
  using assms unfolding grants_filters_def by blast

lemma arg64_seek_decisions:
  "decides_lseek arg64_filter fd 0 SECCOMP_RET_ALLOW"
  "decides_lseek arg64_filter fd 10000 (SECCOMP_RET_ERRNO OR 1)"
  "decides_lseek arg64_filter fd 0x100000001 (SECCOMP_RET_ERRNO OR 2)"
  by (simp_all add: decides_lseek_def arg64_run x86_preamble_def lseek_call_def hi32_def lo32_def)

lemma arg64_seek_refusals:
  "refuses_with (SECCOMP_RET_ERRNO OR 1) 1" "refuses_with (SECCOMP_RET_ERRNO OR 2) 2"
  by (simp_all add: refuses_with_def)

lemma seek_test_allowed:
  assumes K: "seeks_filtered K V" and f: "in_force V (world s) = [p]"
    and "decides_lseek p fd 0 SECCOMP_RET_ALLOW" and "opened V (world s) fd = Some (''/dev/zero'', 0)"
  obtains s' where "seek_test K fd 0 s = (Inr (), s')" and "in_force V (world s') = [p]"
    and "no_new_privs V (world s') = no_new_privs V (world s)" and "written s' = written s"
    and "pending s' = pending s @ [(''Seek to byte %lld: '', [FInt 0]), (''succeeded\<newline>'', [])]"
proof -
  obtain r w where l: "sys_lseek K fd 0 (world s) = (r, w)" by fastforce
  note law = lseek_under_filter[OF K f l]
  from law(3)[OF assms(3) refl assms(4)] law(1,2) that l show thesis by (simp add: seek_test_def andThen_run)
qed

lemma seek_test_refused:
  assumes K: "seeks_filtered K V" and f: "in_force V (world s) = [p]"
    and "decides_lseek p fd off d" and "refuses_with d n"
  obtains s' where "seek_test K fd off s = (Inr (), s')" and "in_force V (world s') = [p]"
    and "no_new_privs V (world s') = no_new_privs V (world s)" and "written s' = written s"
    and "pending s' = pending s @ [(''Seek to byte %lld: '', [FInt off]),
           (''failed with errno = %d\<newline>'', [FInt n])]"
proof -
  obtain r w where l: "sys_lseek K fd off (world s) = (r, w)" by fastforce
  note law = lseek_under_filter[OF K f l]
  from law(4)[OF assms(3,4)] obtain e where "r = Inl e" "errnum e = n" by blast
  with law(1,2) that l show thesis by (simp add: seek_test_def andThen_run)
qed

subsection \<open>Filter files\<close>

definition bytes_of_insn :: "sock_filter \<Rightarrow> string" where
  "bytes_of_insn i = [
     char_of (unat (code i AND 0xff)), char_of (unat (drop_bit 8 (code i))),
     char_of (unat (jt i)), char_of (unat (jf i)),
     char_of (unat (k i AND 0xff)), char_of (unat (drop_bit 8 (k i) AND 0xff)),
     char_of (unat (drop_bit 16 (k i) AND 0xff)), char_of (unat (drop_bit 24 (k i)))]"

lemma char_byte:
  "(of_nat (of_char (char_of (unat (x :: 'a::len word)))) :: 'b::len word) = ucast (take_bit 8 x)"
proof -
  have "take_bit 8 (unat x) = unat x mod 256" by (simp add: take_bit_eq_mod)
  moreover have "unat (take_bit 8 x) = take_bit 8 (unat x)" by (rule unsigned_take_bit_eq)
  ultimately have "of_nat (of_char (char_of (unat x))) = (of_nat (unat (take_bit 8 x)) :: 'b word)"
    by simp
  then show ?thesis by simp
qed

lemma mask8: "(0xff :: 'a::len word) = mask 8"
  by (simp add: mask_eq_exp_minus_1)

lemma bytes8: "of_nat (of_char (char_of (unat c))) = (c :: 8 word)"
  unfolding char_byte by (rule bit_word_eqI) (simp add: bit_simps)

lemma bytes16:
  "of_nat (of_char (char_of (unat (c AND 0xff)))) OR push_bit 8 (of_nat (of_char (char_of (unat (drop_bit 8 c)))))
     = (c :: 16 word)" (is "?l = c")
proof (rule bit_word_eqI)
  fix n assume "n < LENGTH(16)"
  then consider "n < 8" | "8 \<le> n" "n < 16" by fastforce
  then show "bit ?l n = bit c n"
    unfolding char_byte mask8 by cases (auto simp: bit_simps)
qed

lemma bytes32:
  "of_nat (of_char (char_of (unat (c AND 0xff))))
     OR push_bit 8 (of_nat (of_char (char_of (unat (drop_bit 8 c AND 0xff)))))
     OR push_bit 16 (of_nat (of_char (char_of (unat (drop_bit 16 c AND 0xff)))))
     OR push_bit 24 (of_nat (of_char (char_of (unat (drop_bit 24 c))))) = (c :: 32 word)" (is "?l = c")
proof (rule bit_word_eqI)
  fix n assume "n < LENGTH(32)"
  then consider "n < 8" | "8 \<le> n" "n < 16" | "16 \<le> n" "n < 24" | "24 \<le> n" "n < 32" by fastforce
  then show "bit ?l n = bit c n"
    unfolding char_byte mask8 by cases (auto simp: bit_simps)
qed

lemma insns_bytes_roundtrip: "insns_of_bytes (concat (map bytes_of_insn p)) = p"
proof (induction p)
  case (Cons i p)
  then show ?case
    by (simp only: list.map concat.simps bytes_of_insn_def append.simps insns_of_bytes.simps byte_def
        bytes8 bytes16 bytes32) simp
qed simp

lemma bytes_length [simp]: "length (concat (map bytes_of_insn p)) = 8 * length p"
  by (induction p) (simp_all add: bytes_of_insn_def)

subsection \<open>Contracts for files\<close>

text \<open>Files, for a process without filters: each descriptor stands for the file it was opened on, at an
  offset; \<open>fstat\<close> tells the size of that file and \<open>read\<close> delivers its bytes from the offset on, all
  that were asked for (up to the limit of one call) unless the file ends.\<close>

definition serves_files :: "'w kernel \<Rightarrow> 'w sandbox_view \<Rightarrow> bool" where
  "serves_files K V \<longleftrightarrow> (\<forall>w. in_force V w = [] \<longrightarrow>
     (\<forall>path fd w'. sys_open K path 0 w = (Inr fd, w') \<longrightarrow> calm V w w'
        \<and> opened V w fd = None \<and> opened V w' = (opened V w)(fd \<mapsto> (path, 0)))
   \<and> (\<forall>fd path off c. opened V w fd = Some (path, off) \<and> contents V w path = Some c \<longrightarrow>
        (\<exists>w'. sys_fstat_size K fd w = (Inr (int (length c)), w') \<and> calm V w w' \<and> opened V w' = opened V w)
      \<and> (\<forall>n \<le> 0x7ffff000. \<exists>w'. sys_read K fd n w = (Inr (take n (drop off c)), w') \<and> calm V w w'
           \<and> opened V w' = (opened V w)(fd \<mapsto> (path, off + min n (length c - off))))
      \<and> (\<exists>w'. sys_close K fd w = (Inr (), w') \<and> calm V w w' \<and> opened V w' = (opened V w)(fd := None))))"

text \<open>The file can be opened for reading by a process without filters and with these descriptors.\<close>

definition can_open :: "'w kernel \<Rightarrow> 'w sandbox_view \<Rightarrow> (int \<Rightarrow> (string \<times> nat) option) \<Rightarrow> string \<Rightarrow> bool" where
  "can_open K V fds path \<longleftrightarrow> (\<forall>w. in_force V w = [] \<and> opened V w = fds \<longrightarrow>
     (\<exists>fd w'. sys_open K path 0 w = (Inr fd, w')))"

text \<open>A concrete kernel: the filters in force, \<open>no_new_privs\<close>, and one free descriptor, 3; every file has
  the same contents, the process has no privileges, and \<open>lseek\<close> obeys the filter.\<close>

record sandbox =
  sb_filters :: "sock_filter list list"
  sb_nnp :: bool
  sb_fds :: "int \<Rightarrow> (string \<times> nat) option"

definition demo_kernel :: "string \<Rightarrow> sandbox kernel" where
  "demo_kernel c = \<lparr>
     sys_prctl_no_new_privs = (\<lambda>w. (Inr (), w\<lparr>sb_nnp := True\<rparr>)),
     sys_seccomp_set_filter = (\<lambda>p w.
        if \<not> sb_nnp w then (Inl EACCES, w)
        else if bpf_valid p then (Inr (), w\<lparr>sb_filters := p # sb_filters w\<rparr>) else (Inl EINVAL, w)),
     sys_open = (\<lambda>f fl w. if sb_fds w 3 = None then (Inr 3, w\<lparr>sb_fds := (sb_fds w)(3 \<mapsto> (f, 0))\<rparr>)
                           else (Inl (EOTHER 24), w)),
     sys_lseek = (\<lambda>fd off w. case sb_filters w of
         [p] \<Rightarrow> (case bpf_filter p (lseek_call 0 fd off) of
             Some d \<Rightarrow> (if d = SECCOMP_RET_ALLOW then (Inr off, w) else (Inl (EOTHER (unat (d AND 0xffff))), w))
           | None \<Rightarrow> (Inl EINVAL, w))
       | _ \<Rightarrow> (Inr off, w)),
     sys_getppid = (\<lambda>w. (Inr 1, w)), sys_geteuid = (\<lambda>w. (Inr 0, w)), sys_getpid = (\<lambda>w. 7),
     sys_execvp = (\<lambda>f as w. (Inr (), w)), sys_execv = (\<lambda>f as w. (Inr (), w)),
     sys_mq_notify = (\<lambda>q w. (Inl EBADF, w)), lib_system = (\<lambda>c w. (Inr 0, w)),
     sys_fstat_size = (\<lambda>fd w. (Inr (int (length c)), w)),
     sys_read = (\<lambda>fd n w. case sb_fds w fd of None \<Rightarrow> (Inl EBADF, w)
        | Some (f, off) \<Rightarrow> (Inr (take n (drop off c)),
             w\<lparr>sb_fds := (sb_fds w)(fd \<mapsto> (f, off + min n (length c - off)))\<rparr>)),
     sys_close = (\<lambda>fd w. (Inr (), w\<lparr>sb_fds := (sb_fds w)(fd := None)\<rparr>)), lib_alloc_ok = (\<lambda>w n. True)\<rparr>"

definition demo_view :: "string \<Rightarrow> sandbox sandbox_view" where
  "demo_view c = \<lparr>in_force = sb_filters, no_new_privs = sb_nnp, sys_admin = (\<lambda>w. False),
     opened = sb_fds, contents = (\<lambda>w f. Some c)\<rparr>"

definition fresh_process :: "sandbox process" where
  "fresh_process = \<lparr>environment = [], p_errno = E_OK, pending = [], written = [],
     world = \<lparr>sb_filters = [], sb_nnp = False, sb_fds = (\<lambda>fd. None)\<rparr>\<rparr>"

lemma demo_tracks: "filters_tracked (demo_kernel c) (demo_view c)"
  by (auto simp: filters_tracked_def demo_kernel_def demo_view_def split: if_splits)

lemma demo_grants: "grants_filters (demo_kernel c) (demo_view c)"
  by (auto simp: grants_filters_def demo_kernel_def demo_view_def)

lemma demo_seeks: "seeks_filtered (demo_kernel c) (demo_view c)"
  by (auto simp: seeks_filtered_def demo_kernel_def demo_view_def decides_lseek_def refuses_with_def
      split: if_splits option.splits)

lemma demo_serves: "serves_files (demo_kernel c) (demo_view c)"
  by (auto simp: serves_files_def demo_kernel_def demo_view_def calm_def split: if_splits)

lemma demo_opens: "can_open (demo_kernel c) (demo_view c) (\<lambda>fd. None) path"
  by (auto simp: can_open_def demo_kernel_def demo_view_def)

lemma demo_calls:
  "sys_prctl_no_new_privs (demo_kernel c) w = (Inr (), w\<lparr>sb_nnp := True\<rparr>)"
  "\<lbrakk>sb_nnp w; bpf_valid p\<rbrakk> \<Longrightarrow>
     sys_seccomp_set_filter (demo_kernel c) p w = (Inr (), w\<lparr>sb_filters := p # sb_filters w\<rparr>)"
  "sb_fds w 3 = None \<Longrightarrow>
     sys_open (demo_kernel c) f fl w = (Inr 3, w\<lparr>sb_fds := (sb_fds w)(3 \<mapsto> (f, 0))\<rparr>)"
  by (simp_all add: demo_kernel_def)

lemmas fresh_simps = fresh_process_def demo_view_def

section \<open>Properties\<close>

text \<open>C38: End to end, \<open>seccomp_arg64.c\<close>, started without filters on a kernel that installs filters for
  those with \<open>no_new_privs\<close> only and enforces them: either the kernel refuses to open \<open>/dev/zero\<close> under
  the filter, and the program ends as \<open>errExit\<close> does, or it ends with \<open>EXIT_SUCCESS\<close> and reports that
  the seek to 0 succeeded, the one to 10000 failed with error 1 and the one to \<open>0x100000001\<close>, whose low
  half is 1, with error 2, in the end with \<open>no_new_privs\<close> set and the filter in force.\<close>
theorem main_arg64_reports:
  assumes "grants_filters K V" and "seeks_filtered K V" and "in_force V (world s) = []"
  shows "(\<exists>w e w'. in_force V w = [arg64_filter] \<and> sys_open K ''/dev/zero'' O_RDWR w = (Inl e, w')
      \<and> main_arg64 et K s = errExit et ''open'' [] (s\<lparr>world := w', p_errno := e\<rparr>))
    \<or> (\<exists>s'. main_arg64 et K s = (Inl (Exit EXIT_SUCCESS), s')
      \<and> in_force V (world s') = [arg64_filter] \<and> no_new_privs V (world s')
      \<and> written s' = written s @ map (Pair 1) (pending s @
        [(''Seek to byte %lld: '', [FInt 0]), (''succeeded\<newline>'', []),
         (''Seek to byte %lld: '', [FInt 10000]), (''failed with errno = %d\<newline>'', [FInt 1]),
         (''Seek to byte %lld: '', [FInt 0x100000001]), (''failed with errno = %d\<newline>'', [FInt 2])]))"
    (is "?refused \<or> ?reports")
proof -
  obtain w1 where 1: "sys_prctl_no_new_privs K (world s) = (Inr (), w1)" "no_new_privs V w1" "in_force V w1 = []"
    by (rule prctl_granted[OF assms(1,3)])
  obtain w2 where 2: "sys_seccomp_set_filter K arg64_filter w1 = (Inr (), w2)" "in_force V w2 = [arg64_filter]"
    "no_new_privs V w2" by (rule filter_granted[OF assms(1) 1(3,2) valid_x86_filters(1)])
  obtain r w3 where 3: "sys_open K ''/dev/zero'' O_RDWR w2 = (r, w3)" by fastforce
  note run = main_arg64_def prctl_or_die_def install_arg64_def install_valid[OF valid_x86_filters(1)]
  show ?thesis
  proof (cases r)
    case (Inl e)
    with 1 2 3 have "main_arg64 et K s = errExit et ''open'' [] (s\<lparr>world := w3, p_errno := e\<rparr>)"
      by (simp add: run errExit_run)
    with 2 3 Inl show ?thesis by blast
  next
    case (Inr fd)
    let ?s3 = "s\<lparr>world := w3\<rparr>"
    have f3: "in_force V (world ?s3) = [arg64_filter]" "no_new_privs V (world ?s3)"
      and o3: "opened V (world ?s3) fd = Some (''/dev/zero'', 0)"
      using open_under_filter[OF assms(2) 2(2) 3] 2(3) Inr by simp_all
    obtain s4 where 4: "seek_test K fd 0 ?s3 = (Inr (), s4)" "in_force V (world s4) = [arg64_filter]"
        "no_new_privs V (world s4) = no_new_privs V (world ?s3)"
      and out4: "written s4 = written ?s3"
        "pending s4 = pending ?s3 @ [(''Seek to byte %lld: '', [FInt 0]), (''succeeded\<newline>'', [])]"
      by (rule seek_test_allowed[OF assms(2) f3(1) arg64_seek_decisions(1) o3])
    obtain s5 where 5: "seek_test K fd 10000 s4 = (Inr (), s5)" "in_force V (world s5) = [arg64_filter]"
        "no_new_privs V (world s5) = no_new_privs V (world s4)"
      and out5: "written s5 = written s4" "pending s5 = pending s4 @ [(''Seek to byte %lld: '', [FInt 10000]),
         (''failed with errno = %d\<newline>'', [FInt 1])]"
      by (rule seek_test_refused[OF assms(2) 4(2) arg64_seek_decisions(2) arg64_seek_refusals(1)])
    obtain s6 where 6: "seek_test K fd 0x100000001 s5 = (Inr (), s6)" "in_force V (world s6) = [arg64_filter]"
        "no_new_privs V (world s6) = no_new_privs V (world s5)"
      and out6: "written s6 = written s5" "pending s6 = pending s5 @ [(''Seek to byte %lld: '', [FInt 0x100000001]),
         (''failed with errno = %d\<newline>'', [FInt 2])]"
      by (rule seek_test_refused[OF assms(2) 5(2) arg64_seek_decisions(3) arg64_seek_refusals(2)])
    have "main_arg64 et K s = (Inl (Exit EXIT_SUCCESS), flushed s6)"
      using 1 2 3 4 5 6 Inr by (simp add: run)
    then have ?reports using out4 out5 out6 4 5 6 f3 by simp
    then show ?thesis ..
  qed
qed

theorem main_arg64_reports_witness:
  "\<exists>s'. main_arg64 \<lparr>ename = [], strerror = (\<lambda>_. [])\<rparr> (demo_kernel []) fresh_process = (Inl (Exit EXIT_SUCCESS), s')
    \<and> sb_filters (world s') = [arg64_filter] \<and> sb_nnp (world s')
    \<and> written s' = map (Pair 1)
        [(''Seek to byte %lld: '', [FInt 0]), (''succeeded\<newline>'', []),
         (''Seek to byte %lld: '', [FInt 10000]), (''failed with errno = %d\<newline>'', [FInt 1]),
         (''Seek to byte %lld: '', [FInt 0x100000001]), (''failed with errno = %d\<newline>'', [FInt 2])]"
proof -
  let ?et = "\<lparr>ename = [], strerror = (\<lambda>_. [])\<rparr>"
  have start: "in_force (demo_view []) (world fresh_process) = []" by (simp add: fresh_simps)
  have seek: "sys_lseek (demo_kernel []) fd off w = (case d of
      Some d' \<Rightarrow> (if d' = SECCOMP_RET_ALLOW then (Inr off, w) else (Inl (EOTHER (unat (d' AND 0xffff))), w))
    | None \<Rightarrow> (Inl EINVAL, w))"
    if "sb_filters w = [arg64_filter]" "bpf_filter arg64_filter (lseek_call 0 fd off) = d" for w fd off d
    using that by (simp add: demo_kernel_def)
  have "\<exists>s'. main_arg64 ?et (demo_kernel []) fresh_process = (Inl (Exit EXIT_SUCCESS), s')"
    by (simp add: main_arg64_def prctl_or_die_def install_arg64_def install_valid[OF valid_x86_filters(1)]
        valid_x86_filters demo_calls fresh_process_def seek_test_def andThen_run
        seek[OF _ arg64_seek_decisions(1)[unfolded decides_lseek_def, rule_format]]
        seek[OF _ arg64_seek_decisions(2)[unfolded decides_lseek_def, rule_format]]
        seek[OF _ arg64_seek_decisions(3)[unfolded decides_lseek_def, rule_format]])
  with main_arg64_reports[OF demo_grants demo_seeks start, of ?et]
  show ?thesis by (auto simp: fresh_simps errExit_run ending_def)
qed

text \<open>C20: \<open>seccomp_deny_syscall.c\<close>: whenever the program replaces itself by the command, it is the
  command of its arguments, and the command runs with \<open>no_new_privs\<close> set and with one more filter in
  force than the program was started with, a filter that kills on the system call of the first argument
  and allows every other one.\<close>
theorem deny_syscall_sandboxed:
  assumes "filters_tracked K V"
    and "main_deny_syscall et K argv s = (Inl (Execed f as), s')"
  shows "2 < length argv \<and> f = argv ! 2 \<and> as = drop 2 argv \<and> no_new_privs V (world s')
    \<and> (\<exists>p. in_force V (world s') = p # in_force V (world s)
        \<and> (\<forall>sd. bpf_filter p sd = Some (if nr sd = word_of_int (atoi (argv ! 1))
             then SECCOMP_RET_KILL_PROCESS else SECCOMP_RET_ALLOW)))"
proof -
  let ?n = "word_of_int (atoi (argv ! 1)) :: 32 word"
  define s0 where "s0 = snd ((if length argv < 3
       then eprintf ''Usage: %s <syscall-num> <command> <arg>...\<newline>'' [FStr (argv ! 0)] else ret ()) s)"
  have w0: "world s0 = world s" by (simp add: s0_def)
  have valid: "bpf_valid (deny_syscall_filter ?n)" by (rule valid_x86_filters)
  have "seqs [prctl_or_die (errExit et ''prctl'' []) K,
     if 1 < length argv then install_deny_syscall et K (atoi (argv ! 1)) else halts Undefined,
     if 2 < length argv then exec_call (sys_execvp K) (argv ! 2) (drop 2 argv) else halts Undefined,
     errExit et ''execve'' [], exit_process EXIT_SUCCESS] s0 = (Inl (Execed f as), s')"
    using assms(2) by (auto simp: main_deny_syscall_def s0_def split: if_splits)
  then obtain w1 where 1: "sys_prctl_no_new_privs K (world s0) = (Inr (), w1)"
    and r1: "seqs [if 1 < length argv then install_deny_syscall et K (atoi (argv ! 1)) else halts Undefined,
     if 2 < length argv then exec_call (sys_execvp K) (argv ! 2) (drop 2 argv) else halts Undefined,
     errExit et ''execve'' [], exit_process EXIT_SUCCESS] (s0\<lparr>world := w1\<rparr>) = (Inl (Execed f as), s')"
    unfolding prctl_or_die_def by (elim seqs_or_die_not_Execed) simp
  from r1 have argc1: "1 < length argv" by (auto split: if_splits)
  from r1 obtain w2 where 2: "sys_seccomp_set_filter K (deny_syscall_filter ?n) w1 = (Inr (), w2)"
    and r2: "seqs [if 2 < length argv then exec_call (sys_execvp K) (argv ! 2) (drop 2 argv) else halts Undefined,
     errExit et ''execve'' [], exit_process EXIT_SUCCESS] (s0\<lparr>world := w2\<rparr>) = (Inl (Execed f as), s')"
    unfolding if_P[OF argc1] install_deny_syscall_def install_valid[OF valid]
    by (elim seqs_or_die_not_Execed) simp
  from r2 have argc: "2 < length argv" by (auto split: if_splits)
  obtain r w3 where ex: "sys_execvp K (argv ! 2) (drop 2 argv) w2 = (r, w3)" by fastforce
  with r2 argc have "f = argv ! 2 \<and> as = drop 2 argv \<and> world s' = w3"
    by (cases r) (auto simp: exec_call_def andThen_run errExit_run)
  moreover have "in_force V w3 = deny_syscall_filter ?n # in_force V (world s)" "no_new_privs V w3"
    using assms(1) 1 2 ex w0 unfolding filters_tracked_def by metis+
  moreover have "bpf_filter (deny_syscall_filter ?n) sd = Some (if nr sd = ?n
      then SECCOMP_RET_KILL_PROCESS else SECCOMP_RET_ALLOW)" for sd
    by (simp add: deny_syscall_filter_def filter_run)
  ultimately show ?thesis using argc by blast
qed

theorem deny_syscall_sandboxed_witness:
  "\<exists>s' p. main_deny_syscall \<lparr>ename = [], strerror = (\<lambda>_. [])\<rparr> (demo_kernel []) [''p'', ''2'', ''ls'', ''-l'']
      fresh_process = (Inl (Execed ''ls'' [''ls'', ''-l'']), s')
    \<and> sb_nnp (world s') \<and> sb_filters (world s') = [p]
    \<and> (\<forall>sd. nr sd = word_of_int (atoi ''2'') \<longrightarrow> bpf_filter p sd = Some SECCOMP_RET_KILL_PROCESS)"
proof -
  let ?et = "\<lparr>ename = [], strerror = (\<lambda>_. [])\<rparr>"
  let ?argv = "[''p'', ''2'', ''ls'', ''-l'']"
  have "\<exists>s'. main_deny_syscall ?et (demo_kernel []) ?argv fresh_process = (Inl (Execed ''ls'' [''ls'', ''-l'']), s')"
    by (simp add: main_deny_syscall_def demo_kernel_def fresh_process_def prctl_or_die_def install_deny_syscall_def
        install_valid[OF valid_x86_filters(9)] valid_x86_filters exec_call_def)
  then obtain s' where run: "main_deny_syscall ?et (demo_kernel []) ?argv fresh_process
      = (Inl (Execed ''ls'' [''ls'', ''-l'']), s')" ..
  from deny_syscall_sandboxed[OF demo_tracks run] run show ?thesis by (auto simp: fresh_simps)
qed

text \<open>C39: \<open>seccomp_launch.c\<close>: started without filters, \<open>loadFilter\<close> sets \<open>no_new_privs\<close> (unless it did
  before), reads a file that holds the instructions of a filter, which can be opened and for which there
  is memory, and installs them as a filter, instruction by instruction; no descriptor stays open. The
  length field of \<open>struct sock_fprog\<close> has 16 bits: from 65536 instructions on, only the first \<open>n mod 65536\<close>
  of them reach the kernel.\<close>
theorem loadFilter_roundtrip:
  assumes "grants_filters K V" and "serves_files K V" and "can_open K V (opened V (world s)) path"
    and "in_force V (world s) = []" and "set_before \<Longrightarrow> no_new_privs V (world s)"
    and "contents V (world s) path = Some (concat (map bytes_of_insn p))"
    and "8 * length p \<le> 0x7ffff000" and "\<forall>w. lib_alloc_ok K w (8 * length p)"
    and "bpf_valid (take (length p mod 65536) p)"
  shows "\<exists>s'. loadFilter et K path set_before s = (Inr True, s') \<and> no_new_privs V (world s')
    \<and> opened V (world s') = opened V (world s)
    \<and> in_force V (world s') = [take (length p mod 65536) p]
    \<and> (length p < 65536 \<longrightarrow> in_force V (world s') = [p])"
proof -
  let ?c = "concat (map bytes_of_insn p)"
  let ?prctl = "if \<not> set_before then prctl_or_die (errExit_macro et ''prctl'') K else ret ()"
  have fsize: "sint (word_of_int (8 * int (length p)) :: 32 word) = 8 * int (length p)"
    using assms(7) by (intro sint_small) simp_all
  obtain w1 where 1: "?prctl s = (Inr (), s\<lparr>world := w1\<rparr>)" "no_new_privs V w1" "in_force V w1 = []"
    "opened V w1 = opened V (world s)" "contents V w1 path = Some ?c"
  proof (cases set_before)
    case False
    obtain w where "sys_prctl_no_new_privs K (world s) = (Inr (), w)" "no_new_privs V w" "in_force V w = []"
      "opened V w = opened V (world s)" "contents V w = contents V (world s)"
      by (rule prctl_granted[OF assms(1,4)])
    with that[of w] False assms(6) show thesis by (simp add: prctl_or_die_def)
  next
    case True
    with assms that[of "world s"] show thesis by simp
  qed
  obtain fd w2 where 2: "sys_open K path 0 w1 = (Inr fd, w2)" using assms(3) 1 unfolding can_open_def by metis
  with assms(2) 1 have o2: "calm V w1 w2" "opened V w1 fd = None" "opened V w2 = (opened V w1)(fd \<mapsto> (path, 0))"
    unfolding serves_files_def by metis+
  have f2: "opened V w2 fd = Some (path, 0)" "contents V w2 path = Some ?c" "in_force V w2 = []"
    using o2 1(3,5) by (simp_all add: calm_def)
  obtain w3 where 3: "sys_fstat_size K fd w2 = (Inr (int (length ?c)), w3)" "calm V w2 w3" "opened V w3 = opened V w2"
    using assms(2) f2 unfolding serves_files_def by meson
  have f3: "opened V w3 fd = Some (path, 0)" "contents V w3 path = Some ?c" "in_force V w3 = []"
    using f2 3(2,3) by (simp_all add: calm_def)
  obtain w4 where 4: "sys_read K fd (8 * length p) w3 = (Inr (take (8 * length p) (drop 0 ?c)), w4)" "calm V w3 w4"
    "opened V w4 = (opened V w3)(fd \<mapsto> (path, 0 + min (8 * length p) (length ?c - 0)))"
    using assms(2,7) f3 unfolding serves_files_def by meson
  have f4: "opened V w4 fd = Some (path, min (8 * length p) (length ?c))" "contents V w4 path = Some ?c" "in_force V w4 = []"
    using f3 4(2,3) by (simp_all add: calm_def)
  obtain w5 where 5: "sys_close K fd w4 = (Inr (), w5)" "calm V w4 w5" "opened V w5 = (opened V w4)(fd := None)"
    using assms(2) f4 unfolding serves_files_def by meson
  have f5: "in_force V w5 = []" "no_new_privs V w5" using o2(1) 3(2) 4(2) 5(2) 1(2,3) by (simp_all add: calm_def)
  obtain w6 where 6: "sys_seccomp_set_filter K (take (length p mod 65536) p) w5 = (Inr (), w6)"
    "in_force V w6 = [take (length p mod 65536) p]" "no_new_privs V w6" "opened V w6 = opened V w5"
    by (rule filter_granted[OF assms(1) f5 assms(9)])
  have "loadFilter et K path set_before s = (Inr True, s\<lparr>world := w6\<rparr>)"
    unfolding loadFilter_def andThen_Inr[where m = ?prctl and s = s, OF 1(1)]
    using 2 3 4 5 6 by (simp add: fsize fsize[simplified] Let_def assms(8) seccomp_or_die_def fprog_insns_mk
        insns_bytes_roundtrip nat_mult_distrib)
  moreover have "opened V w6 = opened V (world s)"
    using 1(4) o2(2,3) 3(3) 4(3) 5(3) 6(4) by auto
  ultimately show ?thesis using 6 by simp
qed

theorem loadFilter_roundtrip_witness:
  "\<exists>s'. loadFilter \<lparr>ename = [], strerror = (\<lambda>_. [])\<rparr>
        (demo_kernel (concat (map bytes_of_insn logging_filter))) ''f.bpf'' False fresh_process = (Inr True, s')
      \<and> sb_filters (world s') = [logging_filter] \<and> sb_nnp (world s') \<and> sb_fds (world s') = (\<lambda>fd. None)"
proof -
  let ?et = "\<lparr>ename = [], strerror = (\<lambda>_. [])\<rparr>"
  let ?c = "concat (map bytes_of_insn logging_filter)"
  have l: "length logging_filter = 6" by (simp add: logging_filter_def)
  then have "bpf_valid (take (length logging_filter mod 65536) logging_filter)"
    by (simp add: valid_x86_filters)
  moreover have "opened (demo_view ?c) (world fresh_process) = (\<lambda>fd. None)"
    "in_force (demo_view ?c) (world fresh_process) = []"
    "contents (demo_view ?c) (world fresh_process) ''f.bpf'' = Some ?c"
    by (simp_all add: fresh_simps)
  moreover have "\<forall>w n. lib_alloc_ok (demo_kernel ?c) w n" by (simp add: demo_kernel_def)
  ultimately show ?thesis
    using loadFilter_roundtrip[OF demo_grants demo_serves, of ?c fresh_process "''f.bpf''" False logging_filter ?et]
      l demo_opens[of ?c "''f.bpf''"]
    by (auto simp: demo_view_def)
qed

text \<open>\<open>seccomp_bench.c\<close>: with memory available and a count from 0 to \<open>INT_MAX - 1\<close>, \<open>create_filter\<close>
  returns the filter of \<open>icnt\<close> equal instructions and a final return, of which the 16-bit length
  field passes on the whole up to 65534 instructions; the allocation that a count of \<open>-1\<close> leads to
  is followed by a store before its start.\<close>
theorem create_filter_result:
  assumes "bench_instruction c = Some i" and "\<forall>w n. lib_alloc_ok K w n"
    and "0 \<le> icnt" and "icnt < INT_MAX"
  shows "\<exists>p s'. create_filter et K c icnt s = (Inr p, s') \<and> world s' = world s
    \<and> fprog_insns p = take (nat (icnt + 1) mod 65536) (bench_filter i (nat icnt))
    \<and> (icnt < 65535 \<longrightarrow> fprog_insns p = bench_filter i (nat icnt))
    \<and> fst (create_filter et K c (- 1) s) = Inl Undefined"
proof -
  have "length (bench_filter i (nat icnt)) = nat (icnt + 1)"
    using assms(3) by (simp add: bench_filter_def nat_add_distrib)
  then show ?thesis
    using assms by (auto simp: create_filter_def andThen_run Let_def fprog_insns_mk)
qed

theorem create_filter_result_witness:
  "\<exists>p s'. create_filter \<lparr>ename = [], strerror = (\<lambda>_. [])\<rparr> (demo_kernel []) (CHR ''j'') 2
       fresh_process = (Inr p, s')
     \<and> fprog_insns p = bench_filter (BPF_JUMP 0x15 0 0 0) 2"
proof -
  have "bench_instruction (CHR ''j'') = Some (BPF_JUMP 0x15 0 0 0)" by (simp add: bench_instruction_def)
  moreover have "\<forall>w n. lib_alloc_ok (demo_kernel []) w n" by (simp add: demo_kernel_def)
  ultimately show ?thesis
    using create_filter_result[of "CHR ''j''" "BPF_JUMP 0x15 0 0 0" "demo_kernel []" 2
        "\<lparr>ename = [], strerror = (\<lambda>_. [])\<rparr>" fresh_process] by auto
qed

text \<open>\<open>seccomp_deny_syscall.c\<close> reports a missing argument but does not stop: with too few arguments,
  once \<open>prctl\<close> has succeeded (and, with one argument, \<open>seccomp\<close> too), the program reads a null
  pointer, which is undefined behaviour, instead of exiting.\<close>
theorem deny_syscall_usage_falls_through:
  assumes "grants_filters K V" and "in_force V (world s) = []" and "length argv < 3" and "argv \<noteq> []"
  shows "fst (main_deny_syscall et K argv s) = Inl Undefined"
proof -
  obtain w1 where 1: "sys_prctl_no_new_privs K (world s) = (Inr (), w1)" "no_new_privs V w1" "in_force V w1 = []"
    by (rule prctl_granted[OF assms(1,2)])
  obtain w2 where 2: "sys_seccomp_set_filter K (deny_syscall_filter (word_of_int (atoi (argv ! 1)))) w1 = (Inr (), w2)"
    by (rule filter_granted[OF assms(1) 1(3,2) valid_x86_filters(9)])
  from assms(3,4) consider (one) a where "argv = [a]" | (two) a b where "argv = [a, b]"
    by (cases argv rule: list.exhaust; cases "tl argv" rule: list.exhaust) (auto simp: length_Suc_conv)
  then show ?thesis
  proof cases
    case one
    with 1 show ?thesis by (simp add: main_deny_syscall_def prctl_or_die_def)
  next
    case two
    with 1 2 show ?thesis
      by (simp add: main_deny_syscall_def prctl_or_die_def install_deny_syscall_def
          install_valid[OF valid_x86_filters(9)])
  qed
qed

theorem deny_syscall_usage_falls_through_witness:
  "fst (main_deny_syscall \<lparr>ename = [], strerror = (\<lambda>_. [])\<rparr> (demo_kernel []) [''p''] fresh_process) = Inl Undefined"
  by (rule deny_syscall_usage_falls_through[OF demo_grants]) (simp_all add: fresh_simps)

end
