(* ===== verification/Scm.thy ===== *)
theory Scm
  imports Diag
begin

text \<open>
  \<open>sockets/scm_functions.c\<close>: passing a file descriptor over a UNIX domain socket as ancillary data.
  A message is its real data and its control messages; \<open>sendmsg\<close> and \<open>recvmsg\<close> are parameters.
\<close>

section \<open>Messages\<close>

record cmsghdr =
  cmsg_len :: nat
  cmsg_level :: int
  cmsg_type :: int
  cmsg_data :: int

record msghdr =
  msg_iov :: "int list"
  msg_control :: "cmsghdr list"

abbreviation (input) SOL_SOCKET :: int where "SOL_SOCKET \<equiv> 1"
abbreviation (input) SCM_RIGHTS :: int where "SCM_RIGHTS \<equiv> 1"

text \<open>\<open>CMSG_LEN(n)\<close>: the 16 bytes of the header and the data.\<close>

definition CMSG_LEN :: "nat \<Rightarrow> nat" where "CMSG_LEN n = 16 + n"

text \<open>\<open>CMSG_FIRSTHDR\<close>: the first control message, \<open>None\<close> if there is none.\<close>

definition CMSG_FIRSTHDR :: "msghdr \<Rightarrow> cmsghdr option" where
  "CMSG_FIRSTHDR m = (case msg_control m of [] \<Rightarrow> None | c # _ \<Rightarrow> Some c)"

section \<open>The operations\<close>

definition fd_message :: "int \<Rightarrow> msghdr" where
  "fd_message fd = \<lparr>msg_iov = [12345],
     msg_control = [\<lparr>cmsg_len = CMSG_LEN 4, cmsg_level = SOL_SOCKET, cmsg_type = SCM_RIGHTS, cmsg_data = fd\<rparr>]\<rparr>"

definition sendfd ::
  "(int \<Rightarrow> msghdr \<Rightarrow> ('w, int) kcall) \<Rightarrow> int \<Rightarrow> int \<Rightarrow> ('w process, int) program" where
  "sendfd sendmsg sockfd fd =
     andThen (syscall (sendmsg sockfd (fd_message fd))) (\<lambda>r.
       if r = None then ret (- 1) else ret 0)"

definition recvfd ::
  "(int \<Rightarrow> ('w, msghdr) kcall) \<Rightarrow> int \<Rightarrow> ('w process, int) program" where
  "recvfd recvmsg sockfd =
     andThen (syscall (recvmsg sockfd)) (\<lambda>r. case r of
       None \<Rightarrow> ret (- 1)
     | Some msgh \<Rightarrow>
         (case CMSG_FIRSTHDR msgh of
            None \<Rightarrow> andThen (modify (\<lambda>s. s\<lparr>p_errno := EINVAL\<rparr>)) (\<lambda>_. ret (- 1))
          | Some cmsg \<Rightarrow>
              if cmsg_len cmsg \<noteq> CMSG_LEN 4 \<or> cmsg_level cmsg \<noteq> SOL_SOCKET \<or> cmsg_type cmsg \<noteq> SCM_RIGHTS
              then andThen (modify (\<lambda>s. s\<lparr>p_errno := EINVAL\<rparr>)) (\<lambda>_. ret (- 1))
              else ret (cmsg_data cmsg)))"

section \<open>Properties\<close>

text \<open>A stream connection from the socket \<open>a\<close> of one process to the socket \<open>b\<close> of another: the messages in
  transit, each with the open file that its descriptor stood for when it was sent; the files behind the
  descriptors of the sender and of the receiver; and how many descriptors the receiver may still open.\<close>

record 'w fd_connection =
  in_transit :: "'w \<Rightarrow> (msghdr \<times> nat) list"
  sender_file :: "'w \<Rightarrow> int \<Rightarrow> nat option"
  receiver_file :: "'w \<Rightarrow> int \<Rightarrow> nat option"
  free_slots :: "'w \<Rightarrow> nat"

text \<open>What the functions rely on of \<open>unix(7)\<close>, for messages of some real data and one control message that
  holds one descriptor. A message with an open descriptor is queued on that connection while there is
  room for it. The oldest one is delivered with a descriptor the receiver did not use, which from then on
  stands for the file of the sender's, while the receiver may open descriptors.\<close>

definition carries_fd :: "msghdr \<Rightarrow> cmsghdr \<Rightarrow> bool" where
  "carries_fd m c \<longleftrightarrow> msg_iov m \<noteq> [] \<and> msg_control m = [c]
     \<and> cmsg_level c = SOL_SOCKET \<and> cmsg_type c = SCM_RIGHTS \<and> cmsg_len c = CMSG_LEN 4"

definition passes_fds ::
  "'w fd_connection \<Rightarrow> (int \<Rightarrow> msghdr \<Rightarrow> ('w, int) kcall) \<Rightarrow> (int \<Rightarrow> ('w, msghdr) kcall)
     \<Rightarrow> int \<Rightarrow> int \<Rightarrow> nat \<Rightarrow> bool" where
  "passes_fds C sendmsg recvmsg a b room \<longleftrightarrow>
     (\<forall>w m c f. carries_fd m c \<and> sender_file C w (cmsg_data c) = Some f \<and> length (in_transit C w) < room \<longrightarrow>
        (\<exists>n w'. sendmsg a m w = (Inr n, w') \<and> in_transit C w' = in_transit C w @ [(m, f)]
           \<and> sender_file C w' = sender_file C w \<and> receiver_file C w' = receiver_file C w
           \<and> free_slots C w' = free_slots C w))
   \<and> (\<forall>w m c f q. in_transit C w = (m, f) # q \<and> carries_fd m c \<and> 0 < free_slots C w \<longrightarrow>
        (\<exists>x w'. recvmsg b w = (Inr (m\<lparr>msg_control := [c\<lparr>cmsg_data := x\<rparr>]\<rparr>), w') \<and> 0 \<le> x
           \<and> receiver_file C w x = None \<and> receiver_file C w' = (receiver_file C w)(x \<mapsto> f)
           \<and> in_transit C w' = q \<and> Suc (free_slots C w') = free_slots C w))"

text \<open>Calls one after the other, and their results.\<close>

fun each :: "('a \<Rightarrow> ('w process, 'b) program) \<Rightarrow> 'a list \<Rightarrow> ('w process, 'b list) program" where
  "each p [] = ret []"
| "each p (x # xs) = andThen (p x) (\<lambda>r. andThen (each p xs) (\<lambda>rs. ret (r # rs)))"

lemma sendfd_run:
  assumes "passes_fds C sendmsg recvmsg a b room"
    and "sender_file C (world s) fd = Some f" and "length (in_transit C (world s)) < room"
  obtains w where "sendfd sendmsg a fd s = (Inr 0, s\<lparr>world := w\<rparr>)"
    and "in_transit C w = in_transit C (world s) @ [(fd_message fd, f)]"
    and "sender_file C w = sender_file C (world s)" and "receiver_file C w = receiver_file C (world s)"
    and "free_slots C w = free_slots C (world s)"
proof -
  let ?c = "\<lparr>cmsg_len = CMSG_LEN 4, cmsg_level = SOL_SOCKET, cmsg_type = SCM_RIGHTS, cmsg_data = fd\<rparr>"
  have "carries_fd (fd_message fd) ?c" by (simp add: carries_fd_def fd_message_def)
  moreover have "sender_file C (world s) (cmsg_data ?c) = Some f" using assms(2) by simp
  ultimately obtain n w where "sendmsg a (fd_message fd) (world s) = (Inr n, w)"
    and "in_transit C w = in_transit C (world s) @ [(fd_message fd, f)]"
    and "sender_file C w = sender_file C (world s)" and "receiver_file C w = receiver_file C (world s)"
    and "free_slots C w = free_slots C (world s)"
    using assms(1,3) unfolding passes_fds_def by meson
  with that show thesis by (simp add: sendfd_def andThen_run)
qed

lemma recvfd_run:
  assumes "passes_fds C sendmsg recvmsg a b room"
    and "in_transit C (world s) = (fd_message fd, f) # q" and "0 < free_slots C (world s)"
  obtains x w where "recvfd recvmsg b s = (Inr x, s\<lparr>world := w\<rparr>)" and "0 \<le> x"
    and "receiver_file C (world s) x = None" and "receiver_file C w = (receiver_file C (world s))(x \<mapsto> f)"
    and "in_transit C w = q" and "Suc (free_slots C w) = free_slots C (world s)"
proof -
  let ?c = "\<lparr>cmsg_len = CMSG_LEN 4, cmsg_level = SOL_SOCKET, cmsg_type = SCM_RIGHTS, cmsg_data = fd\<rparr>"
  have "carries_fd (fd_message fd) ?c" by (simp add: carries_fd_def fd_message_def)
  then obtain x w where "recvmsg b (world s) = (Inr ((fd_message fd)\<lparr>msg_control := [?c\<lparr>cmsg_data := x\<rparr>]\<rparr>), w)"
    and "0 \<le> x" and "receiver_file C (world s) x = None"
    and "receiver_file C w = (receiver_file C (world s))(x \<mapsto> f)"
    and "in_transit C w = q" and "Suc (free_slots C w) = free_slots C (world s)"
    using assms unfolding passes_fds_def by meson
  with that show thesis by (simp add: recvfd_def andThen_run CMSG_FIRSTHDR_def)
qed

lemma each_sendfd:
  assumes C: "passes_fds C sendmsg recvmsg a b room"
  shows "list_all2 (\<lambda>fd f. sender_file C (world s) fd = Some f) fds fs
     \<Longrightarrow> length (in_transit C (world s)) + length fds \<le> room \<Longrightarrow>
    \<exists>w. each (sendfd sendmsg a) fds s = (Inr (replicate (length fds) 0), s\<lparr>world := w\<rparr>)
      \<and> in_transit C w = in_transit C (world s) @ zip (map fd_message fds) fs
      \<and> receiver_file C w = receiver_file C (world s) \<and> free_slots C w = free_slots C (world s)"
proof (induction fds arbitrary: fs s)
  case Nil
  then show ?case by (intro exI[of _ "world s"]) simp
next
  case (Cons fd fds)
  then obtain f gs where fs: "fs = f # gs" and f: "sender_file C (world s) fd = Some f"
    and gs: "list_all2 (\<lambda>fd f. sender_file C (world s) fd = Some f) fds gs"
    by (auto simp: list_all2_Cons1)
  from Cons.prems(2) have "length (in_transit C (world s)) < room" by simp
  with C f obtain w where 1: "sendfd sendmsg a fd s = (Inr 0, s\<lparr>world := w\<rparr>)"
    "in_transit C w = in_transit C (world s) @ [(fd_message fd, f)]"
    "sender_file C w = sender_file C (world s)" "receiver_file C w = receiver_file C (world s)"
    "free_slots C w = free_slots C (world s)" by (rule sendfd_run)
  with gs Cons.prems(2) Cons.IH[of "s\<lparr>world := w\<rparr>" gs] show ?case using fs by auto
qed

lemma each_recvfd:
  assumes C: "passes_fds C sendmsg recvmsg a b room"
  shows "in_transit C (world s) = zip (map fd_message fds) fs \<Longrightarrow> length fs = length fds
     \<Longrightarrow> length fds \<le> free_slots C (world s) \<Longrightarrow>
    \<exists>xs w. each (\<lambda>_. recvfd recvmsg b) fds s = (Inr xs, s\<lparr>world := w\<rparr>) \<and> in_transit C w = []
      \<and> length xs = length fds \<and> distinct xs \<and> (\<forall>x\<in>set xs. 0 \<le> x \<and> receiver_file C (world s) x = None)
      \<and> receiver_file C w = (receiver_file C (world s))(xs [\<mapsto>] fs)"
proof (induction fds arbitrary: fs s)
  case Nil
  then show ?case by (intro exI[of _ "[]"] exI[of _ "world s"]) simp
next
  case (Cons fd fds)
  then obtain f gs where fs: "fs = f # gs" "length gs = length fds" by (cases fs) auto
  with Cons.prems have "in_transit C (world s) = (fd_message fd, f) # zip (map fd_message fds) gs"
    and "0 < free_slots C (world s)" by simp_all
  with C obtain x w where 1: "recvfd recvmsg b s = (Inr x, s\<lparr>world := w\<rparr>)" "0 \<le> x"
    "receiver_file C (world s) x = None" "receiver_file C w = (receiver_file C (world s))(x \<mapsto> f)"
    "in_transit C w = zip (map fd_message fds) gs" "Suc (free_slots C w) = free_slots C (world s)"
    by (rule recvfd_run)
  with Cons.prems(3) Cons.IH[of "s\<lparr>world := w\<rparr>" gs] fs obtain xs w' where
    2: "each (\<lambda>_. recvfd recvmsg b) fds (s\<lparr>world := w\<rparr>) = (Inr xs, s\<lparr>world := w'\<rparr>)" "in_transit C w' = []"
      "length xs = length fds" "distinct xs" "\<forall>y\<in>set xs. 0 \<le> y \<and> receiver_file C w y = None"
      "receiver_file C w' = (receiver_file C w)(xs [\<mapsto>] gs)" by (simp del: fun_upd_apply) blast
  have "x \<notin> set xs" "\<forall>y\<in>set xs. receiver_file C (world s) y = None"
    using 1(4) 2(5) by (auto split: if_splits)
  with 1 2 fs(1) show ?case by (intro exI[of _ "x # xs"] exI[of _ w']) simp
qed

text \<open>C26: Descriptors sent with \<open>sendfd\<close> on a connection that has room for them arrive with \<open>recvfd\<close>, at a
  receiver that may open so many: every call succeeds, the received descriptors are different from each
  other and from those in use, and in the order in which they were sent they stand for the files of the
  sender's descriptors, of which one may be sent twice. Nothing else changes in the receiver's table, and
  nothing stays in transit.\<close>
theorem sendfd_recvfd:
  assumes "passes_fds C sendmsg recvmsg a b room" and "in_transit C (world s) = []"
    and "list_all2 (\<lambda>fd f. sender_file C (world s) fd = Some f) fds fs"
    and "length fds \<le> room" and "length fds \<le> free_slots C (world s)"
  shows "\<exists>xs s'. andThen (each (sendfd sendmsg a) fds) (\<lambda>rs.
        andThen (each (\<lambda>_. recvfd recvmsg b) fds) (\<lambda>xs. ret (rs, xs))) s
      = (Inr (replicate (length fds) 0, xs), s')
    \<and> length xs = length fds \<and> distinct xs \<and> (\<forall>x\<in>set xs. 0 \<le> x \<and> receiver_file C (world s) x = None)
    \<and> receiver_file C (world s') = (receiver_file C (world s))(xs [\<mapsto>] fs)
    \<and> in_transit C (world s') = []"
proof -
  obtain w where 1: "each (sendfd sendmsg a) fds s = (Inr (replicate (length fds) 0), s\<lparr>world := w\<rparr>)"
    "in_transit C w = zip (map fd_message fds) fs" "receiver_file C w = receiver_file C (world s)"
    "free_slots C w = free_slots C (world s)"
    using each_sendfd[OF assms(1,3)] assms(2,4) by auto
  have "length fs = length fds" using assms(3) by (simp add: list_all2_lengthD)
  with 1 assms(5) each_recvfd[OF assms(1), of "s\<lparr>world := w\<rparr>" fds fs] show ?thesis by auto
qed

text \<open>A concrete connection: the sender has the files 7 and 8 open as its descriptors 3 and 4, and the
  receiver numbers what it gets from 0.\<close>

definition demo_connection :: "((msghdr \<times> nat) list \<times> nat list) fd_connection" where
  "demo_connection = \<lparr>in_transit = fst, sender_file = (\<lambda>w. [3 \<mapsto> 7, 4 \<mapsto> 8]),
     receiver_file = (\<lambda>(q, t) x. if 0 \<le> x \<and> nat x < length t then Some (t ! nat x) else None),
     free_slots = (\<lambda>(q, t). 10 - length t)\<rparr>"

definition demo_sendmsg :: "int \<Rightarrow> msghdr \<Rightarrow> ((msghdr \<times> nat) list \<times> nat list, int) kcall" where
  "demo_sendmsg a m = (\<lambda>(q, t). case sender_file demo_connection (q, t) (cmsg_data (hd (msg_control m))) of
     None \<Rightarrow> (Inl EBADF, (q, t)) | Some f \<Rightarrow> (Inr 4, (q @ [(m, f)], t)))"

definition demo_recvmsg :: "int \<Rightarrow> ((msghdr \<times> nat) list \<times> nat list, msghdr) kcall" where
  "demo_recvmsg b = (\<lambda>(q, t). case q of [] \<Rightarrow> (Inl EAGAIN, (q, t))
     | (m, f) # q' \<Rightarrow> (Inr (m\<lparr>msg_control := [(hd (msg_control m))\<lparr>cmsg_data := int (length t)\<rparr>]\<rparr>), (q', t @ [f])))"

lemma demo_passes: "passes_fds demo_connection demo_sendmsg demo_recvmsg 5 6 8"
proof -
  note demo = demo_connection_def demo_sendmsg_def demo_recvmsg_def carries_fd_def
  have table: "(\<lambda>x. if 0 \<le> x \<and> nat x < Suc (length t) then Some ((t @ [f]) ! nat x) else None)
      = (\<lambda>x. if 0 \<le> x \<and> nat x < length t then Some (t ! nat x) else None)(int (length t) \<mapsto> f)" for t and f :: nat
    by (rule ext) (auto simp: nth_append less_Suc_eq)
  have "\<exists>x w'. demo_recvmsg 6 w = (Inr (m\<lparr>msg_control := [c\<lparr>cmsg_data := x\<rparr>]\<rparr>), w') \<and> 0 \<le> x
      \<and> receiver_file demo_connection w x = None
      \<and> receiver_file demo_connection w' = (receiver_file demo_connection w)(x \<mapsto> f)
      \<and> in_transit demo_connection w' = q \<and> Suc (free_slots demo_connection w') = free_slots demo_connection w"
    if "in_transit demo_connection w = (m, f) # q \<and> carries_fd m c \<and> 0 < free_slots demo_connection w" for w m c f q
    using that by (cases w) (intro exI[of _ "int (length (snd w))"], auto simp: demo table)
  then show ?thesis unfolding passes_fds_def by (auto simp: demo)
qed

theorem sendfd_recvfd_witness:
  "\<exists>xs s'. andThen (each (sendfd demo_sendmsg 5) [3, 4, 3]) (\<lambda>rs.
        andThen (each (\<lambda>_. recvfd demo_recvmsg 6) [3, 4, 3 :: int]) (\<lambda>xs. ret (rs, xs)))
        \<lparr>environment = [], p_errno = E_OK, pending = [], written = [], world = ([], [9])\<rparr>
      = (Inr ([0, 0, 0], xs), s')
    \<and> distinct xs \<and> length xs = 3
    \<and> receiver_file demo_connection (world s') (xs ! 0) = Some 7
    \<and> receiver_file demo_connection (world s') (xs ! 1) = Some 8
    \<and> receiver_file demo_connection (world s') (xs ! 2) = Some 7"
proof -
  let ?s = "\<lparr>environment = [], p_errno = E_OK, pending = [], written = [], world = ([] :: (msghdr \<times> nat) list, [9 :: nat])\<rparr>"
  have "passes_fds demo_connection demo_sendmsg demo_recvmsg 5 6 8" by (rule demo_passes)
  from sendfd_recvfd[OF this, of ?s "[3, 4, 3]" "[7, 8, 7]"] obtain xs s' where
    run: "andThen (each (sendfd demo_sendmsg 5) [3, 4, 3]) (\<lambda>rs.
        andThen (each (\<lambda>_. recvfd demo_recvmsg 6) [3, 4, 3 :: int]) (\<lambda>xs. ret (rs, xs))) ?s
      = (Inr (replicate (length [3, 4, 3 :: int]) 0, xs), s')"
    and l: "length xs = length [3, 4, 3 :: int]" and xs: "distinct xs"
      "receiver_file demo_connection (world s') = (receiver_file demo_connection (world ?s))(xs [\<mapsto>] [7, 8, 7])"
    by (auto simp: demo_connection_def)
  from l obtain x y z where "xs = [x, y, z]" by (auto simp: length_Suc_conv numeral_3_eq_3)
  with run xs show ?thesis by (intro exI[of _ xs] exI[of _ s']) (simp add: numeral_3_eq_3)
qed

end
