(* ===== verification/Seccomp_Notify.thy ===== *)
theory Seccomp_Notify
  imports Seccomp_Apps Scm
begin

text \<open>
  Seccomp user-space notification: \<open>seccomp/seccomp_functions.c\<close> and the supervisors and targets of
  \<open>seccomp/seccomp_unotify_mkdir.c\<close> and \<open>seccomp/seccomp_unotify_openat.c\<close>.

  The system calls are the fields of a kernel record. The buffer \<open>path\<close>, which lives across the
  iterations of the supervisors, is a list of bytes; reading it as a string past its last byte is
  undefined behaviour. The endless loops of the supervisors take a bound on their iterations.
\<close>

section \<open>Data\<close>

record seccomp_notif =
  req_id :: "64 word"
  req_pid :: int
  req_data :: seccomp_data

record seccomp_notif_resp =
  resp_id :: "64 word"
  resp_val :: int
  resp_error :: int
  resp_flags :: "32 word"

record seccomp_notif_addfd =
  add_id :: "64 word"
  add_flags :: "32 word"
  add_srcfd :: int
  add_newfd :: int
  add_newfd_flags :: "32 word"

record notif_sizes =
  size_notif :: nat
  size_notif_resp :: nat

record 'w nkernel =
  nk_recv :: "int \<Rightarrow> ('w, seccomp_notif) kcall"
  nk_send :: "int \<Rightarrow> seccomp_notif_resp \<Rightarrow> ('w, unit) kcall"
  nk_id_valid :: "int \<Rightarrow> 64 word \<Rightarrow> ('w, unit) kcall"
  nk_addfd :: "int \<Rightarrow> seccomp_notif_addfd \<Rightarrow> ('w, int) kcall"
  nk_get_sizes :: "('w, notif_sizes) kcall"
  nk_alloc_ok :: "'w \<Rightarrow> nat \<Rightarrow> bool"
  nk_open :: "string \<Rightarrow> 32 word \<Rightarrow> ('w, int) kcall"
  nk_openat :: "64 word \<Rightarrow> string \<Rightarrow> 64 word \<Rightarrow> 64 word \<Rightarrow> ('w, int) kcall"
  nk_pread :: "int \<Rightarrow> nat \<Rightarrow> 64 word \<Rightarrow> ('w, string) kcall"
  nk_read :: "int \<Rightarrow> nat \<Rightarrow> ('w, string) kcall"
  nk_write :: "int \<Rightarrow> string \<Rightarrow> ('w, int) kcall"
  nk_close :: "int \<Rightarrow> ('w, unit) kcall"
  nk_mkdir :: "string \<Rightarrow> 64 word \<Rightarrow> ('w, int) kcall"
  nk_sleep :: "'w \<Rightarrow> 'w"
  nk_fork :: "('w, int) kcall"
  nk_getpid :: "'w \<Rightarrow> int"
  nk_sigaction :: "int \<Rightarrow> string \<Rightarrow> ('w, unit) kcall"
  nk_prctl_no_new_privs :: "('w, unit) kcall"
  nk_seccomp_listener :: "sock_filter list \<Rightarrow> ('w, int) kcall"
  nk_seccomp_filter :: "sock_filter list \<Rightarrow> ('w, unit) kcall"
  nk_socketpair :: "('w, int \<times> int) kcall"
  nk_sendmsg :: "int \<Rightarrow> msghdr \<Rightarrow> ('w, int) kcall"
  nk_recvmsg :: "int \<Rightarrow> ('w, msghdr) kcall"

abbreviation (input) PATH_MAX :: nat where "PATH_MAX \<equiv> 4096"
abbreviation (input) GTP_BAD_READ :: int where "GTP_BAD_READ \<equiv> - 1"
abbreviation (input) GTP_ID_NOT_VALID :: int where "GTP_ID_NOT_VALID \<equiv> - 2"
abbreviation (input) GTP_BAD_PATH :: int where "GTP_BAD_PATH \<equiv> - 3"
abbreviation (input) O_CLOEXEC :: "32 word" where "O_CLOEXEC \<equiv> 0x80000"
abbreviation (input) SECCOMP_USER_NOTIF_FLAG_CONTINUE :: "32 word" where "SECCOMP_USER_NOTIF_FLAG_CONTINUE \<equiv> 1"
abbreviation (input) SECCOMP_ADDFD_FLAG_SETFD :: "32 word" where "SECCOMP_ADDFD_FLAG_SETFD \<equiv> 1"

definition terminated :: "string \<Rightarrow> bool" where
  "terminated buf = (NUL \<in> set buf)"

section \<open>\<open>seccomp_functions.c\<close>\<close>

definition cookieIsValid :: "'w nkernel \<Rightarrow> int \<Rightarrow> 64 word \<Rightarrow> ('w process, bool) program" where
  "cookieIsValid K notifyFd i = andThen (syscall (nk_id_valid K notifyFd i)) (\<lambda>r. ret (r \<noteq> None))"

text \<open>The result is the status and the buffer, whose first bytes are overwritten by \<open>pread\<close>.\<close>

definition getTargetPathname ::
  "'w nkernel \<Rightarrow> seccomp_notif \<Rightarrow> int \<Rightarrow> nat \<Rightarrow> string \<Rightarrow> ('w process, int \<times> string) program" where
  "getTargetPathname K req notifyFd argNum path =
     (let procMemPath = snprintf_buf PATH_MAX (''/proc/'' @ show_int (req_pid req) @ ''/mem'') in
      andThen (syscall (nk_open K procMemPath O_CLOEXEC)) (\<lambda>r. case r of
        None \<Rightarrow> ret (GTP_BAD_READ, path)
      | Some procMemFd \<Rightarrow>
          andThen (cookieIsValid K notifyFd (req_id req)) (\<lambda>valid1.
          if \<not> valid1
          then andThen (syscall (nk_close K procMemFd)) (\<lambda>_. ret (GTP_ID_NOT_VALID, path))
          else
          andThen (syscall (nk_pread K procMemFd (length path) (args (req_data req) argNum))) (\<lambda>nread.
          let path' = (case nread of None \<Rightarrow> path | Some bs \<Rightarrow> bs @ drop (length bs) path) in
          andThen (syscall (nk_close K procMemFd)) (\<lambda>_.
          if nread = None \<or> nread = Some [] then ret (GTP_BAD_READ, path')
          else
          andThen (cookieIsValid K notifyFd (req_id req)) (\<lambda>valid2.
          if \<not> valid2 then ret (GTP_ID_NOT_VALID, path')
          else if terminated (take (length (the nread)) path') then ret (0, path')
          else ret (GTP_BAD_PATH, path'))))))) "

text \<open>The result is the number of bytes of the two buffers; the test of the second allocation looks at
  the wrong pointer and never fires.\<close>

definition sizeof_seccomp_notif_resp :: nat where "sizeof_seccomp_notif_resp = 24"

definition allocSeccompNotifBuffers ::
  "err_texts \<Rightarrow> 'w nkernel \<Rightarrow> ('w process, nat option \<times> nat option) program" where
  "allocSeccompNotifBuffers et K =
     andThen (or_die (syscall (nk_get_sizes K)) (errExit et ''seccomp-SECCOMP_GET_NOTIF_SIZES'' [])) (\<lambda>sizes.
     andThen (query (\<lambda>s. nk_alloc_ok K (world s) (size_notif sizes))) (\<lambda>ok1.
     if \<not> ok1 then errExit et ''malloc-seccomp_notif'' []
     else (let resp_size = (if sizeof_seccomp_notif_resp > size_notif_resp sizes
                            then sizeof_seccomp_notif_resp else size_notif_resp sizes) in
       andThen (query (\<lambda>s. nk_alloc_ok K (world s) resp_size)) (\<lambda>ok2.
         ret (Some (size_notif sizes), if ok2 then Some resp_size else None)))))"

section \<open>\<open>seccomp_unotify_mkdir.c\<close>\<close>

record cmdLineOpts =
  delaySecs :: int
  secondFilter :: int

definition installNotifyFilter_with ::
  "err_texts \<Rightarrow> 'w nkernel \<Rightarrow> sock_filter list \<Rightarrow> ('w process, int) program" where
  "installNotifyFilter_with et K flt =
     or_die (syscall (nk_seccomp_listener K (fprog_insns (mk_fprog (length flt) flt))))
       (errExit et ''seccomp-install-notify-filter'' [])"

definition installNotifyFilter :: "err_texts \<Rightarrow> 'w nkernel \<Rightarrow> ('w process, int) program" where
  "installNotifyFilter et K = installNotifyFilter_with et K mkdir_notify_filter"

definition installFilter2 :: "err_texts \<Rightarrow> 'w nkernel \<Rightarrow> cmdLineOpts \<Rightarrow> ('w process, unit) program" where
  "installFilter2 et K opts =
     (let flt = mkdir_filter2 (word_of_int (secondFilter opts)) in
      or_die (syscall (nk_seccomp_filter K (fprog_insns (mk_fprog (length flt) flt))))
        (errExit et ''seccomp-install-filter-2'' []))"

definition closeSocketPair ::
  "err_texts \<Rightarrow> 'w nkernel \<Rightarrow> int \<times> int \<Rightarrow> ('w process, unit) program" where
  "closeSocketPair et K sockPair = seqs [
     or_die (syscall (nk_close K (fst sockPair))) (errExit et ''closeSocketPair-close-0'' []),
     or_die (syscall (nk_close K (snd sockPair))) (errExit et ''closeSocketPair-close-1'' [])]"

text \<open>One \<open>mkdir\<close> of the target.\<close>

definition target_mkdir :: "err_texts \<Rightarrow> 'w nkernel \<Rightarrow> string \<Rightarrow> ('w process, unit) program" where
  "target_mkdir et K ap =
     andThen (say ''\<newline>T: about to mkdir(\"%s\")\<newline>'' [FStr ap]) (\<lambda>_.
     andThen (syscall (nk_mkdir K ap 0x1c0)) (\<lambda>r. case r of
       None \<Rightarrow> perror et ''T: ERROR: mkdir(2)''
     | Some v \<Rightarrow> say ''T: SUCCESS: mkdir(2) returned %d\<newline>'' [FInt v]))"

definition targetProcess ::
  "err_texts \<Rightarrow> 'w nkernel \<Rightarrow> int \<times> int \<Rightarrow> string list \<Rightarrow> cmdLineOpts \<Rightarrow> ('w process, int) program" where
  "targetProcess et K sockPair argv opts =
     andThen (or_die (syscall (nk_fork K)) (errExit et ''fork'' [])) (\<lambda>targetPid.
     if targetPid > 0 then ret targetPid
     else
     andThen (query (\<lambda>s. nk_getpid K (world s))) (\<lambda>pid.
     andThen (say ''T: PID = %ld\<newline>'' [FInt pid]) (\<lambda>_.
     andThen (or_die (syscall (nk_sigaction K 2 ''sigintHandler'')) (errExit et ''sigaction'' [])) (\<lambda>_.
     andThen (or_die (syscall (nk_prctl_no_new_privs K)) (errExit et ''prctl'' [])) (\<lambda>_.
     andThen (installNotifyFilter et K) (\<lambda>notifyFd.
     andThen (if secondFilter opts \<noteq> - 1 then installFilter2 et K opts else ret ()) (\<lambda>_.
     andThen (sendfd (nk_sendmsg K) (fst sockPair) notifyFd) (\<lambda>r.
     andThen (if r = - 1 then errExit et ''sendfd'' [] else ret ()) (\<lambda>_.
     andThen (or_die (syscall (nk_close K notifyFd)) (errExit et ''close-target-notify-fd'' [])) (\<lambda>_.
     andThen (closeSocketPair et K sockPair) (\<lambda>_.
     andThen (forEach argv (target_mkdir et K)) (\<lambda>_.
     andThen (say ''\<newline>T: terminating\<newline>'' []) (\<lambda>_.
     exit_process EXIT_SUCCESS)))))))))))))"

text \<open>The delay before a response, with a check of the notification before and after.\<close>

definition cookie_or_exit ::
  "err_texts \<Rightarrow> 'w nkernel \<Rightarrow> int \<Rightarrow> 64 word \<Rightarrow> ('w process, unit) program" where
  "cookie_or_exit et K notifyFd i = andThen (cookieIsValid K notifyFd i) (\<lambda>ok.
     if \<not> ok
     then andThen (perror et (TAB # ''S: notification ID check failed!!!'')) (\<lambda>_. exit_process EXIT_FAILURE)
     else ret ())"

definition delay_phase ::
  "err_texts \<Rightarrow> 'w nkernel \<Rightarrow> int \<Rightarrow> cmdLineOpts \<Rightarrow> seccomp_notif \<Rightarrow> ('w process, unit) program" where
  "delay_phase et K notifyFd opts req =
     (if delaySecs opts > 0
      then seqs [
        say (TAB # ''S: delaying for %d seconds:'') [FInt (delaySecs opts)],
        cookie_or_exit et K notifyFd (req_id req),
        forEach (rev [1..<Suc (nat (delaySecs opts))]) (\<lambda>d.
          andThen (say '' %d'' [FInt (int d)]) (\<lambda>_. modify (\<lambda>s. s\<lparr>world := nk_sleep K (world s)\<rparr>))),
        say ''\<newline>'' [],
        cookie_or_exit et K notifyFd (req_id req)]
      else ret ())"

text \<open>The response to a notification; the fields \<open>id\<close>, \<open>flags\<close> and \<open>val\<close> are filled in first.\<close>

definition blank_resp :: "seccomp_notif \<Rightarrow> seccomp_notif_resp" where
  "blank_resp req = \<lparr>resp_id = req_id req, resp_val = 0, resp_error = 0, resp_flags = 0\<rparr>"

abbreviation (input) EOPNOTSUPP_NR :: int where "EOPNOTSUPP_NR \<equiv> 95"

definition mkdir_response ::
  "err_texts \<Rightarrow> 'w nkernel \<Rightarrow> seccomp_notif \<Rightarrow> int \<Rightarrow> string \<Rightarrow> ('w process, seccomp_notif_resp) program" where
  "mkdir_response et K req pathStatus path =
     (let resp = blank_resp req; mode = args (req_data req) 1 in
      if pathStatus \<noteq> 0
      then andThen (say (TAB # ''S: spoofing error for invalid pathname (%s)\<newline>'')
                     [FStr (strerror et (errnum EINVAL))])
             (\<lambda>_. ret (resp\<lparr>resp_error := - errnum EINVAL\<rparr>))
      else if strncmp_eq (c_string path) ''/tmp/'' 5
      then andThen (say (TAB # ''S: executing: mkdir(\"%s\", %#llo)\<newline>'') [FStr (c_string path), FInt (uint mode)]) (\<lambda>_.
           andThen (syscall (nk_mkdir K (c_string path) mode)) (\<lambda>r.
           if r = Some 0
           then (let v = int (length (c_string path)) in
                 andThen (say (TAB # ''S: success! spoofed return = %lld\<newline>'') [FInt v])
                   (\<lambda>_. ret (resp\<lparr>resp_error := 0, resp_val := v\<rparr>)))
           else andThen (query p_errno) (\<lambda>e.
                andThen (say (TAB # ''S: failure! (errno = %d; %s)\<newline>'') [FInt (errnum e), FStr (strerror et (errnum e))])
                  (\<lambda>_. ret (resp\<lparr>resp_error := - errnum e\<rparr>)))))
      else if strncmp_eq (c_string path) ''./'' 2
      then andThen (say (TAB # ''S: target can execute system call\<newline>'') [])
             (\<lambda>_. ret (resp\<lparr>resp_error := 0, resp_val := 0, resp_flags := SECCOMP_USER_NOTIF_FLAG_CONTINUE\<rparr>))
      else andThen (say (TAB # ''S: spoofing error response (%s)\<newline>'') [FStr (strerror et EOPNOTSUPP_NR)])
             (\<lambda>_. ret (resp\<lparr>resp_error := - EOPNOTSUPP_NR\<rparr>)))"

definition send_response ::
  "err_texts \<Rightarrow> 'w nkernel \<Rightarrow> int \<Rightarrow> seccomp_notif_resp \<Rightarrow> ('w process, unit) program" where
  "send_response et K notifyFd resp =
     andThen (say (TAB # ''S: sending response (flags = %#x; val = %lld; error = %d)\<newline>'')
                [FInt (uint (resp_flags resp)), FInt (resp_val resp), FInt (resp_error resp)]) (\<lambda>_.
     andThen (syscall (nk_send K notifyFd resp)) (\<lambda>r.
     if r = None
     then andThen (query p_errno) (\<lambda>e.
          if e = ENOENT
          then say (TAB # ''S: response failed with ENOENT; perhaps target process's syscall was interrupted by a signal?\<newline>'') []
          else perror et ''ioctl-SECCOMP_IOCTL_NOTIF_SEND'')
     else ret ()))"

text \<open>Waiting for a notification: \<open>None\<close> is an interrupted call, after which the loop starts over.\<close>

definition receive_notification ::
  "err_texts \<Rightarrow> 'w nkernel \<Rightarrow> int \<Rightarrow> 32 word \<Rightarrow> ('w process, seccomp_notif option) program" where
  "receive_notification et K notifyFd expected =
     andThen (syscall (nk_recv K notifyFd)) (\<lambda>r. case r of
       None \<Rightarrow> andThen (query p_errno) (\<lambda>e.
         if e = EINTR then ret None else errExit et ''ioctl-SECCOMP_IOCTL_NOTIF_RECV'' [])
     | Some req \<Rightarrow>
         andThen (say (TAB # ''S: got notification (ID %#llx) for PID %d\<newline>'') [FInt (uint (req_id req)), FInt (req_pid req)]) (\<lambda>_.
         if nr (req_data req) \<noteq> expected
         then andThen (say (TAB # ''S: notification contained unexpected system call number; bye!!!\<newline>'') [])
                (\<lambda>_. exit_process EXIT_FAILURE)
         else ret (Some req)))"

text \<open>One iteration: the new buffer, and whether the loop goes on. \<open>respbuf\<close> is the buffer of the
  response, \<open>None\<close> for a null pointer.\<close>

definition mkdir_iteration ::
  "err_texts \<Rightarrow> 'w nkernel \<Rightarrow> nat option \<Rightarrow> int \<Rightarrow> cmdLineOpts \<Rightarrow> string \<Rightarrow> ('w process, string \<times> bool) program" where
  "mkdir_iteration et K respbuf notifyFd opts path =
     andThen (receive_notification et K notifyFd NR_mkdir) (\<lambda>r. case r of
       None \<Rightarrow> ret (path, True)
     | Some req \<Rightarrow>
         andThen (delay_phase et K notifyFd opts req) (\<lambda>_.
         andThen (getTargetPathname K req notifyFd 0 path) (\<lambda>(pathStatus, path').
         if respbuf = None then halts Undefined
         else
         andThen (mkdir_response et K req pathStatus path') (\<lambda>resp.
         andThen (send_response et K notifyFd resp) (\<lambda>_.
         if \<not> terminated path' then halts Undefined
         else ret (path', c_string path' \<noteq> ''/bye''))))))"

fun mkdir_loop ::
  "nat \<Rightarrow> err_texts \<Rightarrow> 'w nkernel \<Rightarrow> nat option \<Rightarrow> int \<Rightarrow> cmdLineOpts \<Rightarrow> string \<Rightarrow> ('w process, unit option) program" where
  "mkdir_loop 0 et K respbuf notifyFd opts path = ret None"
| "mkdir_loop (Suc n) et K respbuf notifyFd opts path =
     andThen (mkdir_iteration et K respbuf notifyFd opts path) (\<lambda>(path', go_on).
       if go_on then mkdir_loop n et K respbuf notifyFd opts path' else ret (Some ()))"

text \<open>\<open>junk\<close> is what the uninitialised buffer holds.\<close>

definition handleNotifications_mkdir ::
  "nat \<Rightarrow> err_texts \<Rightarrow> 'w nkernel \<Rightarrow> string \<Rightarrow> int \<Rightarrow> cmdLineOpts \<Rightarrow> ('w process, unit option) program" where
  "handleNotifications_mkdir n et K junk notifyFd opts =
     andThen (allocSeccompNotifBuffers et K) (\<lambda>(req, resp).
     andThen (mkdir_loop n et K resp notifyFd opts junk) (\<lambda>r. case r of
       None \<Rightarrow> ret None
     | Some _ \<Rightarrow> andThen (say (TAB # ''S: terminating **********\<newline>'') []) (\<lambda>_. exit_process EXIT_FAILURE)))"

definition supervisor_mkdir ::
  "nat \<Rightarrow> err_texts \<Rightarrow> 'w nkernel \<Rightarrow> string \<Rightarrow> int \<times> int \<Rightarrow> cmdLineOpts \<Rightarrow> ('w process, unit option) program" where
  "supervisor_mkdir n et K junk sockPair opts =
     andThen (recvfd (nk_recvmsg K) (snd sockPair)) (\<lambda>notifyFd.
     andThen (if notifyFd = - 1 then errExit et ''recvfd'' [] else ret ()) (\<lambda>_.
     andThen (closeSocketPair et K sockPair) (\<lambda>_.
     handleNotifications_mkdir n et K junk notifyFd opts)))"

definition usageError_mkdir :: "string option \<Rightarrow> string \<Rightarrow> ('w process, 'a) program" where
  "usageError_mkdir msg pname =
     andThen (case msg of Some m \<Rightarrow> eprintf ''%s\<newline>'' [FStr m] | None \<Rightarrow> ret ()) (\<lambda>_.
     andThen (seqs [
       eprintf ''Usage: %s [options] <dir> <dir>...\<newline>'' [FStr pname],
       eprintf ''      Options\<newline>'' [],
       eprintf ''      -d <nsecs>    Supervisor delays 'nsecs' before inspecting target\<newline>'' [],
       eprintf ''      -f <val>      Install second filter whose return value is:\<newline>'' [],
       eprintf ''                    'e' - SECCOMP_RET_ERRNO\<newline>'' [],
       eprintf ''                    't' - SECCOMP_RET_TRACE\<newline>'' []]) (\<lambda>_.
     exit_process EXIT_FAILURE))"

fun mkdir_options ::
  "string \<Rightarrow> (char \<times> string) list \<Rightarrow> cmdLineOpts \<Rightarrow> ('w process, cmdLineOpts) program" where
  "mkdir_options pname [] opts = ret opts"
| "mkdir_options pname ((opt, optarg) # os) opts =
     (if opt = CHR ''f''
      then (if cchar_at optarg 0 = CHR ''e'' then mkdir_options pname os (opts\<lparr>secondFilter := uint SECCOMP_RET_ERRNO\<rparr>)
            else if cchar_at optarg 0 = CHR ''t'' then mkdir_options pname os (opts\<lparr>secondFilter := uint SECCOMP_RET_TRACE\<rparr>)
            else usageError_mkdir (Some ''Bad value for -f'') pname)
      else if opt = CHR ''d'' then mkdir_options pname os (opts\<lparr>delaySecs := atoi optarg\<rparr>)
      else usageError_mkdir (Some ''Bad option'') pname)"

definition parseCommandLineOptions ::
  "string list \<Rightarrow> ('w process, cmdLineOpts \<times> string list) program" where
  "parseCommandLineOptions argv =
     (let (os, operands) = getopt ''d:f:'' (drop 1 argv) in
      andThen (mkdir_options (argv ! 0) os \<lparr>delaySecs = 0, secondFilter = - 1\<rparr>) (\<lambda>opts.
      if operands = []
      then usageError_mkdir (Some ''At least one pathname argument should be supplied'') (argv ! 0)
      else ret (opts, operands)))"

definition main_unotify_mkdir ::
  "nat \<Rightarrow> err_texts \<Rightarrow> 'w nkernel \<Rightarrow> string \<Rightarrow> string list \<Rightarrow> ('w process, unit option) program" where
  "main_unotify_mkdir n et K junk argv =
     andThen (parseCommandLineOptions argv) (\<lambda>(opts, dirs).
     andThen (or_die (syscall (nk_socketpair K)) (errExit et ''socketpair'' [])) (\<lambda>sockPair.
     andThen (targetProcess et K sockPair dirs opts) (\<lambda>_.
     andThen (or_die (syscall (nk_sigaction K 17 ''sigchldHandler'')) (errExit et ''sigaction'' [])) (\<lambda>_.
     andThen (supervisor_mkdir n et K junk sockPair opts) (\<lambda>r. case r of
       None \<Rightarrow> ret None
     | Some _ \<Rightarrow> exit_process EXIT_SUCCESS)))))"

section \<open>\<open>seccomp_unotify_openat.c\<close>\<close>

definition installNotifyFilter_openat :: "err_texts \<Rightarrow> 'w nkernel \<Rightarrow> ('w process, int) program" where
  "installNotifyFilter_openat et K = installNotifyFilter_with et K openat_notify_filter"

text \<open>Copying the file the target has opened, until \<open>read\<close> returns 0 or fails; \<open>n\<close> bounds the number
  of reads.\<close>

fun copy_out :: "nat \<Rightarrow> 'w nkernel \<Rightarrow> int \<Rightarrow> ('w process, unit option) program" where
  "copy_out 0 K fd = ret None"
| "copy_out (Suc n) K fd =
     andThen (syscall (nk_read K fd 100)) (\<lambda>r. case r of
       None \<Rightarrow> ret (Some ())
     | Some [] \<Rightarrow> ret (Some ())
     | Some bs \<Rightarrow> andThen (syscall (nk_write K 1 bs)) (\<lambda>_. copy_out n K fd))"

definition target_openat :: "nat \<Rightarrow> err_texts \<Rightarrow> 'w nkernel \<Rightarrow> string \<Rightarrow> ('w process, unit option) program" where
  "target_openat n et K ap =
     andThen (say ''\<newline>T: about to openat(\"%s\")\<newline>'' [FStr ap]) (\<lambda>_.
     andThen (syscall (nk_openat K (word_of_int (- 100)) ap (ucast (O_CREAT OR O_RDWR)) 0x180)) (\<lambda>r. case r of
       None \<Rightarrow> andThen (perror et ''T: ERROR: openat(2)'') (\<lambda>_. ret (Some ()))
     | Some fd \<Rightarrow>
         andThen (say ''T: SUCCESS: openat(2) returned %d\<newline>'' [FInt fd]) (\<lambda>_.
         andThen (copy_out n K fd) (\<lambda>r. case r of
           None \<Rightarrow> ret None
         | Some _ \<Rightarrow>
             andThen (syscall (nk_write K 1 ''==========\<newline>'')) (\<lambda>_.
             andThen (syscall (nk_close K fd)) (\<lambda>_. ret (Some ())))))))"

fun target_openat_all ::
  "nat \<Rightarrow> err_texts \<Rightarrow> 'w nkernel \<Rightarrow> string list \<Rightarrow> ('w process, unit option) program" where
  "target_openat_all n et K [] = ret (Some ())"
| "target_openat_all n et K (ap # aps) =
     andThen (target_openat n et K ap) (\<lambda>r. case r of
       None \<Rightarrow> ret None
     | Some _ \<Rightarrow> target_openat_all n et K aps)"

definition targetProcess_openat ::
  "nat \<Rightarrow> err_texts \<Rightarrow> 'w nkernel \<Rightarrow> int \<times> int \<Rightarrow> string list \<Rightarrow> ('w process, int option) program" where
  "targetProcess_openat n et K sockPair argv =
     andThen (or_die (syscall (nk_fork K)) (errExit et ''fork'' [])) (\<lambda>targetPid.
     if targetPid > 0 then ret (Some targetPid)
     else
     andThen (query (\<lambda>s. nk_getpid K (world s))) (\<lambda>pid.
     andThen (say ''T: PID = %ld\<newline>'' [FInt pid]) (\<lambda>_.
     andThen (or_die (syscall (nk_prctl_no_new_privs K)) (errExit et ''prctl'' [])) (\<lambda>_.
     andThen (installNotifyFilter_openat et K) (\<lambda>notifyFd.
     andThen (sendfd (nk_sendmsg K) (fst sockPair) notifyFd) (\<lambda>r.
     andThen (if r = - 1 then errExit et ''sendfd'' [] else ret ()) (\<lambda>_.
     andThen (or_die (syscall (nk_close K notifyFd)) (errExit et ''close-target-notify-fd'' [])) (\<lambda>_.
     andThen (closeSocketPair et K sockPair) (\<lambda>_.
     andThen (target_openat_all n et K argv) (\<lambda>r. case r of
       None \<Rightarrow> ret None
     | Some _ \<Rightarrow>
         andThen (say ''\<newline>T: terminating\<newline>'' []) (\<lambda>_.
         exit_process EXIT_SUCCESS)))))))))))"

text \<open>The supervisor opens the file itself and adds its descriptor to the target, as \<open>42 + fd\<close>.\<close>

definition openat_response ::
  "err_texts \<Rightarrow> 'w nkernel \<Rightarrow> int \<Rightarrow> seccomp_notif \<Rightarrow> int \<Rightarrow> string \<Rightarrow> ('w process, seccomp_notif_resp) program" where
  "openat_response et K notifyFd req pathStatus path =
     (let resp = blank_resp req; a = args (req_data req) in
      if pathStatus \<noteq> 0
      then andThen (say (TAB # ''S: spoofing error for invalid pathname (%s)\<newline>'')
                     [FStr (strerror et (errnum EINVAL))])
             (\<lambda>_. ret (resp\<lparr>resp_error := - errnum EINVAL\<rparr>))
      else andThen (say (TAB # ''S: executing: openat(%#llo, \"%s\", %#llo, %#llo)\<newline>'')
                     [FInt (uint (a 0)), FStr (c_string path), FInt (uint (a 2)), FInt (uint (a 3))]) (\<lambda>_.
           andThen (syscall (nk_openat K (a 0) (c_string path) (a 2) (a 3))) (\<lambda>r. case r of
             Some fd \<Rightarrow>
               andThen (or_die (syscall (nk_addfd K notifyFd
                   \<lparr>add_id = req_id req, add_flags = SECCOMP_ADDFD_FLAG_SETFD, add_srcfd = fd,
                    add_newfd = 42 + fd, add_newfd_flags = O_CLOEXEC\<rparr>))
                  (errExit et ''SECCOMP_IOCTL_NOTIF_ADDFD'' [])) (\<lambda>remoteFd.
               andThen (syscall (nk_close K fd)) (\<lambda>_.
               andThen (say (TAB # ''S: success! spoofed return = %lld\<newline>'') [FInt remoteFd]) (\<lambda>_.
               ret (resp\<lparr>resp_error := 0, resp_val := remoteFd\<rparr>))))
           | None \<Rightarrow>
               andThen (query p_errno) (\<lambda>e.
               andThen (say (TAB # ''S: failure! (errno = %d; %s)\<newline>'') [FInt (errnum e), FStr (strerror et (errnum e))])
                 (\<lambda>_. ret (resp\<lparr>resp_error := - errnum e\<rparr>))))))"

definition openat_iteration ::
  "err_texts \<Rightarrow> 'w nkernel \<Rightarrow> nat option \<Rightarrow> int \<Rightarrow> string \<Rightarrow> ('w process, string) program" where
  "openat_iteration et K respbuf notifyFd path =
     andThen (receive_notification et K notifyFd NR_openat_x86_64) (\<lambda>r. case r of
       None \<Rightarrow> ret path
     | Some req \<Rightarrow>
         andThen (getTargetPathname K req notifyFd 1 path) (\<lambda>(pathStatus, path').
         if respbuf = None then halts Undefined
         else
         andThen (openat_response et K notifyFd req pathStatus path') (\<lambda>resp.
         andThen (send_response et K notifyFd resp) (\<lambda>_. ret path'))))"

fun openat_loop ::
  "nat \<Rightarrow> err_texts \<Rightarrow> 'w nkernel \<Rightarrow> nat option \<Rightarrow> int \<Rightarrow> string \<Rightarrow> ('w process, unit option) program" where
  "openat_loop 0 et K respbuf notifyFd path = ret None"
| "openat_loop (Suc n) et K respbuf notifyFd path =
     andThen (openat_iteration et K respbuf notifyFd path) (\<lambda>path'.
       openat_loop n et K respbuf notifyFd path')"

definition handleNotifications_openat ::
  "nat \<Rightarrow> err_texts \<Rightarrow> 'w nkernel \<Rightarrow> string \<Rightarrow> int \<Rightarrow> ('w process, unit option) program" where
  "handleNotifications_openat n et K junk notifyFd =
     andThen (allocSeccompNotifBuffers et K) (\<lambda>(req, resp). openat_loop n et K resp notifyFd junk)"

definition supervisor_openat ::
  "nat \<Rightarrow> err_texts \<Rightarrow> 'w nkernel \<Rightarrow> string \<Rightarrow> int \<times> int \<Rightarrow> ('w process, unit option) program" where
  "supervisor_openat n et K junk sockPair =
     andThen (recvfd (nk_recvmsg K) (snd sockPair)) (\<lambda>notifyFd.
     andThen (if notifyFd = - 1 then errExit et ''recvfd'' [] else ret ()) (\<lambda>_.
     andThen (closeSocketPair et K sockPair) (\<lambda>_.
     handleNotifications_openat n et K junk notifyFd)))"

definition main_unotify_openat ::
  "nat \<Rightarrow> err_texts \<Rightarrow> 'w nkernel \<Rightarrow> string \<Rightarrow> string list \<Rightarrow> ('w process, unit option) program" where
  "main_unotify_openat n et K junk argv =
     andThen (or_die (syscall (nk_socketpair K)) (errExit et ''socketpair'' [])) (\<lambda>sockPair.
     andThen (targetProcess_openat n et K sockPair (drop 1 argv)) (\<lambda>r. case r of
       None \<Rightarrow> ret None
     | Some _ \<Rightarrow>
         andThen (or_die (syscall (nk_sigaction K 17 ''sigchldHandler'')) (errExit et ''sigaction'' [])) (\<lambda>_.
         andThen (supervisor_openat n et K junk sockPair) (\<lambda>r. case r of
           None \<Rightarrow> ret None
         | Some _ \<Rightarrow> exit_process EXIT_SUCCESS))))"

section \<open>Lemmas\<close>

lemma preserves_cookie [pres]:
  "(\<And>w. ob (snd (nk_id_valid K fd i w)) = ob w) \<Longrightarrow> preserves ob (cookieIsValid K fd i)"
  unfolding cookieIsValid_def by (intro pres)


lemma cookie_cases:
  obtains (valid) w where "nk_id_valid K fd i (world s) = (Inr (), w)"
      and "cookieIsValid K fd i s = (Inr True, s\<lparr>world := w\<rparr>)"
    | (stale) e w where "nk_id_valid K fd i (world s) = (Inl e, w)"
      and "cookieIsValid K fd i s = (Inr False, s\<lparr>p_errno := e, world := w\<rparr>)"
  by (rule syscall_cases[of "nk_id_valid K fd i" s])
    (use stale valid in \<open>auto simp: cookieIsValid_def andThen_run\<close>)

lemma syscall_Inr: "\<exists>r s'. syscall kc s = (Inr r, s')"
  by (rule syscall_cases[of kc s]) auto

text \<open>The five ways \<open>getTargetPathname\<close> ends.\<close>

lemma getTargetPathname_total:
  "\<exists>st path' s'. getTargetPathname K req fd a path s = (Inr (st, path'), s')
     \<and> st \<in> {0, GTP_BAD_READ, GTP_ID_NOT_VALID, GTP_BAD_PATH}"
  by (auto simp: getTargetPathname_def andThen_run Let_def syscall_def cookieIsValid_def
      split: prod.split sum.split option.split)

lemma getTargetPathname_preserves [pres]:
  assumes "\<And>p fl w. ob (snd (nk_open K p fl w)) = ob w" "\<And>fd n o' w. ob (snd (nk_pread K fd n o' w)) = ob w"
    "\<And>fd w. ob (snd (nk_close K fd w)) = ob w" "\<And>fd i w. ob (snd (nk_id_valid K fd i w)) = ob w"
  shows "preserves ob (getTargetPathname K req fd a path)"
  unfolding getTargetPathname_def Let_def using assms by (intro pres) auto

text \<open>What the supervisors do to the outside, as a trace of the calls that matter, with their results.\<close>

datatype nevent = EvMkdir string "64 word" "errno + int" | EvOpenat "64 word" string "64 word" "64 word" "errno + int"
  | EvAddfd seccomp_notif_addfd "errno + int" | EvSend seccomp_notif_resp

definition observed :: "'w nkernel \<Rightarrow> ('w \<Rightarrow> nevent list) \<Rightarrow> bool" where
  "observed K ev \<longleftrightarrow> (\<forall>w.
     (\<forall>p m. ev (snd (nk_mkdir K p m w)) = ev w @ [EvMkdir p m (fst (nk_mkdir K p m w))])
   \<and> (\<forall>d p fl m. ev (snd (nk_openat K d p fl m w)) = ev w @ [EvOpenat d p fl m (fst (nk_openat K d p fl m w))])
   \<and> (\<forall>fd a. ev (snd (nk_addfd K fd a w)) = ev w @ [EvAddfd a (fst (nk_addfd K fd a w))])
   \<and> (\<forall>fd r. ev (snd (nk_send K fd r w)) = ev w @ [EvSend r])
   \<and> (\<forall>fd. ev (snd (nk_recv K fd w)) = ev w) \<and> (\<forall>fd i. ev (snd (nk_id_valid K fd i w)) = ev w)
   \<and> (\<forall>p fl. ev (snd (nk_open K p fl w)) = ev w) \<and> (\<forall>fd. ev (snd (nk_close K fd w)) = ev w)
   \<and> (\<forall>fd n off. ev (snd (nk_pread K fd n off w)) = ev w) \<and> ev (nk_sleep K w) = ev w)"

lemma observed_silent:
  assumes "observed K ev"
  shows "ev (snd (nk_recv K fd w)) = ev w" "ev (snd (nk_id_valid K fd i w)) = ev w"
    "ev (snd (nk_open K p fl w)) = ev w" "ev (snd (nk_close K fd w)) = ev w"
    "ev (snd (nk_pread K fd n off w)) = ev w" "ev (nk_sleep K w) = ev w"
  using assms by (simp_all add: observed_def)

lemma observed_calls:
  assumes "observed K ev"
  shows "nk_mkdir K p m w = (r1, w1) \<Longrightarrow> ev w1 = ev w @ [EvMkdir p m r1]"
    "nk_openat K d p fl fm w = (r2, w2) \<Longrightarrow> ev w2 = ev w @ [EvOpenat d p fl fm r2]"
    "nk_addfd K fd a w = (r3, w3) \<Longrightarrow> ev w3 = ev w @ [EvAddfd a r3]"
    "nk_send K fd x w = (r4, w4) \<Longrightarrow> ev w4 = ev w @ [EvSend x]"
  using assms unfolding observed_def by (metis fst_conv snd_conv)+

lemma preserves_delay: "observed K ev \<Longrightarrow> preserves ev (delay_phase et K fd opts req)"
proof -
  assume ob: "observed K ev"
  then have sleep: "preserves ev (modify (\<lambda>s. s\<lparr>world := nk_sleep K (world s)\<rparr>))"
    by (simp add: preserves_def observed_silent)
  have "preserves ev (cookie_or_exit et K fd i)" for i
    unfolding cookie_or_exit_def using ob by (intro pres) (simp_all add: observed_silent)
  with sleep show ?thesis
    unfolding delay_phase_def by (intro preserves_if preserves_seqs) (auto intro!: pres)
qed

lemma preserves_target_path: "observed K ev \<Longrightarrow> preserves ev (getTargetPathname K req fd a path)"
  by (intro getTargetPathname_preserves) (simp_all add: observed_silent)

lemma preserves_receive: "observed K ev \<Longrightarrow> preserves ev (receive_notification et K fd n)"
  unfolding receive_notification_def by (intro pres) (simp_all add: observed_silent)

lemma send_response_trace:
  assumes "observed K ev" and "send_response et K fd resp s = (r, s')"
  shows "r = Inr () \<and> ev (world s') = ev (world s) @ [EvSend resp]"
proof -
  let ?s0 = "snd (say (TAB # ''S: sending response (flags = %#x; val = %lld; error = %d)\<newline>'')
                [FInt (uint (resp_flags resp)), FInt (resp_val resp), FInt (resp_error resp)] s)"
  have w0: "world ?s0 = world s" by simp
  obtain q w where send: "nk_send K fd resp (world s) = (q, w)" by fastforce
  have "ev w = ev (world s) @ [EvSend resp]" using observed_calls(4)[OF assms(1) send] .
  moreover have "r = Inr () \<and> world s' = w"
    using assms(2) send by (cases q) (auto simp: send_response_def andThen_run perror_run split: if_splits)
  ultimately show ?thesis by simp
qed

text \<open>What the supervisor of \<open>mkdir\<close> answers: the call it makes itself, if any, and the response.\<close>

definition mkdir_answer :: "seccomp_notif \<Rightarrow> int \<Rightarrow> string \<Rightarrow> nevent list \<Rightarrow> seccomp_notif_resp \<Rightarrow> bool" where
  "mkdir_answer req st path calls resp \<longleftrightarrow>
     resp_id resp = req_id req
   \<and> (if st = 0 \<and> take 5 path = ''/tmp/''
      then \<exists>q. calls = [EvMkdir path (args (req_data req) 1) q]
           \<and> (q = Inr 0 \<longrightarrow> resp = (blank_resp req)\<lparr>resp_val := int (length path)\<rparr>)
           \<and> (\<forall>e. q = Inl e \<longrightarrow> resp = (blank_resp req)\<lparr>resp_error := - errnum e\<rparr>)
      else calls = []
           \<and> (if st \<noteq> 0 then resp = (blank_resp req)\<lparr>resp_error := - errnum EINVAL\<rparr>
              else if take 2 path = ''./''
              then resp = (blank_resp req)\<lparr>resp_flags := SECCOMP_USER_NOTIF_FLAG_CONTINUE\<rparr>
              else resp = (blank_resp req)\<lparr>resp_error := - EOPNOTSUPP_NR\<rparr>))"

lemma mkdir_response_trace:
  assumes "observed K ev" and "mkdir_response et K req st path s = (r, s')"
  shows "\<exists>resp calls. r = Inr resp \<and> ev (world s') = ev (world s) @ calls
           \<and> mkdir_answer req st (c_string path) calls resp"
proof (cases "st = 0 \<and> take 5 (c_string path) = ''/tmp/''")
  case True
  obtain q w where mk: "nk_mkdir K (c_string path) (args (req_data req) 1) (world s) = (q, w)" by fastforce
  have "ev w = ev (world s) @ [EvMkdir (c_string path) (args (req_data req) 1) q]" using observed_calls(1)[OF assms(1) mk] .
  moreover have "world s' = w \<and> (\<exists>resp. r = Inr resp
      \<and> mkdir_answer req st (c_string path) [EvMkdir (c_string path) (args (req_data req) 1) q] resp)"
    using True mk assms(2)
    by (cases q) (auto simp: mkdir_response_def mkdir_answer_def strncmp_eq_def Let_def andThen_run
        blank_resp_def split: if_splits)
  ultimately show ?thesis by auto
next
  case False
  then have "world s' = world s \<and> (\<exists>resp. r = Inr resp \<and> mkdir_answer req st (c_string path) [] resp)"
    using assms(2)
    by (auto simp: mkdir_response_def mkdir_answer_def strncmp_eq_def Let_def andThen_run
        blank_resp_def split: if_splits)
  then show ?thesis by auto
qed

lemma receive_None: "receive_notification et K fd n s = (Inr None, s1) \<Longrightarrow> \<exists>w. nk_recv K fd (world s) = (Inl EINTR, w)"
  by (auto simp: receive_notification_def andThen_run syscall_def errExit_run
      split: prod.splits sum.splits option.splits if_splits)

lemma receive_Some:
  "receive_notification et K fd n s = (Inr (Some req), s1) \<Longrightarrow>
   nk_recv K fd (world s) = (Inr req, world s1) \<and> nr (req_data req) = n"
  by (auto simp: receive_notification_def andThen_run syscall_def errExit_run
      split: prod.splits sum.splits option.splits if_splits)

lemma mkdir_iteration_trace:
  assumes "observed K ev" and "mkdir_iteration et K (Some b) fd opts path s = (Inr (path', go_on), s')"
  shows "(\<exists>w. nk_recv K fd (world s) = (Inl EINTR, w)) \<and> ev (world s') = ev (world s) \<and> path' = path \<and> go_on
    \<or> (\<exists>req s1 s2 st s3 calls resp. nk_recv K fd (world s) = (Inr req, world s1) \<and> nr (req_data req) = NR_mkdir
        \<and> delay_phase et K fd opts req s1 = (Inr (), s2) \<and> getTargetPathname K req fd 0 path s2 = (Inr (st, path'), s3)
        \<and> ev (world s') = ev (world s) @ calls @ [EvSend resp] \<and> mkdir_answer req st (c_string path') calls resp
        \<and> go_on = (c_string path' \<noteq> ''/bye''))"
  using assms(2) unfolding mkdir_iteration_def
proof (elim andThen_InrE)
  fix r s1
  assume recv: "receive_notification et K fd NR_mkdir s = (Inr r, s1)"
    and rest: "(case r of None \<Rightarrow> ret (path, True)
     | Some req \<Rightarrow> andThen (delay_phase et K fd opts req) (\<lambda>_.
         andThen (getTargetPathname K req fd 0 path) (\<lambda>(pathStatus, path').
         if Some b = None then halts Undefined
         else andThen (mkdir_response et K req pathStatus path') (\<lambda>resp.
         andThen (send_response et K fd resp) (\<lambda>_.
         if \<not> terminated path' then halts Undefined
         else ret (path', c_string path' \<noteq> ''/bye'')))))) s1 = (Inr (path', go_on), s')"
  have e1: "ev (world s1) = ev (world s)"
    using preservesD[OF preserves_receive[OF assms(1)] recv] .
  show ?thesis
  proof (cases r)
    case None
    with rest e1 receive_None recv show ?thesis by auto
  next
    case (Some req)
    note req = receive_Some[OF recv[unfolded Some]]
    from rest Some obtain s2 st p s3 resp s4 s5 where
      2: "delay_phase et K fd opts req s1 = (Inr (), s2)" and
      3: "getTargetPathname K req fd 0 path s2 = (Inr (st, p), s3)" and
      4: "mkdir_response et K req st p s3 = (Inr resp, s4)" and
      5: "send_response et K fd resp s4 = (Inr (), s5)" and
      6: "path' = p" "go_on = (c_string p \<noteq> ''/bye'')" "s' = s5"
      by (auto elim!: andThen_InrE split: if_splits)
    have "ev (world s2) = ev (world s1)" using preservesD[OF preserves_delay[OF assms(1)] 2] .
    moreover have "ev (world s3) = ev (world s2)" using preservesD[OF preserves_target_path[OF assms(1)] 3] .
    moreover from mkdir_response_trace[OF assms(1) 4] obtain calls where
      "ev (world s4) = ev (world s3) @ calls" and ans: "mkdir_answer req st (c_string p) calls resp" by auto
    moreover have "ev (world s5) = ev (world s4) @ [EvSend resp]" using send_response_trace[OF assms(1) 5] by simp
    ultimately have "ev (world s') = ev (world s) @ calls @ [EvSend resp]" using e1 6(3) by simp
    moreover have "nk_recv K fd (world s) = (Inr req, world s1)" using req by simp
    ultimately show ?thesis using ans req 2 3[folded 6(1)] 6 by blast
  qed
qed

text \<open>What the supervisor of \<open>openat\<close> answers.\<close>

definition openat_call :: "seccomp_notif \<Rightarrow> string \<Rightarrow> errno + int \<Rightarrow> nevent" where
  "openat_call req path q = EvOpenat (args (req_data req) 0) path (args (req_data req) 2) (args (req_data req) 3) q"

definition openat_answer :: "seccomp_notif \<Rightarrow> int \<Rightarrow> string \<Rightarrow> nevent list \<Rightarrow> seccomp_notif_resp \<Rightarrow> bool" where
  "openat_answer req st path calls resp \<longleftrightarrow>
     (if st \<noteq> 0 then calls = [] \<and> resp = (blank_resp req)\<lparr>resp_error := - errnum EINVAL\<rparr>
      else (\<exists>e. calls = [openat_call req path (Inl e)] \<and> resp = (blank_resp req)\<lparr>resp_error := - errnum e\<rparr>)
         \<or> (\<exists>fd rfd. calls = [openat_call req path (Inr fd), EvAddfd \<lparr>add_id = req_id req,
                add_flags = SECCOMP_ADDFD_FLAG_SETFD, add_srcfd = fd, add_newfd = 42 + fd, add_newfd_flags = O_CLOEXEC\<rparr> (Inr rfd)]
              \<and> resp = (blank_resp req)\<lparr>resp_val := rfd\<rparr>))"

lemma openat_response_trace:
  assumes ob: "observed K ev" and run: "openat_response et K nfd req st path s = (Inr resp, s')"
  shows "\<exists>calls. ev (world s') = ev (world s) @ calls \<and> openat_answer req st (c_string path) calls resp"
proof (cases "st = 0")
  case False
  then show ?thesis
    using run by (auto simp: openat_response_def openat_answer_def Let_def andThen_run blank_resp_def)
next
  case st: True
  let ?a = "args (req_data req)"
  let ?add = "\<lambda>fd. \<lparr>add_id = req_id req, add_flags = SECCOMP_ADDFD_FLAG_SETFD, add_srcfd = fd,
                   add_newfd = 42 + fd, add_newfd_flags = O_CLOEXEC\<rparr>"
  obtain q w where op: "nk_openat K (?a 0) (c_string path) (?a 2) (?a 3) (world s) = (q, w)" by fastforce
  have e1: "ev w = ev (world s) @ [openat_call req (c_string path) q]"
    unfolding openat_call_def using observed_calls(2)[OF ob op] .
  show ?thesis
  proof (cases q)
    case (Inl e)
    then show ?thesis
      using run st op e1 by (auto simp: openat_response_def openat_answer_def Let_def andThen_run blank_resp_def)
  next
    case (Inr fd)
    obtain q2 w2 where ad: "nk_addfd K nfd (?add fd) w = (q2, w2)" by fastforce
    have e2: "ev w2 = ev w @ [EvAddfd (?add fd) q2]" using observed_calls(3)[OF ob ad] .
    obtain q3 w3 where cl: "nk_close K fd w2 = (q3, w3)" by fastforce
    have e3: "ev w3 = ev w2" using observed_silent(4)[OF ob, of fd w2] cl by simp
    from run st op Inr ad cl obtain rfd where "q2 = Inr rfd" "world s' = w3" "resp = (blank_resp req)\<lparr>resp_val := rfd\<rparr>"
      by (cases q2; cases q3) (auto simp: openat_response_def Let_def andThen_run errExit_run blank_resp_def)
    with e1 e2 e3 st Inr show ?thesis by (auto simp: openat_answer_def)
  qed
qed

lemma openat_iteration_trace:
  assumes ob: "observed K ev" and run: "openat_iteration et K (Some b) fd path s = (Inr path', s')"
  shows "(\<exists>w. nk_recv K fd (world s) = (Inl EINTR, w)) \<and> ev (world s') = ev (world s) \<and> path' = path
    \<or> (\<exists>req s1 st s2 calls resp. nk_recv K fd (world s) = (Inr req, world s1) \<and> nr (req_data req) = NR_openat_x86_64
        \<and> getTargetPathname K req fd 1 path s1 = (Inr (st, path'), s2)
        \<and> ev (world s') = ev (world s) @ calls @ [EvSend resp] \<and> openat_answer req st (c_string path') calls resp)"
proof -
  from run obtain r s1 where recv: "receive_notification et K fd NR_openat_x86_64 s = (Inr r, s1)"
    and rest: "(case r of None \<Rightarrow> ret path
     | Some req \<Rightarrow> andThen (getTargetPathname K req fd 1 path) (\<lambda>(pathStatus, path').
         andThen (openat_response et K fd req pathStatus path') (\<lambda>resp.
         andThen (send_response et K fd resp) (\<lambda>_. ret path')))) s1 = (Inr path', s')"
    unfolding openat_iteration_def by (auto elim!: andThen_InrE cong: option.case_cong)
  have e1: "ev (world s1) = ev (world s)" using preservesD[OF preserves_receive[OF ob] recv] .
  show ?thesis
  proof (cases r)
    case None
    with rest e1 receive_None recv show ?thesis by auto
  next
    case (Some req)
    note req = receive_Some[OF recv[unfolded Some]]
    from rest Some obtain st s2 resp s3 where
      2: "getTargetPathname K req fd 1 path s1 = (Inr (st, path'), s2)" and
      3: "openat_response et K fd req st path' s2 = (Inr resp, s3)" and
      4: "send_response et K fd resp s3 = (Inr (), s')"
      by (auto elim!: andThen_InrE)
    have "ev (world s2) = ev (world s1)" using preservesD[OF preserves_target_path[OF ob] 2] .
    moreover from openat_response_trace[OF ob 3] obtain calls where
      "ev (world s3) = ev (world s2) @ calls" and "openat_answer req st (c_string path') calls resp" by auto
    moreover have "ev (world s') = ev (world s3) @ [EvSend resp]" using send_response_trace[OF ob 4] by simp
    ultimately have "ev (world s') = ev (world s) @ calls @ [EvSend resp] \<and> openat_answer req st (c_string path') calls resp"
      using e1 by simp
    with req 2 show ?thesis by blast
  qed
qed

text \<open>A concrete kernel: the world is the trace, one notification is always pending, and the memory of
  the target holds \<open>mem\<close> at every address.\<close>

definition demo_nkernel :: "seccomp_notif \<Rightarrow> string \<Rightarrow> nevent list nkernel" where
  "demo_nkernel req mem = \<lparr>
     nk_recv = (\<lambda>fd w. (Inr req, w)), nk_send = (\<lambda>fd r w. (Inr (), w @ [EvSend r])),
     nk_id_valid = (\<lambda>fd i w. (Inr (), w)), nk_addfd = (\<lambda>fd a w. (Inr (add_newfd a), w @ [EvAddfd a (Inr (add_newfd a))])),
     nk_get_sizes = (\<lambda>w. (Inr \<lparr>size_notif = 80, size_notif_resp = 24\<rparr>, w)), nk_alloc_ok = (\<lambda>w n. True),
     nk_open = (\<lambda>p fl w. (Inr 5, w)), nk_openat = (\<lambda>d p fl m w. (Inr 6, w @ [EvOpenat d p fl m (Inr 6)])),
     nk_pread = (\<lambda>fd n off w. (Inr (take n mem), w)), nk_read = (\<lambda>fd n w. (Inr [], w)),
     nk_write = (\<lambda>fd bs w. (Inr (int (length bs)), w)), nk_close = (\<lambda>fd w. (Inr (), w)),
     nk_mkdir = (\<lambda>p m w. (Inr 0, w @ [EvMkdir p m (Inr 0)])), nk_sleep = (\<lambda>w. w), nk_fork = (\<lambda>w. (Inr 9, w)),
     nk_getpid = (\<lambda>w. 8), nk_sigaction = (\<lambda>n h w. (Inr (), w)), nk_prctl_no_new_privs = (\<lambda>w. (Inr (), w)),
     nk_seccomp_listener = (\<lambda>p w. (Inr 7, w)), nk_seccomp_filter = (\<lambda>p w. (Inr (), w)),
     nk_socketpair = (\<lambda>w. (Inr (3, 4), w)), nk_sendmsg = (\<lambda>fd m w. (Inr 4, w)),
     nk_recvmsg = (\<lambda>fd w. (Inr (fd_message 7), w))\<rparr>"

lemma demo_observed: "observed (demo_nkernel req mem) (\<lambda>w. w)"
  by (simp add: observed_def demo_nkernel_def)

definition demo_req :: "32 word \<Rightarrow> seccomp_notif" where
  "demo_req n = \<lparr>req_id = 77, req_pid = 8,
     req_data = \<lparr>nr = n, arch = AUDIT_ARCH_X86_64, instruction_pointer = 0, args = (\<lambda>_. 0)\<rparr>\<rparr>"

lemma mkdir_iteration_demo:
  "mkdir_iteration et (demo_nkernel (demo_req NR_mkdir) (''/tmp/x'' @ [NUL])) (Some 24) 7 \<lparr>delaySecs = 0, secondFilter = - 1\<rparr>
     (replicate 10 NUL) s =
   (Inr (''/tmp/x'' @ replicate 4 NUL, True),
    snd (mkdir_iteration et (demo_nkernel (demo_req NR_mkdir) (''/tmp/x'' @ [NUL])) (Some 24) 7
      \<lparr>delaySecs = 0, secondFilter = - 1\<rparr> (replicate 10 NUL) s))"
  by (simp add: mkdir_iteration_def receive_notification_def delay_phase_def getTargetPathname_def
      cookieIsValid_def mkdir_response_def send_response_def demo_nkernel_def demo_req_def andThen_run syscall_def
      terminated_def c_string_def strncmp_eq_def Let_def numeral_eq_Suc)

section \<open>Properties\<close>

text \<open>C17: \<open>getTargetPathname\<close> reports success only for a path name that was read from the memory of the
  notified process while the notification was valid: the check of the notification succeeds both
  after the memory file was opened and after it was read, and what was read is a terminated
  string. On every other way through, it returns one of its three error codes; it never ends the
  process.\<close>
theorem getTargetPathname_checked:
  "\<exists>st path' s'. getTargetPathname K req fd a path s = (Inr (st, path'), s')
    \<and> st \<in> {0, GTP_BAD_READ, GTP_ID_NOT_VALID, GTP_BAD_PATH}
    \<and> (st = 0 \<longrightarrow> (\<exists>mem bs w1 w2 w3 w4 c.
        nk_open K (snprintf_buf PATH_MAX (''/proc/'' @ show_int (req_pid req) @ ''/mem'')) O_CLOEXEC (world s) = (Inr mem, w1)
      \<and> nk_id_valid K fd (req_id req) w1 = (Inr (), w2)
      \<and> nk_pread K mem (length path) (args (req_data req) a) w2 = (Inr bs, w3)
      \<and> nk_close K mem w3 = (c, w4)
      \<and> nk_id_valid K fd (req_id req) w4 = (Inr (), world s')
      \<and> NUL \<in> set bs \<and> c_string path' = c_string bs))"
  by (auto simp: getTargetPathname_def andThen_run Let_def syscall_def cookieIsValid_def terminated_def
      c_string_append split: prod.split sum.split option.split if_splits)

theorem getTargetPathname_checked_witness:
  "\<exists>path' s'. getTargetPathname (demo_nkernel (demo_req NR_mkdir) (''/tmp/x'' @ [NUL])) (demo_req NR_mkdir) 7 0 (replicate 10 NUL)
      \<lparr>environment = [], p_errno = E_OK, pending = [], written = [], world = []\<rparr> = (Inr (0, path'), s')
    \<and> c_string path' = ''/tmp/x''"
proof -
  let ?K = "demo_nkernel (demo_req NR_mkdir) (''/tmp/x'' @ [NUL])"
  let ?s = "\<lparr>environment = [], p_errno = E_OK, pending = [], written = [], world = []\<rparr>"
  have "fst (getTargetPathname ?K (demo_req NR_mkdir) 7 0 (replicate 10 NUL) ?s) =
      Inr (0, ''/tmp/x'' @ replicate 4 NUL)"
    by (simp add: getTargetPathname_def cookieIsValid_def demo_nkernel_def andThen_run syscall_def terminated_def
        Let_def numeral_eq_Suc)
  with getTargetPathname_checked[of ?K "demo_req NR_mkdir" 7 0 "replicate 10 NUL" ?s]
  show ?thesis by (auto simp: demo_nkernel_def c_string_def)
qed

text \<open>C18: The supervisor of \<open>mkdir\<close>. An iteration either just restarts a wait that a signal interrupted, or it
  takes the notification the kernel delivers, waits, reads the path name of its target with
  \<open>getTargetPathname\<close>, and sends exactly one response, to that notification, as its last action.
  It calls \<open>mkdir\<close> itself only if the path name was read successfully and begins with \<open>/tmp/\<close>, once,
  with the mode of the target, and the response carries the result; it lets the target continue only for
  a path name read successfully that begins with \<open>./\<close>; any other valid name is refused with \<open>EOPNOTSUPP\<close>,
  and a notification whose path name could not be read or checked is refused with \<open>EINVAL\<close>. It leaves the
  loop only when the buffer holds \<open>/bye\<close>.\<close>
theorem mkdir_supervisor_policy:
  assumes "observed K ev" and "mkdir_iteration et K (Some b) fd opts path s = (Inr (path', go_on), s')"
  shows "(\<exists>w. nk_recv K fd (world s) = (Inl EINTR, w)) \<and> ev (world s') = ev (world s) \<and> path' = path \<and> go_on
    \<or> (\<exists>req s1 s2 st s3 calls resp. nk_recv K fd (world s) = (Inr req, world s1) \<and> nr (req_data req) = NR_mkdir
        \<and> delay_phase et K fd opts req s1 = (Inr (), s2) \<and> getTargetPathname K req fd 0 path s2 = (Inr (st, path'), s3)
        \<and> ev (world s') = ev (world s) @ calls @ [EvSend resp] \<and> mkdir_answer req st (c_string path') calls resp
        \<and> go_on = (c_string path' \<noteq> ''/bye''))"
  by (rule mkdir_iteration_trace[OF assms])

theorem mkdir_supervisor_policy_witness:
  "\<exists>s'. mkdir_iteration no_texts (demo_nkernel (demo_req NR_mkdir) (''/tmp/x'' @ [NUL]))
       (Some 24) 7 \<lparr>delaySecs = 0, secondFilter = - 1\<rparr> (replicate 10 NUL)
       \<lparr>environment = [], p_errno = E_OK, pending = [], written = [], world = []\<rparr>
     = (Inr (''/tmp/x'' @ replicate 4 NUL, True), s')
     \<and> (\<exists>st calls resp. world s' = calls @ [EvSend resp] \<and> mkdir_answer (demo_req NR_mkdir) st ''/tmp/x'' calls resp)"
proof -
  let ?K = "demo_nkernel (demo_req NR_mkdir) (''/tmp/x'' @ [NUL])"
  let ?s = "\<lparr>environment = [], p_errno = E_OK, pending = [], written = [], world = []\<rparr>"
  let ?p = "''/tmp/x'' @ replicate 4 NUL"
  have recv: "nk_recv ?K 7 (world ?s) = (Inr (demo_req NR_mkdir), [])" by (simp add: demo_nkernel_def)
  moreover have "c_string ?p = ''/tmp/x''" by (simp add: c_string_def)
  ultimately show ?thesis
    using mkdir_supervisor_policy[OF demo_observed mkdir_iteration_demo[of no_texts ?s]] mkdir_iteration_demo[of no_texts ?s]
    by auto
qed

text \<open>The supervisor of \<open>mkdir\<close> compares the buffer with \<open>/bye\<close> even when no path name could be read:
  if the memory of the target cannot be opened and the buffer, uninitialised at first, holds no
  null byte, the comparison runs past its end.\<close>
theorem mkdir_supervisor_unterminated:
  assumes "nk_recv K fd (world s) = (Inr req, wr)" and "nr (req_data req) = NR_mkdir" and "delaySecs opts \<le> 0"
    and "\<And>p fl w. fst (nk_open K p fl w) = Inl ENOENT" and "\<not> terminated path"
  shows "fst (mkdir_iteration et K (Some b) fd opts path s) = Inl Undefined"
proof -
  have gtp: "\<exists>s'. getTargetPathname K req fd 0 path s0 = (Inr (GTP_BAD_READ, path), s')" for s0
  proof -
    let ?p = "snprintf_buf PATH_MAX (''/proc/'' @ show_int (req_pid req) @ ''/mem'')"
    obtain w where "nk_open K ?p O_CLOEXEC (world s0) = (Inl ENOENT, w)"
      using assms(4)[of ?p O_CLOEXEC "world s0"] by (cases "nk_open K ?p O_CLOEXEC (world s0)") auto
    then show ?thesis by (simp add: getTargetPathname_def Let_def)
  qed
  have resp: "\<exists>r s'. mkdir_response et K req GTP_BAD_READ path s0 = (Inr r, s')" for s0
    by (simp add: mkdir_response_def Let_def andThen_run)
  have send: "\<exists>s'. send_response et K fd r s0 = (Inr (), s')" for r s0
    by (rule syscall_cases[of "nk_send K fd r" "flushed (s0\<lparr>pending := pending s0 @
          [(TAB # ''S: sending response (flags = %#x; val = %lld; error = %d)\<newline>'',
            [FInt (uint (resp_flags r)), FInt (resp_val r), FInt (resp_error r)])]\<rparr>)"])
      (auto simp: send_response_def andThen_run perror_run)
  have recv: "\<exists>s1. receive_notification et K fd NR_mkdir s = (Inr (Some req), s1)"
    using assms(1,2) by (simp add: receive_notification_def andThen_run)
  then obtain s1 where 1: "receive_notification et K fd NR_mkdir s = (Inr (Some req), s1)" by blast
  obtain s2 where 2: "getTargetPathname K req fd 0 path s1 = (Inr (GTP_BAD_READ, path), s2)" using gtp by blast
  obtain r s3 where 3: "mkdir_response et K req GTP_BAD_READ path s2 = (Inr r, s3)" using resp by blast
  obtain s4 where 4: "send_response et K fd r s3 = (Inr (), s4)" using send by blast
  show ?thesis using 1 2 3 4 assms(3,5) by (simp add: mkdir_iteration_def delay_phase_def)
qed

theorem mkdir_supervisor_unterminated_witness:
  "fst (mkdir_iteration \<lparr>ename = [], strerror = (\<lambda>_. [])\<rparr>
     (demo_nkernel (demo_req NR_mkdir) []\<lparr>nk_open := \<lambda>p fl w. (Inl ENOENT, w)\<rparr>) (Some 24) 7
     \<lparr>delaySecs = 0, secondFilter = - 1\<rparr> (replicate 10 (CHR ''x''))
     \<lparr>environment = [], p_errno = E_OK, pending = [], written = [], world = []\<rparr>) = Inl Undefined"
  by (rule mkdir_supervisor_unterminated[where req = "demo_req NR_mkdir" and wr = "[]"])
    (simp_all add: demo_nkernel_def demo_req_def terminated_def)

text \<open>C19: The supervisor of \<open>openat\<close>. An iteration either just restarts a wait that a signal interrupted, or it
  takes the notification the kernel delivers, reads the path name of its target with
  \<open>getTargetPathname\<close>, and sends exactly one response, to that notification, as its last action. If the
  path name could be read, it opens it once, with the arguments of the target; the descriptor it gets
  is added to the target under the number \<open>42 + fd\<close> and the response carries the number of the new
  descriptor in the target, or else the error of the failing \<open>openat\<close>. An invalid path name is answered
  with \<open>EINVAL\<close> and nothing is opened.\<close>
theorem openat_supervisor_policy:
  assumes "observed K ev" and "openat_iteration et K (Some b) fd path s = (Inr path', s')"
  shows "(\<exists>w. nk_recv K fd (world s) = (Inl EINTR, w)) \<and> ev (world s') = ev (world s) \<and> path' = path
    \<or> (\<exists>req s1 st s2 calls resp. nk_recv K fd (world s) = (Inr req, world s1) \<and> nr (req_data req) = NR_openat_x86_64
        \<and> getTargetPathname K req fd 1 path s1 = (Inr (st, path'), s2)
        \<and> ev (world s') = ev (world s) @ calls @ [EvSend resp] \<and> openat_answer req st (c_string path') calls resp)"
  by (rule openat_iteration_trace[OF assms])

theorem openat_supervisor_policy_witness:
  "\<exists>s'. openat_iteration no_texts (demo_nkernel (demo_req NR_openat_x86_64) (''/etc/p'' @ [NUL]))
       (Some 24) 7 (replicate 10 NUL) \<lparr>environment = [], p_errno = E_OK, pending = [], written = [], world = []\<rparr>
     = (Inr (''/etc/p'' @ replicate 4 NUL), s')
     \<and> (\<exists>st calls resp. world s' = calls @ [EvSend resp] \<and> openat_answer (demo_req NR_openat_x86_64) st ''/etc/p'' calls resp)"
proof -
  let ?K = "demo_nkernel (demo_req NR_openat_x86_64) (''/etc/p'' @ [NUL])"
  let ?s = "\<lparr>environment = [], p_errno = E_OK, pending = [], written = [], world = []\<rparr>"
  let ?p = "''/etc/p'' @ replicate 4 NUL"
  have run: "\<exists>s'. openat_iteration no_texts ?K (Some 24) 7 (replicate 10 NUL) ?s = (Inr ?p, s')"
    by (simp add: openat_iteration_def receive_notification_def getTargetPathname_def
      cookieIsValid_def openat_response_def send_response_def demo_nkernel_def demo_req_def andThen_run syscall_def
      terminated_def Let_def numeral_eq_Suc or_die_def)
  then obtain s' where s': "openat_iteration no_texts ?K (Some 24) 7 (replicate 10 NUL) ?s = (Inr ?p, s')" by blast
  have recv: "nk_recv ?K 7 (world ?s) = (Inr (demo_req NR_openat_x86_64), [])" by (simp add: demo_nkernel_def)
  have "c_string ?p = ''/etc/p''" by (simp add: c_string_def)
  then show ?thesis using openat_supervisor_policy[OF demo_observed s'] s' recv by auto
qed

end
