(* ===== verification/Dtree_Cache.thy ===== *)
theory Dtree_Cache
  imports Diag
begin

text \<open>
  \<open>inotify/inotify_dtree.c\<close>, first part: the global state of the monitor, its log, and the watch
  list cache, an array of slots that pair a watch descriptor with a path name.

  The state extends the process by the static variables of the program. The array \<open>wlCache\<close> is a
  list, \<open>cacheSize\<close> its length; an access past it is undefined behaviour. A path is the C string
  in the slot; the array has \<open>PATH_MAX\<close> bytes.
\<close>

section \<open>State\<close>

abbreviation (input) PATH_MAX :: nat where "PATH_MAX \<equiv> 4096"
abbreviation (input) VB_BASIC :: int where "VB_BASIC \<equiv> 1"
abbreviation (input) VB_NOISY :: int where "VB_NOISY \<equiv> 2"

record watch =
  wd :: int
  path :: string

record stat =
  is_dir :: bool
  st_ino :: nat
  st_dev :: nat

text \<open>\<open>logfp\<close> is \<open>None\<close> for a null pointer and otherwise what has been written to the log file.\<close>

record 'w dtree = "'w process" +
  verboseMask :: int
  checkCache :: bool
  dumpCache :: bool
  readBufferSize :: int
  stopFile :: "string option"
  abortOnCacheProblem :: bool
  logfp :: "message list option"
  inotifyReadCnt :: nat
  wlCache :: "watch list"
  rootDirPaths :: "string option list"
  rootDirStat :: "stat list"
  ignoreRootDirs :: nat
  dirCnt :: nat
  ifd :: int
  reinitCnt :: nat
  overflowCnt :: nat

text \<open>The kernel and the parts of the C library that look at the file system. \<open>nftw\<close> is given by the
  entries it visits, in order, and its final status; \<open>dk_junk\<close> is what fresh memory holds.\<close>

record 'w dkernel =
  dk_open_stop :: "string \<Rightarrow> ('w, int) kcall"
  dk_lstat :: "string \<Rightarrow> ('w, stat) kcall"
  dk_nftw :: "string \<Rightarrow> 'w \<Rightarrow> (string \<times> bool) list \<times> errno option \<times> 'w"
  dk_add_watch :: "int \<Rightarrow> string \<Rightarrow> 32 word \<Rightarrow> ('w, int) kcall"
  dk_rm_watch :: "int \<Rightarrow> int \<Rightarrow> ('w, unit) kcall"
  dk_inotify_init :: "('w, int) kcall"
  dk_close :: "int \<Rightarrow> ('w, unit) kcall"
  dk_alloc_ok :: "'w \<Rightarrow> nat \<Rightarrow> bool"
  dk_junk :: "'w \<Rightarrow> nat \<Rightarrow> watch"

section \<open>The log\<close>

definition log_file :: "string \<Rightarrow> fmt_arg list \<Rightarrow> ('w dtree, unit) program" where
  "log_file f as = modify (\<lambda>s. s\<lparr>logfp := map_option (\<lambda>l. l @ [(f, as)]) (logfp s)\<rparr>)"

definition logMessage :: "int \<Rightarrow> string \<Rightarrow> fmt_arg list \<Rightarrow> ('w dtree, unit) program" where
  "logMessage vb_mask f as =
     andThen (query verboseMask) (\<lambda>verbose.
     andThen (if vb_mask = 0 \<or> (and vb_mask verbose) \<noteq> 0 then eprintf f as else ret ()) (\<lambda>_.
     log_file f as))"

text \<open>\<open>fprintf(logfp, ...)\<close> without a test for a null pointer.\<close>

definition log_unchecked :: "string \<Rightarrow> fmt_arg list \<Rightarrow> ('w dtree, unit) program" where
  "log_unchecked f as = andThen (query logfp) (\<lambda>l.
     if l = None then halts Undefined else log_file f as)"

section \<open>The cache\<close>

text \<open>A slot of the array.\<close>

definition read_slot :: "nat \<Rightarrow> ('w dtree, watch) program" where
  "read_slot slot = andThen (query wlCache) (\<lambda>c.
     if slot < length c then ret (c ! slot) else halts Undefined)"

definition write_slot :: "nat \<Rightarrow> watch \<Rightarrow> ('w dtree, unit) program" where
  "write_slot slot e = andThen (query wlCache) (\<lambda>c.
     if slot < length c then modify (\<lambda>s. s\<lparr>wlCache := (wlCache s)[slot := e]\<rparr>) else halts Undefined)"

definition freeCache :: "('w dtree, unit) program" where
  "freeCache = modify (\<lambda>s. s\<lparr>wlCache := []\<rparr>)"

fun dump_loop :: "nat \<Rightarrow> watch list \<Rightarrow> nat \<Rightarrow> ('w dtree, nat) program" where
  "dump_loop j [] cnt = ret cnt"
| "dump_loop j (e # es) cnt =
     (if wd e \<ge> 0
      then andThen (log_unchecked ''%d: wd = %d; %s\<newline>'' [FInt (int j), FInt (wd e), FStr (path e)])
             (\<lambda>_. dump_loop (Suc j) es (Suc cnt))
      else dump_loop (Suc j) es cnt)"

definition dumpCacheToLog :: "('w dtree, unit) program" where
  "dumpCacheToLog =
     andThen (query wlCache) (\<lambda>c.
     andThen (dump_loop 0 c 0) (\<lambda>cnt.
     log_unchecked ''Total entries: %d\<newline>'' [FInt (int cnt)]))"

text \<open>\<open>open(stopFile, ...)\<close> with a null pointer fails with an error.\<close>

definition createStopFileAndAbort :: "'w dkernel \<Rightarrow> ('w dtree, 'a) program" where
  "createStopFileAndAbort K =
     andThen (query stopFile) (\<lambda>f.
     andThen (case f of None \<Rightarrow> ret None | Some p \<Rightarrow> syscall (dk_open_stop K p)) (\<lambda>_.
     andThen dumpCacheToLog (\<lambda>_.
     halts Abort)))"

text \<open>The check of the cache: \<open>sb\<close> is the variable of that name, \<open>None\<close> while it is uninitialised.
  The test for a directory belongs to the unused slots, as the code has it.\<close>

fun check_loop ::
  "err_texts \<Rightarrow> 'w dkernel \<Rightarrow> nat \<Rightarrow> watch list \<Rightarrow> stat option \<Rightarrow> nat \<Rightarrow> ('w dtree, nat) program" where
  "check_loop et K j [] sb failures = ret failures"
| "check_loop et K j (e # es) sb failures =
     (if wd e \<ge> 0
      then andThen (syscall (dk_lstat K (path e))) (\<lambda>r. case r of
             None \<Rightarrow> andThen (query p_errno) (\<lambda>err.
               andThen (logMessage 0 ''checkCacheConsistency: stat: [slot = %d; wd = %d] %s: %s\<newline>''
                 [FInt (int j), FInt (wd e), FStr (path e), FStr (strerror et (errnum err))]) (\<lambda>_.
               check_loop et K (Suc j) es sb (Suc failures)))
           | Some st \<Rightarrow> check_loop et K (Suc j) es (Some st) failures)
      else case sb of
             None \<Rightarrow> halts Undefined
           | Some st \<Rightarrow>
               if \<not> is_dir st
               then andThen (logMessage 0 ''checkCacheConsistency: %s is not a directory\<newline>'' [FStr (path e)])
                      (\<lambda>_. exit_process EXIT_FAILURE)
               else check_loop et K (Suc j) es sb failures)"

definition checkCacheConsistency :: "err_texts \<Rightarrow> 'w dkernel \<Rightarrow> ('w dtree, unit) program" where
  "checkCacheConsistency et K =
     andThen (query wlCache) (\<lambda>c.
     andThen (check_loop et K 0 c None 0) (\<lambda>failures.
     if failures > 0
     then logMessage VB_NOISY ''checkCacheConsistency: %d failures\<newline>'' [FInt (int failures)]
     else ret ()))"

text \<open>Searching: the first slot that satisfies a condition, \<open>-1\<close> if there is none.\<close>

fun find_slot :: "(watch \<Rightarrow> bool) \<Rightarrow> watch list \<Rightarrow> nat \<Rightarrow> int" where
  "find_slot P [] j = - 1"
| "find_slot P (e # es) j = (if P e then int j else find_slot P es (Suc j))"

definition findWatch :: "int \<Rightarrow> watch list \<Rightarrow> int" where
  "findWatch d c = find_slot (\<lambda>e. wd e = d) c 0"

definition findWatchChecked :: "'w dkernel \<Rightarrow> int \<Rightarrow> ('w dtree, int) program" where
  "findWatchChecked K d =
     andThen (query (\<lambda>s. findWatch d (wlCache s))) (\<lambda>slot.
     if slot \<ge> 0 then ret slot
     else andThen (logMessage 0 ''Could not find watch %d\<newline>'' [FInt d]) (\<lambda>_.
          andThen (query abortOnCacheProblem) (\<lambda>ab.
          if ab then createStopFileAndAbort K else ret (- 1))))"

definition markCacheSlotEmpty :: "nat \<Rightarrow> ('w dtree, unit) program" where
  "markCacheSlotEmpty slot =
     andThen (read_slot slot) (\<lambda>e.
     andThen (logMessage VB_NOISY ''        markCacheSlotEmpty: slot = %d;  wd = %d; path = %s\<newline>''
                [FInt (int slot), FInt (wd e), FStr (path e)]) (\<lambda>_.
     write_slot slot (e\<lparr>wd := - 1, path := []\<rparr>)))"

definition ALLOC_INCR :: nat where "ALLOC_INCR = 200"

definition findEmptyCacheSlot :: "err_texts \<Rightarrow> 'w dkernel \<Rightarrow> ('w dtree, nat) program" where
  "findEmptyCacheSlot et K =
     andThen (query wlCache) (\<lambda>c.
     let free = find_slot (\<lambda>e. wd e = - 1) c 0 in
     if free \<ge> 0 then ret (nat free)
     else
     andThen (query (\<lambda>s. dk_alloc_ok K (world s) (length c + ALLOC_INCR))) (\<lambda>ok.
     if \<not> ok then errExit_macro et ''realloc''
     else
     andThen (modify (\<lambda>s. s\<lparr>wlCache := c @ map (dk_junk K (world s)) [length c..<length c + ALLOC_INCR]\<rparr>)) (\<lambda>_.
     andThen (forEach [length c..<length c + ALLOC_INCR] markCacheSlotEmpty) (\<lambda>_.
     ret (length c)))))"

definition addWatchToCache :: "err_texts \<Rightarrow> 'w dkernel \<Rightarrow> int \<Rightarrow> string \<Rightarrow> ('w dtree, nat) program" where
  "addWatchToCache et K d pathname =
     andThen (findEmptyCacheSlot et K) (\<lambda>slot.
     andThen (write_slot slot \<lparr>wd = d, path = strncpy_arr PATH_MAX pathname\<rparr>) (\<lambda>_.
     ret slot))"

definition pathnameToCacheSlot :: "string \<Rightarrow> watch list \<Rightarrow> int" where
  "pathnameToCacheSlot pathname c = find_slot (\<lambda>e. wd e \<ge> 0 \<and> path e = pathname) c 0"

definition pathnameInCache :: "string \<Rightarrow> watch list \<Rightarrow> bool" where
  "pathnameInCache pathname c = (pathnameToCacheSlot pathname c \<ge> 0)"

section \<open>Lemmas\<close>

subsection \<open>Logging\<close>

definition logged :: "int \<Rightarrow> string \<Rightarrow> fmt_arg list \<Rightarrow> 'w dtree \<Rightarrow> 'w dtree" where
  "logged m f as s = snd (logMessage m f as s)"

lemma logMessage_run [simp, prog]: "logMessage m f as s = (Inr (), logged m f as s)"
  by (simp add: logged_def logMessage_def log_file_def andThen_run)

text \<open>The part of the state the log does not touch.\<close>

lemma logged_sel [simp]:
  "wlCache (logged m f as s) = wlCache s" "rootDirPaths (logged m f as s) = rootDirPaths s"
  "ignoreRootDirs (logged m f as s) = ignoreRootDirs s" "world (logged m f as s) = world s"
  "dirCnt (logged m f as s) = dirCnt s" "ifd (logged m f as s) = ifd s"
  "p_errno (logged m f as s) = p_errno s" "pending (logged m f as s) = pending s"
  "verboseMask (logged m f as s) = verboseMask s" "checkCache (logged m f as s) = checkCache s"
  "dumpCache (logged m f as s) = dumpCache s" "readBufferSize (logged m f as s) = readBufferSize s"
  "abortOnCacheProblem (logged m f as s) = abortOnCacheProblem s" "stopFile (logged m f as s) = stopFile s"
  "inotifyReadCnt (logged m f as s) = inotifyReadCnt s" "reinitCnt (logged m f as s) = reinitCnt s"
  "overflowCnt (logged m f as s) = overflowCnt s" "rootDirStat (logged m f as s) = rootDirStat s"
  by (simp_all add: logged_def logMessage_def log_file_def andThen_run)

text \<open>A message reaches the log file whenever there is one, and standard error exactly when its class
  is selected.\<close>

lemma logged_output:
  "logfp (logged m f as s) = map_option (\<lambda>l. l @ [(f, as)]) (logfp s)"
  "written (logged m f as s) = written s @ (if m = 0 \<or> (and m (verboseMask s)) \<noteq> 0 then [(2, (f, as))] else [])"
  by (simp_all add: logged_def logMessage_def log_file_def andThen_run)

subsection \<open>Slots\<close>

definition empty_slot :: watch where "empty_slot = \<lparr>wd = - 1, path = []\<rparr>"

lemma empty_slot_sel [simp]: "wd empty_slot = - 1" "path empty_slot = []"
  by (simp_all add: empty_slot_def)

lemma cleared_slot [simp]: "e\<lparr>wd := - 1, path := []\<rparr> = empty_slot"
  by (cases e) (simp add: empty_slot_def)

lemma read_slot_run [simp]: "j < length (wlCache s) \<Longrightarrow> read_slot j s = (Inr (wlCache s ! j), s)"
  by (simp add: read_slot_def)

lemma read_slot_bad: "\<not> j < length (wlCache s) \<Longrightarrow> read_slot j s = (Inl Undefined, s)"
  by (simp add: read_slot_def)

lemma write_slot_run [simp]:
  "j < length (wlCache s) \<Longrightarrow> write_slot j e s = (Inr (), s\<lparr>wlCache := (wlCache s)[j := e]\<rparr>)"
  by (simp add: write_slot_def)

definition marked :: "nat \<Rightarrow> 'w dtree \<Rightarrow> 'w dtree" where
  "marked j s = snd (markCacheSlotEmpty j s)"

lemma markCacheSlotEmpty_run [simp]:
  "j < length (wlCache s) \<Longrightarrow> markCacheSlotEmpty j s = (Inr (), marked j s)"
  by (simp add: marked_def markCacheSlotEmpty_def andThen_run)

lemma markCacheSlotEmpty_bad:
  "\<not> j < length (wlCache s) \<Longrightarrow> markCacheSlotEmpty j s = (Inl Undefined, s)"
  by (simp add: markCacheSlotEmpty_def andThen_run read_slot_bad)

lemma marked_sel [simp]:
  "j < length (wlCache s) \<Longrightarrow> wlCache (marked j s) = (wlCache s)[j := empty_slot]"
  "j < length (wlCache s) \<Longrightarrow> rootDirPaths (marked j s) = rootDirPaths s"
  "j < length (wlCache s) \<Longrightarrow> world (marked j s) = world s"
  "j < length (wlCache s) \<Longrightarrow> ignoreRootDirs (marked j s) = ignoreRootDirs s"
  "j < length (wlCache s) \<Longrightarrow> checkCache (marked j s) = checkCache s"
  "j < length (wlCache s) \<Longrightarrow> dumpCache (marked j s) = dumpCache s"
  by (simp_all add: marked_def markCacheSlotEmpty_def andThen_run)

subsection \<open>Searching\<close>

lemma find_slot_ge: "- 1 \<le> find_slot P c j"
  by (induction c arbitrary: j) auto

lemma find_slot_shift: "find_slot P c j = (if find_slot P c 0 = - 1 then - 1 else find_slot P c 0 + int j)"
proof (induction c arbitrary: j)
  case (Cons e c)
  show ?case using Cons[of "Suc j"] Cons[of "Suc 0"] find_slot_ge[of P c 0] by auto
qed simp

lemma find_slot_range: "find_slot P c 0 = - 1 \<or> (0 \<le> find_slot P c 0 \<and> find_slot P c 0 < int (length c))"
proof (induction c)
  case (Cons e c)
  then show ?case using find_slot_shift[of P c "Suc 0"] by auto
qed simp

lemma find_slot_None: "find_slot P c 0 = - 1 \<longleftrightarrow> (\<forall>e \<in> set c. \<not> P e)"
proof (induction c)
  case (Cons e c)
  then show ?case using find_slot_shift[of P c "Suc 0"] find_slot_range[of P c] by auto
qed simp

lemma find_slot_Some:
  "find_slot P c 0 = int j \<longleftrightarrow> j < length c \<and> P (c ! j) \<and> (\<forall>i < j. \<not> P (c ! i))"
proof (induction c arbitrary: j)
  case (Cons e c)
  show ?case
  proof (cases j)
    case 0
    then show ?thesis using find_slot_shift[of P c "Suc 0"] find_slot_range[of P c] by auto
  next
    case (Suc i)
    have "find_slot P (e # c) 0 = int j \<longleftrightarrow> \<not> P e \<and> find_slot P c 0 = int i"
      using find_slot_shift[of P c "Suc 0"] find_slot_range[of P c] Suc by auto
    then show ?thesis using Cons[of i] Suc by (auto simp: less_Suc_eq_0_disj)
  qed
qed simp

lemma find_slot_cases:
  obtains (none) "find_slot P c 0 = - 1" and "\<forall>e \<in> set c. \<not> P e"
    | (found) j where "find_slot P c 0 = int j" and "j < length c" and "P (c ! j)" and "\<forall>i < j. \<not> P (c ! i)"
proof (cases "find_slot P c 0 = - 1")
  case True
  then show thesis using none find_slot_None by blast
next
  case False
  then obtain j where "find_slot P c 0 = int j" using find_slot_range[of P c] nonneg_int_cases by metis
  then show thesis using found find_slot_Some by blast
qed

subsection \<open>Allocating and adding\<close>

text \<open>The loop that marks the slots of a fresh block empty, whatever the memory held.\<close>

lemma mark_block:
  assumes "n + m \<le> length (wlCache s)"
  shows "\<exists>s'. forEach [n..<n + m] markCacheSlotEmpty s = (Inr (), s')
    \<and> wlCache s' = take n (wlCache s) @ replicate m empty_slot @ drop (n + m) (wlCache s)
    \<and> rootDirPaths s' = rootDirPaths s \<and> world s' = world s \<and> ignoreRootDirs s' = ignoreRootDirs s
    \<and> checkCache s' = checkCache s \<and> dumpCache s' = dumpCache s"
  using assms
proof (induction m arbitrary: s n)
  case 0
  then show ?case by simp
next
  case (Suc m)
  let ?s1 = "marked n s"
  have n: "n < length (wlCache s)" using Suc.prems by simp
  have up: "[n..<n + Suc m] = n # [Suc n..<Suc n + m]" by (simp add: upt_conv_Cons)
  have split: "take (Suc n) ((wlCache s)[n := empty_slot]) = take n (wlCache s) @ [empty_slot]"
    using n by (simp add: take_Suc_conv_app_nth)
  obtain s' where s': "forEach [Suc n..<Suc n + m] markCacheSlotEmpty ?s1 = (Inr (), s')"
    "wlCache s' = take (Suc n) (wlCache ?s1) @ replicate m empty_slot @ drop (Suc n + m) (wlCache ?s1)"
    "rootDirPaths s' = rootDirPaths ?s1" "world s' = world ?s1" "ignoreRootDirs s' = ignoreRootDirs ?s1"
    "checkCache s' = checkCache ?s1" "dumpCache s' = dumpCache ?s1"
    using Suc.IH[of "Suc n" ?s1] Suc.prems n by auto
  show ?case
    unfolding up using s' n by (simp add: split drop_update_cancel)
qed

text \<open>The array after \<open>findEmptyCacheSlot\<close>, and the slot it returns.\<close>

definition grown :: "watch list \<Rightarrow> watch list" where
  "grown c = (if find_slot (\<lambda>e. wd e = - 1) c 0 \<ge> 0 then c else c @ replicate ALLOC_INCR empty_slot)"

definition free_slot :: "watch list \<Rightarrow> nat" where
  "free_slot c = (if find_slot (\<lambda>e. wd e = - 1) c 0 \<ge> 0 then nat (find_slot (\<lambda>e. wd e = - 1) c 0) else length c)"

lemma free_slot_ok: "free_slot c < length (grown c)" "wd (grown c ! free_slot c) = - 1"
  by (rule find_slot_cases[of "\<lambda>e. wd e = - 1" c];
      simp add: free_slot_def grown_def ALLOC_INCR_def nth_append)+

lemma findEmptyCacheSlot_run:
  assumes "dk_alloc_ok K (world s) (length (wlCache s) + ALLOC_INCR)"
  shows "\<exists>s'. findEmptyCacheSlot et K s = (Inr (free_slot (wlCache s)), s') \<and> wlCache s' = grown (wlCache s)
    \<and> rootDirPaths s' = rootDirPaths s \<and> world s' = world s \<and> ignoreRootDirs s' = ignoreRootDirs s
    \<and> checkCache s' = checkCache s \<and> dumpCache s' = dumpCache s"
proof (cases "find_slot (\<lambda>e. wd e = - 1) (wlCache s) 0 \<ge> 0")
  case True
  then show ?thesis by (simp add: findEmptyCacheSlot_def Let_def free_slot_def grown_def)
next
  case False
  let ?n = "length (wlCache s)"
  let ?s1 = "s\<lparr>wlCache := wlCache s @ map (dk_junk K (world s)) [?n..<?n + ALLOC_INCR]\<rparr>"
  obtain s' where "forEach [?n..<?n + ALLOC_INCR] markCacheSlotEmpty ?s1 = (Inr (), s')"
    "wlCache s' = take ?n (wlCache ?s1) @ replicate ALLOC_INCR empty_slot @ drop (?n + ALLOC_INCR) (wlCache ?s1)"
    "rootDirPaths s' = rootDirPaths ?s1" "world s' = world ?s1" "ignoreRootDirs s' = ignoreRootDirs ?s1"
    "checkCache s' = checkCache ?s1" "dumpCache s' = dumpCache ?s1"
    using mark_block[of ?n ALLOC_INCR ?s1] by auto
  with False assms show ?thesis
    by (simp add: findEmptyCacheSlot_def Let_def free_slot_def grown_def)
qed

definition cache_put :: "int \<Rightarrow> string \<Rightarrow> watch list \<Rightarrow> watch list" where
  "cache_put d p c = (grown c)[free_slot c := \<lparr>wd = d, path = strncpy_arr PATH_MAX p\<rparr>]"

lemma addWatchToCache_run:
  assumes "dk_alloc_ok K (world s) (length (wlCache s) + ALLOC_INCR)"
  shows "\<exists>s'. addWatchToCache et K d p s = (Inr (free_slot (wlCache s)), s')
    \<and> wlCache s' = cache_put d p (wlCache s)
    \<and> rootDirPaths s' = rootDirPaths s \<and> world s' = world s \<and> ignoreRootDirs s' = ignoreRootDirs s
    \<and> checkCache s' = checkCache s \<and> dumpCache s' = dumpCache s"
proof -
  obtain s1 where "findEmptyCacheSlot et K s = (Inr (free_slot (wlCache s)), s1)"
    "wlCache s1 = grown (wlCache s)" "rootDirPaths s1 = rootDirPaths s" "world s1 = world s"
    "ignoreRootDirs s1 = ignoreRootDirs s" "checkCache s1 = checkCache s" "dumpCache s1 = dumpCache s"
    using findEmptyCacheSlot_run[OF assms] by blast
  then show ?thesis by (simp add: addWatchToCache_def free_slot_ok cache_put_def)
qed

lemma addWatchToCache_fails:
  assumes "\<not> dk_alloc_ok K (world s) (length (wlCache s) + ALLOC_INCR)"
    and "addWatchToCache et K d p s = (Inr j, s')"
  shows "j = free_slot (wlCache s) \<and> wlCache s' = cache_put d p (wlCache s)
    \<and> rootDirPaths s' = rootDirPaths s \<and> world s' = world s \<and> ignoreRootDirs s' = ignoreRootDirs s
    \<and> checkCache s' = checkCache s \<and> dumpCache s' = dumpCache s"
proof (cases "find_slot (\<lambda>e. wd e = - 1) (wlCache s) 0 \<ge> 0")
  case True
  moreover have "free_slot (wlCache s) < length (wlCache s)"
    using True free_slot_ok(1)[of "wlCache s"] by (simp add: grown_def)
  ultimately show ?thesis
    using assms(2) by (auto simp: addWatchToCache_def findEmptyCacheSlot_def Let_def free_slot_def grown_def
        cache_put_def)
next
  case False
  then show ?thesis
    using assms by (simp add: addWatchToCache_def findEmptyCacheSlot_def Let_def andThen_run errExit_macro_run)
qed

lemma addWatchToCache_effect:
  assumes "addWatchToCache et K d p s = (Inr j, s')"
  shows "j = free_slot (wlCache s)" "wlCache s' = cache_put d p (wlCache s)"
    "rootDirPaths s' = rootDirPaths s" "world s' = world s" "ignoreRootDirs s' = ignoreRootDirs s" "checkCache s' = checkCache s" "dumpCache s' = dumpCache s"
  using addWatchToCache_run[of K s et d p] addWatchToCache_fails[OF _ assms] assms
  by (cases "dk_alloc_ok K (world s) (length (wlCache s) + ALLOC_INCR)"; auto)+

section \<open>The cache as a map from watch descriptors to path names\<close>

text \<open>The invariant of the array: descriptors are valid or \<open>-1\<close>, a used descriptor occurs once, unused
  slots have an empty path, and paths are terminated within their array.\<close>

definition slot_wf :: "watch \<Rightarrow> bool" where
  "slot_wf e = (- 1 \<le> wd e \<and> length (path e) < PATH_MAX \<and> (wd e = - 1 \<longrightarrow> path e = []))"

definition cache_wf :: "watch list \<Rightarrow> bool" where
  "cache_wf c = ((\<forall>e \<in> set c. slot_wf e)
     \<and> (\<forall>i < length c. \<forall>j < length c. wd (c ! i) = wd (c ! j) \<and> 0 \<le> wd (c ! i) \<longrightarrow> i = j))"

definition cmap :: "watch list \<Rightarrow> int \<Rightarrow> string option" where
  "cmap c d = (let j = findWatch d c in if 0 \<le> d \<and> 0 \<le> j then Some (path (c ! nat j)) else None)"

lemma empty_slot_wf [simp]: "slot_wf empty_slot"
  by (simp add: slot_wf_def)

lemma cache_wf_Nil [simp]: "cache_wf []"
  by (simp add: cache_wf_def)

lemma cmap_Nil [simp]: "cmap [] d = None"
  by (simp add: cmap_def findWatch_def)

lemma cmap_None: "cmap c d = None \<longleftrightarrow> d < 0 \<or> (\<forall>e \<in> set c. wd e \<noteq> d)"
  unfolding cmap_def findWatch_def Let_def
  by (rule find_slot_cases[of "\<lambda>e. wd e = d" c]) (auto dest: nth_mem)

lemma cache_wf_inj:
  "cache_wf c \<Longrightarrow> i < length c \<Longrightarrow> j < length c \<Longrightarrow> wd (c ! i) = wd (c ! j) \<Longrightarrow> 0 \<le> wd (c ! i) \<Longrightarrow> i = j"
  unfolding cache_wf_def by blast

lemma cmap_Some:
  assumes "cache_wf c"
  shows "cmap c d = Some p \<longleftrightarrow> 0 \<le> d \<and> (\<exists>e \<in> set c. wd e = d \<and> path e = p)"
proof (cases rule: find_slot_cases[of "\<lambda>e. wd e = d" c])
  case none
  then show ?thesis by (auto simp: cmap_def findWatch_def)
next
  case (found j)
  have only: "e = c ! j" if e: "e \<in> set c" "wd e = d" "0 \<le> d" for e
  proof -
    obtain i where "i < length c" "c ! i = e" using e(1) by (auto simp: in_set_conv_nth)
    then show ?thesis using cache_wf_inj[OF assms, of i j] found(2,3) e by metis
  qed
  have "cmap c d = (if 0 \<le> d then Some (path (c ! j)) else None)"
    using found(1) by (simp add: cmap_def findWatch_def)
  then show ?thesis using only found(2,3) nth_mem[of j c] by auto
qed

lemma findWatch_cmap: "0 \<le> d \<Longrightarrow> findWatch d c = - 1 \<longleftrightarrow> cmap c d = None"
  by (auto simp: cmap_None findWatch_def find_slot_None)

lemma cache_wf_update:
  assumes "cache_wf c" and "slot_wf e" and "\<And>i. i < length c \<Longrightarrow> i \<noteq> j \<Longrightarrow> 0 \<le> wd e \<Longrightarrow> wd (c ! i) \<noteq> wd e"
  shows "cache_wf (c[j := e])"
  unfolding cache_wf_def
proof (intro conjI allI impI ballI)
  fix x assume "x \<in> set (c[j := e])"
  then have "x = e \<or> x \<in> set c" using set_update_subset_insert[of c j e] by auto
  then show "slot_wf x" using assms(1,2) by (auto simp: cache_wf_def)
next
  fix i k
  assume ik: "i < length (c[j := e])" "k < length (c[j := e])"
    and eq: "wd (c[j := e] ! i) = wd (c[j := e] ! k) \<and> 0 \<le> wd (c[j := e] ! i)"
  show "i = k"
  proof (cases "i = j \<or> k = j")
    case True
    then show ?thesis using ik eq assms(3)[of i] assms(3)[of k] by (auto simp: nth_list_update split: if_splits)
  next
    case False
    then show ?thesis using ik eq cache_wf_inj[OF assms(1), of i k] by simp
  qed
qed

lemma cache_wf_grown: "cache_wf c \<Longrightarrow> cache_wf (grown c)"
  by (auto simp: grown_def cache_wf_def nth_append)

lemma cmap_eqI:
  assumes "cache_wf c" "cache_wf c'"
    and "\<And>d p. 0 \<le> d \<Longrightarrow> (\<exists>e \<in> set c. wd e = d \<and> path e = p) \<longleftrightarrow> (\<exists>e \<in> set c'. wd e = d \<and> path e = p)"
  shows "cmap c = cmap c'"
proof (rule ext)
  fix d
  have "cmap c d = Some p \<longleftrightarrow> cmap c' d = Some p" for p
    using assms(3)[of d p] by (auto simp: cmap_Some[OF assms(1)] cmap_Some[OF assms(2)])
  then show "cmap c d = cmap c' d" by (metis option.exhaust)
qed

lemma cmap_grown: "cache_wf c \<Longrightarrow> cmap (grown c) = cmap c"
  using cache_wf_grown[of c] by (intro cmap_eqI) (auto simp: grown_def)

lemma set_update_other: "j < length c \<Longrightarrow> set (c[j := e]) = insert e {c ! i | i. i < length c \<and> i \<noteq> j}"
  by (auto simp: set_conv_nth nth_list_update)

lemma cmap_update:
  assumes wf: "cache_wf c" and j: "j < length c" and wf': "cache_wf (c[j := e])"
  shows "cmap (c[j := e]) = (\<lambda>d. if 0 \<le> d \<and> d = wd e then Some (path e)
                               else if d = wd (c ! j) then None else cmap c d)"
proof (rule ext)
  fix d
  let ?rhs = "if 0 \<le> d \<and> d = wd e then Some (path e) else if d = wd (c ! j) then None else cmap c d"
  consider (new) "0 \<le> d" "d = wd e" | (old) "0 \<le> d" "d \<noteq> wd e" "d = wd (c ! j)"
    | (other) "0 \<le> d" "d \<noteq> wd e" "d \<noteq> wd (c ! j)" | (neg) "d < 0" by linarith
  then show "cmap (c[j := e]) d = ?rhs"
  proof cases
    case new
    then show ?thesis using set_update_memI[OF j, of e] by (auto simp: cmap_Some[OF wf'])
  next
    case old
    have "wd x \<noteq> d" if "x \<in> set (c[j := e])" for x
      using that old set_update_other[OF j, of e] cache_wf_inj[OF wf _ j] by auto
    with old show ?thesis by (simp add: cmap_None)
  next
    case other
    have "cmap (c[j := e]) d = Some p \<longleftrightarrow> cmap c d = Some p" for p
    proof -
      have "(\<exists>x \<in> set (c[j := e]). wd x = d \<and> path x = p) \<longleftrightarrow> (\<exists>x \<in> set c. wd x = d \<and> path x = p)"
        using other set_update_other[OF j, of e] set_update_other[OF j, of "c ! j"] by auto
      then show ?thesis by (simp add: cmap_Some[OF wf] cmap_Some[OF wf'])
    qed
    then have "cmap (c[j := e]) d = cmap c d" by (metis option.exhaust)
    with other show ?thesis by simp
  next
    case neg
    then show ?thesis by (simp add: cmap_def)
  qed
qed

lemma cache_wf_put:
  assumes "cache_wf c" and "0 \<le> d" and "cmap c d = None" and "length p < PATH_MAX"
  shows "cache_wf (cache_put d p c)"
  unfolding cache_put_def
proof (rule cache_wf_update[OF cache_wf_grown[OF assms(1)]])
  show "slot_wf \<lparr>wd = d, path = strncpy_arr PATH_MAX p\<rparr>" using assms(2,4) by (simp add: slot_wf_def)
next
  fix i assume "i < length (grown c)"
  then have "grown c ! i \<in> set c \<or> grown c ! i = empty_slot"
    by (auto simp: grown_def nth_append split: if_splits)
  then show "wd (grown c ! i) \<noteq> wd \<lparr>wd = d, path = strncpy_arr PATH_MAX p\<rparr>"
    using assms(2,3) by (auto simp: cmap_None)
qed

lemma cmap_put:
  assumes "cache_wf c" and "0 \<le> d" and "cmap c d = None" and "length p < PATH_MAX"
  shows "cmap (cache_put d p c) = (cmap c)(d \<mapsto> p)"
proof -
  have "cmap (cache_put d p c) = (\<lambda>x. if 0 \<le> x \<and> x = d then Some p else if x = - 1 then None else cmap c x)"
    unfolding cache_put_def
    using cmap_update[OF cache_wf_grown[OF assms(1)] free_slot_ok(1) cache_wf_put[OF assms, unfolded cache_put_def]]
      free_slot_ok(2)[of c] cmap_grown[OF assms(1)] assms(4) by (simp add: fun_eq_iff)
  then show ?thesis using assms(2) by (auto simp: fun_eq_iff cmap_def)
qed

lemma cache_wf_clear: "cache_wf c \<Longrightarrow> cache_wf (c[j := empty_slot])"
  by (rule cache_wf_update) simp_all

lemma cmap_clear:
  assumes "cache_wf c" and "j < length c"
  shows "cmap (c[j := empty_slot]) = (cmap c)(wd (c ! j) := None)"
  using cmap_update[OF assms cache_wf_clear[OF assms(1)]] by (auto simp: fun_eq_iff)

text \<open>Removing a descriptor: find its slot and mark it empty.\<close>

definition cache_drop :: "int \<Rightarrow> watch list \<Rightarrow> watch list" where
  "cache_drop d c = (let j = findWatch d c in if 0 \<le> j then c[nat j := empty_slot] else c)"

lemma cmap_drop:
  assumes "cache_wf c"
  shows "cmap (cache_drop d c) = (cmap c)(d := None)"
proof (cases rule: find_slot_cases[of "\<lambda>e. wd e = d" c])
  case none
  then have "cmap c d = None" by (simp add: cmap_None)
  with none show ?thesis by (auto simp: cache_drop_def findWatch_def fun_upd_idem)
next
  case (found j)
  then show ?thesis using cmap_clear[OF assms found(2)] by (simp add: cache_drop_def findWatch_def)
qed

lemma cache_wf_drop: "cache_wf c \<Longrightarrow> cache_wf (cache_drop d c)"
  by (simp add: cache_drop_def Let_def cache_wf_clear)

text \<open>The contract of a table of watches: what the rest of the monitor relies on.\<close>

locale watch_table =
  fixes inv :: "'t \<Rightarrow> bool"
    and lookup :: "'t \<Rightarrow> int \<Rightarrow> string option"
    and put :: "int \<Rightarrow> string \<Rightarrow> 't \<Rightarrow> 't"
    and drop_watch :: "int \<Rightarrow> 't \<Rightarrow> 't"
    and fits :: "int \<Rightarrow> string \<Rightarrow> bool"
  assumes inv_put: "inv t \<Longrightarrow> fits d p \<Longrightarrow> lookup t d = None \<Longrightarrow> inv (put d p t)"
    and lookup_put: "inv t \<Longrightarrow> fits d p \<Longrightarrow> lookup t d = None \<Longrightarrow> lookup (put d p t) = (lookup t)(d \<mapsto> p)"
    and inv_drop: "inv t \<Longrightarrow> inv (drop_watch d t)"
    and lookup_drop: "inv t \<Longrightarrow> lookup (drop_watch d t) = (lookup t)(d := None)"
begin

lemma drop_undoes_put:
  assumes "inv t" and "fits d p" and "lookup t d = None"
  shows "lookup (drop_watch d (put d p t)) = lookup t"
  using lookup_drop[OF inv_put[OF assms], of d] lookup_put[OF assms] assms(3) by (auto simp: fun_eq_iff)

lemma put_all:
  assumes "inv t" and "distinct (map fst ws)" and "\<forall>(d, p) \<in> set ws. fits d p \<and> lookup t d = None"
  shows "inv (fold (\<lambda>(d, p). put d p) ws t) \<and> lookup (fold (\<lambda>(d, p). put d p) ws t) = lookup t ++ map_of ws"
  using assms
proof (induction ws arbitrary: t)
  case (Cons a ws)
  obtain d p where a: "a = (d, p)" by fastforce
  have fresh: "lookup t d = None" "fits d p" using Cons.prems a by auto
  have "\<forall>(e, q) \<in> set ws. fits e q \<and> lookup (put d p t) e = None"
    using Cons.prems a lookup_put[OF Cons.prems(1) fresh(2,1)] by (auto simp: rev_image_eqI)
  with Cons.IH[of "put d p t"] Cons.prems inv_put[OF Cons.prems(1) fresh(2,1)] lookup_put[OF Cons.prems(1) fresh(2,1)] a
  have "inv (fold (\<lambda>(d, p). put d p) ws (put d p t))"
    and "lookup (fold (\<lambda>(d, p). put d p) ws (put d p t)) = (lookup t)(d \<mapsto> p) ++ map_of ws"
    by (simp_all del: fun_upd_apply)
  moreover have "(lookup t)(d \<mapsto> p) ++ map_of ws = lookup t ++ map_of (a # ws)"
  proof -
    have "map_of ws d = None" using Cons.prems(2) a by (simp add: map_of_eq_None_iff)
    then show ?thesis using a by (auto simp: fun_eq_iff map_add_def split: option.splits)
  qed
  ultimately show ?case using a by (simp del: fun_upd_apply)
qed simp

end

interpretation wtab: watch_table cache_wf cmap cache_put cache_drop "\<lambda>d p. 0 \<le> d \<and> length p < PATH_MAX"
  by unfold_locales (auto simp: cache_wf_put cmap_put cache_wf_drop cmap_drop)

text \<open>A concrete kernel: the world is the list of the existing directories and the next watch
  descriptor; fresh memory holds rubbish.\<close>

type_synonym demo_fs = "string list \<times> int"

definition in_subtree :: "string \<Rightarrow> string \<Rightarrow> bool" where
  "in_subtree p q = (take (length p) q = p \<and> (length q = length p \<or> cchar_at q (length p) = CHR ''/''))"

definition demo_dkernel :: "demo_fs dkernel" where
  "demo_dkernel = \<lparr>
     dk_open_stop = (\<lambda>p w. (Inr 3, w)),
     dk_lstat = (\<lambda>p w. if p \<in> set (fst w) then (Inr \<lparr>is_dir = True, st_ino = length (takeWhile (\<lambda>x. x \<noteq> p) (fst w)), st_dev = 0\<rparr>, w)
                        else (Inl ENOENT, w)),
     dk_nftw = (\<lambda>p w. (map (\<lambda>q. (q, True)) (filter (in_subtree p) (fst w)), None, w)),
     dk_add_watch = (\<lambda>fd p fl w. if p \<in> set (fst w) then (Inr (snd w), (fst w, snd w + 1)) else (Inl ENOENT, w)),
     dk_rm_watch = (\<lambda>fd d w. (Inr (), w)),
     dk_inotify_init = (\<lambda>w. (Inr 4, w)), dk_close = (\<lambda>fd w. (Inr (), w)),
     dk_alloc_ok = (\<lambda>w n. True), dk_junk = (\<lambda>w j. \<lparr>wd = int j, path = ''rubbish''\<rparr>)\<rparr>"

definition demo_state :: "watch list \<Rightarrow> string option list \<Rightarrow> string list \<Rightarrow> demo_fs dtree" where
  "demo_state c roots dirs = \<lparr>environment = [], p_errno = E_OK, pending = [], written = [], world = (dirs, 10),
     verboseMask = 0, checkCache = False, dumpCache = False, readBufferSize = 0, stopFile = None,
     abortOnCacheProblem = False, logfp = None, inotifyReadCnt = 0, wlCache = c, rootDirPaths = roots,
     rootDirStat = [], ignoreRootDirs = 0, dirCnt = 0, ifd = 4, reinitCnt = 0, overflowCnt = 0\<rparr>"

section \<open>Properties\<close>

text \<open>C2: The operations of the watch cache implement a map from watch descriptors to path names.
  With memory available, \<open>addWatchToCache\<close> adds exactly the new pair, growing the array when no slot
  is free and whatever the fresh memory held; looking the descriptor up finds the slot that holds
  it; marking that slot empty removes exactly that descriptor again; and the invariant of the
  array (valid and unique descriptors, empty paths in unused slots, terminated paths) is kept.\<close>
theorem watch_cache_refines_map:
  assumes "cache_wf (wlCache s)" and "0 \<le> d" and "length p < PATH_MAX" and "findWatch d (wlCache s) = - 1"
    and "dk_alloc_ok K (world s) (length (wlCache s) + ALLOC_INCR)"
  shows "\<exists>j s1 s2. addWatchToCache et K d p s = (Inr j, s1)
    \<and> cache_wf (wlCache s1) \<and> cmap (wlCache s1) = (cmap (wlCache s))(d \<mapsto> p)
    \<and> findWatch d (wlCache s1) = int j \<and> path (wlCache s1 ! j) = p
    \<and> markCacheSlotEmpty j s1 = (Inr (), s2)
    \<and> cache_wf (wlCache s2) \<and> cmap (wlCache s2) = cmap (wlCache s)"
proof -
  let ?c = "wlCache s"
  have fresh: "cmap ?c d = None" using assms(2,4) findWatch_cmap by blast
  let ?j = "free_slot ?c"
  obtain s1 where add: "addWatchToCache et K d p s = (Inr ?j, s1)" "wlCache s1 = cache_put d p ?c"
    using addWatchToCache_run[OF assms(5)] by blast
  have wf1: "cache_wf (wlCache s1)" using cache_wf_put[OF assms(1,2) fresh assms(3)] add(2) by simp
  have j: "?j < length (wlCache s1)" using free_slot_ok(1)[of ?c] by (simp add: add(2) cache_put_def)
  have at: "wlCache s1 ! ?j = \<lparr>wd = d, path = p\<rparr>"
    using free_slot_ok(1)[of ?c] assms(3) by (simp add: add(2) cache_put_def)
  have "\<forall>i < ?j. wd (wlCache s1 ! i) \<noteq> d"
  proof (intro allI impI notI)
    fix i assume i: "i < ?j" and eq: "wd (wlCache s1 ! i) = d"
    have "i = ?j" by (rule cache_wf_inj[OF wf1]) (use i j eq at assms(2) in auto)
    with i show False by simp
  qed
  then have "findWatch d (wlCache s1) = int ?j"
    using at j by (simp add: findWatch_def find_slot_Some)
  moreover have "cmap (wlCache s1) = (cmap ?c)(d \<mapsto> p)"
    using cmap_put[OF assms(1,2) fresh assms(3)] add(2) by simp
  moreover have "cmap (wlCache (marked ?j s1)) = cmap ?c"
    using cmap_clear[OF wf1 j] j at calculation(2) fresh by (simp add: fun_upd_idem)
  ultimately show ?thesis
    using add(1) wf1 j at cache_wf_clear[OF wf1, of ?j] by auto
qed

theorem watch_cache_refines_map_witness:
  "\<exists>j s1. addWatchToCache \<lparr>ename = [], strerror = (\<lambda>_. [])\<rparr> demo_dkernel 7 ''/d'' (demo_state [] [] []) = (Inr j, s1)
    \<and> cmap (wlCache s1) 7 = Some ''/d'' \<and> cmap (wlCache s1) 8 = None"
proof -
  let ?s = "demo_state [] [] []"
  have "dk_alloc_ok demo_dkernel (world ?s) (length (wlCache ?s) + ALLOC_INCR)" by (simp add: demo_dkernel_def)
  moreover have "cache_wf (wlCache ?s)" "findWatch 7 (wlCache ?s) = - 1" "cmap (wlCache ?s) 8 = None"
    by (simp_all add: demo_state_def findWatch_def)
  ultimately show ?thesis
    using watch_cache_refines_map[of ?s 7 "''/d''" demo_dkernel "\<lparr>ename = [], strerror = (\<lambda>_. [])\<rparr>"] by fastforce
qed

text \<open>\<open>checkCacheConsistency\<close> tests \<open>S_ISDIR\<close> in the branch of the unused slots: on a cache with
  an unused slot before the first used one it reads an uninitialised variable, and it never
  reports a cached path that is no directory as long as every slot is used.\<close>
theorem checkCacheConsistency_misplaced_test:
  assumes "wlCache s \<noteq> []"
  shows "(wd (wlCache s ! 0) < 0 \<longrightarrow> fst (checkCacheConsistency et K s) = Inl Undefined)
    \<and> ((\<forall>e \<in> set (wlCache s). 0 \<le> wd e) \<longrightarrow> (\<exists>s'. checkCacheConsistency et K s = (Inr (), s')))"
proof -
  have all: "\<exists>r s'. check_loop et K j c sb n s = (Inr r, s')" if "\<forall>e \<in> set c. 0 \<le> wd e" for j c sb n and s :: "'a dtree"
    using that
  proof (induction c arbitrary: j sb n s)
    case (Cons e c)
    then show ?case
      by (cases rule: syscall_cases[of "dk_lstat K (path e)" s]) (simp_all del: logMessage_run add: logMessage_run andThen_run)
  qed simp
  obtain e c where c: "wlCache s = e # c" using assms by (cases "wlCache s") auto
  show ?thesis
  proof (intro conjI impI)
    assume "wd (wlCache s ! 0) < 0"
    then show "fst (checkCacheConsistency et K s) = Inl Undefined"
      using c by (simp add: checkCacheConsistency_def andThen_run)
  next
    assume "\<forall>e \<in> set (wlCache s). 0 \<le> wd e"
    then obtain r s' where "check_loop et K 0 (wlCache s) None 0 s = (Inr r, s')" using all by blast
    then show "\<exists>s'. checkCacheConsistency et K s = (Inr (), s')"
      by (simp add: checkCacheConsistency_def andThen_run)
  qed
qed

theorem checkCacheConsistency_misplaced_test_witness:
  "fst (checkCacheConsistency \<lparr>ename = [], strerror = (\<lambda>_. [])\<rparr> demo_dkernel
     (demo_state [empty_slot, \<lparr>wd = 1, path = ''/d''\<rparr>] [] [])) = Inl Undefined"
  using checkCacheConsistency_misplaced_test[of "demo_state [empty_slot, \<lparr>wd = 1, path = ''/d''\<rparr>] [] []"
      "\<lparr>ename = [], strerror = (\<lambda>_. [])\<rparr>" demo_dkernel]
  by (simp add: demo_state_def)

end
