(* ===== verification/Dtree_Watch.thy ===== *)
theory Dtree_Watch
  imports Dtree_Cache
begin

text \<open>
  \<open>inotify/inotify_dtree.c\<close>, second part: the root directories named on the command line, watching a
  subtree, renaming and removing a subtree in the cache, and rebuilding the cache.
\<close>

unbundle bit_operations_syntax

section \<open>Inotify flags\<close>

abbreviation (input) IN_MOVED_FROM :: "32 word" where "IN_MOVED_FROM \<equiv> 0x40"
abbreviation (input) IN_MOVED_TO :: "32 word" where "IN_MOVED_TO \<equiv> 0x80"
abbreviation (input) IN_CREATE :: "32 word" where "IN_CREATE \<equiv> 0x100"
abbreviation (input) IN_DELETE_SELF :: "32 word" where "IN_DELETE_SELF \<equiv> 0x400"
abbreviation (input) IN_MOVE_SELF :: "32 word" where "IN_MOVE_SELF \<equiv> 0x800"
abbreviation (input) IN_UNMOUNT :: "32 word" where "IN_UNMOUNT \<equiv> 0x2000"
abbreviation (input) IN_Q_OVERFLOW :: "32 word" where "IN_Q_OVERFLOW \<equiv> 0x4000"
abbreviation (input) IN_IGNORED :: "32 word" where "IN_IGNORED \<equiv> 0x8000"
abbreviation (input) IN_ONLYDIR :: "32 word" where "IN_ONLYDIR \<equiv> 0x1000000"
abbreviation (input) IN_ISDIR :: "32 word" where "IN_ISDIR \<equiv> 0x40000000"

section \<open>Root directories\<close>

definition count_root :: "'w dkernel \<Rightarrow> string \<Rightarrow> ('w dtree, unit) program" where
  "count_root K p = andThen (syscall (dk_lstat K p)) (\<lambda>r. case r of
     None \<Rightarrow> andThen (eprintf ''lstat() failed on '%s'\<newline>'' [FStr p]) (\<lambda>_. exit_process EXIT_FAILURE)
   | Some sb \<Rightarrow>
       if \<not> is_dir sb
       then andThen (eprintf ([QUOTE] @ ''%s'' @ [QUOTE] @ '' is not a directory\<newline>'') [FStr p])
              (\<lambda>_. exit_process EXIT_FAILURE)
       else ret ())"

text \<open>The first earlier root that is the same file system object.\<close>

fun same_object :: "stat \<Rightarrow> stat list \<Rightarrow> nat \<Rightarrow> nat option" where
  "same_object st [] k = None"
| "same_object st (x # xs) k =
     (if st_ino st = st_ino x \<and> st_dev st = st_dev x then Some k else same_object st xs (Suc k))"

definition copy_root :: "err_texts \<Rightarrow> 'w dkernel \<Rightarrow> bool \<Rightarrow> string list \<Rightarrow> nat \<Rightarrow> ('w dtree, unit) program" where
  "copy_root et K stat_ok argv j =
     andThen (query (\<lambda>s. dk_alloc_ok K (world s) (Suc (length (argv ! j))))) (\<lambda>ok.
     if \<not> ok then errExit_macro et ''strdup''
     else
     andThen (modify (\<lambda>s. s\<lparr>rootDirPaths := (rootDirPaths s)[j := Some (argv ! j)]\<rparr>)) (\<lambda>_.
     andThen (if stat_ok then syscall (dk_lstat K (argv ! j))
              else andThen (modify (\<lambda>s. s\<lparr>p_errno := EOTHER 14\<rparr>)) (\<lambda>_. ret None)) (\<lambda>r. case r of
       None \<Rightarrow> errExit_macro et ''lstat''
     | Some st \<Rightarrow>
         andThen (query rootDirStat) (\<lambda>sts. case same_object st sts 0 of
           Some k \<Rightarrow> andThen (eprintf ''Duplicate filesystem objects: %s, %s\<newline>'' [FStr (argv ! j), FStr (argv ! k)])
                       (\<lambda>_. exit_process EXIT_FAILURE)
         | None \<Rightarrow> modify (\<lambda>s. s\<lparr>rootDirStat := sts @ [st]\<rparr>)))))"

text \<open>The second allocation is checked through the wrong variable; \<open>lstat\<close> then fails on the null
  pointer.\<close>

definition copyRootDirPaths :: "err_texts \<Rightarrow> 'w dkernel \<Rightarrow> string list \<Rightarrow> ('w dtree, unit) program" where
  "copyRootDirPaths et K argv =
     andThen (forEach argv (count_root K)) (\<lambda>_.
     andThen (query (\<lambda>s. dk_alloc_ok K (world s) (8 * length argv))) (\<lambda>ok.
     if \<not> ok then errExit_macro et ''calloc''
     else
     andThen (modify (\<lambda>s. s\<lparr>rootDirPaths := replicate (length argv) None, rootDirStat := []\<rparr>)) (\<lambda>_.
     andThen (query (\<lambda>s. dk_alloc_ok K (world s) (144 * length argv))) (\<lambda>stat_ok.
     andThen (forEach [0..<length argv] (copy_root et K stat_ok argv)) (\<lambda>_.
     modify (\<lambda>s. s\<lparr>ignoreRootDirs := 0\<rparr>))))))"

fun find_root :: "string \<Rightarrow> string option list \<Rightarrow> nat \<Rightarrow> nat option" where
  "find_root p [] j = None"
| "find_root p (r # rs) j = (if r = Some p then Some j else find_root p rs (Suc j))"

definition findRootDirPath :: "string \<Rightarrow> string option list \<Rightarrow> nat option" where
  "findRootDirPath p roots = find_root p roots 0"

definition isRootDirPath :: "string \<Rightarrow> string option list \<Rightarrow> bool" where
  "isRootDirPath p roots = (findRootDirPath p roots \<noteq> None)"

definition zapRootDirPath :: "string \<Rightarrow> ('w dtree, unit) program" where
  "zapRootDirPath p =
     andThen (printf ''zapRootDirPath: %s\<newline>'' [FStr p]) (\<lambda>_.
     andThen (query (\<lambda>s. findRootDirPath p (rootDirPaths s))) (\<lambda>r. case r of
       None \<Rightarrow> andThen (eprintf ''zapRootDirPath(): path not found!\<newline>'' []) (\<lambda>_. exit_process EXIT_FAILURE)
     | Some j \<Rightarrow>
         andThen (modify (\<lambda>s. s\<lparr>rootDirPaths := (rootDirPaths s)[j := None], ignoreRootDirs := Suc (ignoreRootDirs s)\<rparr>)) (\<lambda>_.
         andThen (query (\<lambda>s. ignoreRootDirs s = length (rootDirPaths s))) (\<lambda>none_left.
         if none_left
         then andThen (eprintf ''No more root paths left to monitor; bye!\<newline>'' []) (\<lambda>_. exit_process EXIT_SUCCESS)
         else ret ()))))"

section \<open>Watching a subtree\<close>

definition traverseTree :: "err_texts \<Rightarrow> 'w dkernel \<Rightarrow> string \<times> bool \<Rightarrow> ('w dtree, unit) program" where
  "traverseTree et K v = (case v of (pathname, isdir) \<Rightarrow>
     if \<not> isdir then ret ()
     else
     andThen (query (\<lambda>s. isRootDirPath pathname (rootDirPaths s))) (\<lambda>root.
     let flags = IN_CREATE OR IN_MOVED_FROM OR IN_MOVED_TO OR IN_DELETE_SELF OR (if root then IN_MOVE_SELF else 0) in
     andThen (query ifd) (\<lambda>fd.
     andThen (syscall (dk_add_watch K fd pathname (flags OR IN_ONLYDIR))) (\<lambda>r. case r of
       None \<Rightarrow>
         andThen (query p_errno) (\<lambda>e.
         andThen (logMessage VB_BASIC ''inotify_add_watch: %s: %s\<newline>'' [FStr pathname, FStr (strerror et (errnum e))]) (\<lambda>_.
         if e = ENOENT then ret () else exit_process EXIT_FAILURE))
     | Some d \<Rightarrow>
         andThen (query (\<lambda>s. findWatch d (wlCache s))) (\<lambda>found.
         if found \<ge> 0
         then logMessage VB_BASIC ''WD %d already in cache (%s)\<newline>'' [FInt d, FStr pathname]
         else
         andThen (modify (\<lambda>s. s\<lparr>dirCnt := Suc (dirCnt s)\<rparr>)) (\<lambda>_.
         andThen (addWatchToCache et K d pathname) (\<lambda>slot.
         logMessage VB_NOISY ''    watchDir: wd = %d [cache slot: %d]; %s\<newline>''
           [FInt d, FInt (int slot), FStr pathname])))))))"

definition watchDir :: "err_texts \<Rightarrow> 'w dkernel \<Rightarrow> int \<Rightarrow> string \<Rightarrow> ('w dtree, nat) program" where
  "watchDir et K inotifyFd pathname =
     andThen (modify (\<lambda>s. s\<lparr>dirCnt := 0, ifd := inotifyFd\<rparr>)) (\<lambda>_.
     andThen (query (\<lambda>s. dk_nftw K pathname (world s))) (\<lambda>(visits, status, w).
     andThen (modify (\<lambda>s. s\<lparr>world := w\<rparr>)) (\<lambda>_.
     andThen (forEach visits (traverseTree et K)) (\<lambda>_.
     andThen (case status of
         Some e \<Rightarrow> andThen (modify (\<lambda>s. s\<lparr>p_errno := e\<rparr>)) (\<lambda>_.
           logMessage VB_BASIC ''nftw: %s: %s (directory probably deleted before we could watch)\<newline>''
             [FStr pathname, FStr (strerror et (errnum e))])
       | None \<Rightarrow> ret ()) (\<lambda>_.
     query dirCnt)))))"

definition watchSubtree :: "err_texts \<Rightarrow> 'w dkernel \<Rightarrow> int \<Rightarrow> string \<Rightarrow> ('w dtree, unit) program" where
  "watchSubtree et K inotifyFd p =
     andThen (watchDir et K inotifyFd p) (\<lambda>cnt.
     logMessage VB_BASIC ''    watchSubtree: %s: %d entries added\<newline>'' [FStr p, FInt (int cnt)])"

section \<open>Renaming and removing a subtree\<close>

text \<open>The test both functions use: the prefix agrees and ends at a component boundary.\<close>

definition below :: "string \<Rightarrow> string \<Rightarrow> bool" where
  "below p q = (strncmp_eq p q (length p) \<and> (cchar_at q (length p) = CHR ''/'' \<or> cchar_at q (length p) = NUL))"

definition rewrite_slot :: "string \<Rightarrow> string \<Rightarrow> nat \<Rightarrow> ('w dtree, unit) program" where
  "rewrite_slot fullPath newPrefix j =
     andThen (read_slot j) (\<lambda>e.
     if below fullPath (path e)
     then (let text = newPrefix @ drop (length fullPath) (path e); newPath = snprintf_buf PATH_MAX text in
       andThen (if length text > PATH_MAX
                then logMessage VB_BASIC ''Truncated pathname: %s\<newline>'' [FStr newPath] else ret ()) (\<lambda>_.
       andThen (write_slot j (e\<lparr>path := strncpy_arr PATH_MAX newPath\<rparr>)) (\<lambda>_.
       logMessage VB_NOISY ''    wd %d [cache slot %d] ==> %s\<newline>'' [FInt (wd e), FInt (int j), FStr newPath])))
     else ret ())"

definition rewriteCachedPaths :: "string \<Rightarrow> string \<Rightarrow> string \<Rightarrow> string \<Rightarrow> ('w dtree, unit) program" where
  "rewriteCachedPaths oldPathPrefix oldName newPathPrefix newName =
     (let fullPath = snprintf_buf PATH_MAX (oldPathPrefix @ ''/'' @ oldName);
          newPrefix = snprintf_buf PATH_MAX (newPathPrefix @ ''/'' @ newName) in
      andThen (logMessage VB_BASIC ''Rename: %s ==> %s\<newline>'' [FStr fullPath, FStr newPrefix]) (\<lambda>_.
      andThen (query (\<lambda>s. length (wlCache s))) (\<lambda>cacheSize.
      forEach [0..<cacheSize] (rewrite_slot fullPath newPrefix))))"

fun zap_loop :: "err_texts \<Rightarrow> 'w dkernel \<Rightarrow> int \<Rightarrow> string \<Rightarrow> nat list \<Rightarrow> int \<Rightarrow> ('w dtree, int) program" where
  "zap_loop et K inotifyFd pn [] cnt = ret cnt"
| "zap_loop et K inotifyFd pn (j # js) cnt =
     andThen (read_slot j) (\<lambda>e.
     if wd e \<ge> 0 \<and> below pn (path e)
     then
       andThen (logMessage VB_NOISY ''    removing watch: wd = %d (%s)\<newline>'' [FInt (wd e), FStr (path e)]) (\<lambda>_.
       andThen (syscall (dk_rm_watch K inotifyFd (wd e))) (\<lambda>r. case r of
         None \<Rightarrow>
           andThen (query p_errno) (\<lambda>err.
           andThen (logMessage 0 ''inotify_rm_watch wd = %d (%s): %s\<newline>''
                     [FInt (wd e), FStr (path e), FStr (strerror et (errnum err))]) (\<lambda>_.
           ret (- 1)))
       | Some _ \<Rightarrow>
           andThen (markCacheSlotEmpty j) (\<lambda>_.
           zap_loop et K inotifyFd pn js (cnt + 1))))
     else zap_loop et K inotifyFd pn js cnt)"

text \<open>The path is copied first, because it may be stored in the cache; the result of \<open>strdup\<close> is not
  tested, so that the first comparison with a used slot goes wrong when there is no memory.\<close>

definition zapSubtree :: "err_texts \<Rightarrow> 'w dkernel \<Rightarrow> int \<Rightarrow> string \<Rightarrow> ('w dtree, int) program" where
  "zapSubtree et K inotifyFd p =
     andThen (logMessage VB_NOISY ''Zapping subtree: %s\<newline>'' [FStr p]) (\<lambda>_.
     andThen (query (\<lambda>s. dk_alloc_ok K (world s) (Suc (length p)))) (\<lambda>copied.
     andThen (query wlCache) (\<lambda>c.
     if \<not> copied \<and> (\<exists>e\<in>set c. wd e \<ge> 0) then halts Undefined
     else zap_loop et K inotifyFd p [0..<length c] 0)))"

section \<open>Rebuilding the cache\<close>

definition watch_root :: "err_texts \<Rightarrow> 'w dkernel \<Rightarrow> int \<Rightarrow> nat \<Rightarrow> ('w dtree, unit) program" where
  "watch_root et K inotifyFd j = andThen (query (\<lambda>s. rootDirPaths s ! j)) (\<lambda>r. case r of
     None \<Rightarrow> ret () | Some p \<Rightarrow> watchSubtree et K inotifyFd p)"

definition used_slots :: "watch list \<Rightarrow> nat" where
  "used_slots c = length (filter (\<lambda>e. wd e \<ge> 0) c)"

definition announce_rebuild :: "'w dkernel \<Rightarrow> int \<Rightarrow> ('w dtree, unit) program" where
  "announce_rebuild K oldInotifyFd =
     (if oldInotifyFd \<ge> 0
      then
        andThen (syscall (dk_close K oldInotifyFd)) (\<lambda>_.
        andThen (modify (\<lambda>s. s\<lparr>reinitCnt := Suc (reinitCnt s)\<rparr>)) (\<lambda>_.
        andThen (query reinitCnt) (\<lambda>n.
        logMessage 0 ''Reinitializing cache and inotify FD (reinitCnt = %d)\<newline>'' [FInt (int n)])))
      else
        andThen (logMessage 0 ''Initializing cache\<newline>'' []) (\<lambda>_.
        modify (\<lambda>s. s\<lparr>reinitCnt := 0\<rparr>)))"

definition reinitialize :: "err_texts \<Rightarrow> 'w dkernel \<Rightarrow> int \<Rightarrow> ('w dtree, int) program" where
  "reinitialize et K oldInotifyFd =
     andThen (announce_rebuild K oldInotifyFd) (\<lambda>_.
     andThen (or_die (syscall (dk_inotify_init K)) (errExit_macro et ''inotify_init'')) (\<lambda>inotifyFd.
     andThen (logMessage VB_BASIC ''    new inotifyFd = %d\<newline>'' [FInt inotifyFd]) (\<lambda>_.
     andThen freeCache (\<lambda>_.
     andThen (query (\<lambda>s. length (rootDirPaths s))) (\<lambda>numRootDirs.
     andThen (forEach [0..<numRootDirs] (watch_root et K inotifyFd)) (\<lambda>_.
     andThen (query (\<lambda>s. used_slots (wlCache s))) (\<lambda>cnt.
     andThen (if oldInotifyFd \<ge> 0
              then logMessage 0 ''Rebuilt cache with %d entries\<newline>'' [FInt (int cnt)] else ret ()) (\<lambda>_.
     ret inotifyFd))))))))"

section \<open>Lemmas\<close>

subsection \<open>Path prefixes\<close>

text \<open>On C strings the test is the one intended: the path itself or something below it.\<close>

lemma below_iff:
  assumes "NUL \<notin> set q"
  shows "below p q \<longleftrightarrow> q = p \<or> (\<exists>r. q = p @ ''/'' @ r)"
proof
  assume b: "below p q"
  then have pre: "take (length p) q = p" by (simp add: below_def strncmp_eq_def)
  then obtain r where q: "q = p @ r" by (metis append_take_drop_id)
  show "q = p \<or> (\<exists>r. q = p @ ''/'' @ r)"
  proof (cases r)
    case (Cons a as)
    with b q assms have "a = CHR ''/''" by (auto simp: below_def cchar_at_def nth_append)
    with Cons q show ?thesis by simp
  qed (use q in simp)
qed (auto simp: below_def strncmp_eq_def cchar_at_def nth_append)

lemma below_refl [simp]: "below p p"
  by (simp add: below_def strncmp_eq_def cchar_at_def)

lemma below_Nil: "p \<noteq> [] \<Longrightarrow> \<not> below p []"
  by (simp add: below_def strncmp_eq_def)

lemma below_append: "below p q \<Longrightarrow> q = p @ drop (length p) q"
  by (metis append_take_drop_id below_def strncmp_eq_def take_all_iff order_refl)

subsection \<open>Loops over the slots\<close>

definition frame :: "'w dtree \<Rightarrow> string option list \<times> nat \<times> bool \<times> bool" where
  "frame s = (rootDirPaths s, ignoreRootDirs s, checkCache s, dumpCache s)"

lemma forEach_slots:
  assumes step: "\<And>j s. j < length (wlCache s) \<Longrightarrow>
      \<exists>s'. f j s = (Inr (), s') \<and> wlCache s' = (wlCache s)[j := g (wlCache s ! j)] \<and> frame s' = frame s"
    and "n \<le> length (wlCache s)"
  shows "\<exists>s'. forEach [n..<length (wlCache s)] f s = (Inr (), s')
    \<and> wlCache s' = take n (wlCache s) @ map g (drop n (wlCache s)) \<and> frame s' = frame s"
  using assms(2)
proof (induction "length (wlCache s) - n" arbitrary: n s)
  case 0
  then show ?case by simp
next
  case (Suc m)
  then have n: "n < length (wlCache s)" by simp
  then obtain s1 where s1: "f n s = (Inr (), s1)" "wlCache s1 = (wlCache s)[n := g (wlCache s ! n)]" "frame s1 = frame s"
    using step by blast
  have len: "length (wlCache s1) = length (wlCache s)" by (simp add: s1(2))
  have m: "m = length (wlCache s1) - Suc n" using Suc.hyps(2) len by simp
  obtain s' where s': "forEach [Suc n..<length (wlCache s1)] f s1 = (Inr (), s')"
    "wlCache s' = take (Suc n) (wlCache s1) @ map g (drop (Suc n) (wlCache s1))" "frame s' = frame s1"
    using Suc.hyps(1)[OF m] n len by auto
  have "wlCache s' = take n (wlCache s) @ map g (drop n (wlCache s))"
    using s'(2) n by (simp add: s1(2) take_Suc_conv_app_nth flip: Cons_nth_drop_Suc)
  moreover have "[n..<length (wlCache s)] = n # [Suc n..<length (wlCache s1)]" using n len by (simp add: upt_conv_Cons)
  ultimately show ?case using s1 s' by simp
qed

subsection \<open>Renaming\<close>

definition renamed :: "string \<Rightarrow> string \<Rightarrow> watch \<Rightarrow> watch" where
  "renamed p q e = (if below p (path e) then e\<lparr>path := snprintf_buf PATH_MAX (q @ drop (length p) (path e))\<rparr> else e)"

lemma rewrite_slot_run:
  assumes "j < length (wlCache s)"
  shows "\<exists>s'. rewrite_slot p q j s = (Inr (), s') \<and> wlCache s' = (wlCache s)[j := renamed p q (wlCache s ! j)]
     \<and> frame s' = frame s"
proof -
  have "strncpy_arr PATH_MAX (snprintf_buf PATH_MAX t) = snprintf_buf PATH_MAX t" for t
    using snprintf_buf_length[of PATH_MAX t] by (simp add: less_imp_le)
  with assms show ?thesis by (simp add: rewrite_slot_def renamed_def Let_def frame_def andThen_run)
qed

lemma rewriteCachedPaths_run:
  "\<exists>s'. rewriteCachedPaths op on np nn s = (Inr (), s')
    \<and> wlCache s' = map (renamed (snprintf_buf PATH_MAX (op @ ''/'' @ on)) (snprintf_buf PATH_MAX (np @ ''/'' @ nn))) (wlCache s)
    \<and> frame s' = frame s"
proof -
  let ?p = "snprintf_buf PATH_MAX (op @ ''/'' @ on)" and ?q = "snprintf_buf PATH_MAX (np @ ''/'' @ nn)"
  let ?s1 = "logged VB_BASIC ''Rename: %s ==> %s\<newline>'' [FStr ?p, FStr ?q] s"
  have "frame ?s1 = frame s" by (simp add: frame_def)
  with forEach_slots[where f = "rewrite_slot ?p ?q" and g = "renamed ?p ?q" and n = 0 and s = ?s1, OF rewrite_slot_run]
  show ?thesis by (simp add: rewriteCachedPaths_def Let_def)
qed

lemma renamed_wd [simp]: "wd (renamed p q e) = wd e"
  by (simp add: renamed_def)

lemma slot_wf_renamed: "slot_wf e \<Longrightarrow> p \<noteq> [] \<Longrightarrow> slot_wf (renamed p q e)"
  by (auto simp: slot_wf_def renamed_def below_Nil)

lemma cache_wf_map:
  assumes "cache_wf c" and "\<And>e. e \<in> set c \<Longrightarrow> slot_wf (g e)" and "\<And>e. e \<in> set c \<Longrightarrow> wd (g e) = wd e \<or> wd (g e) < 0"
  shows "cache_wf (map g c)"
  unfolding cache_wf_def
proof (intro conjI allI impI)
  fix i j assume ij: "i < length (map g c)" "j < length (map g c)"
    and eq: "wd (map g c ! i) = wd (map g c ! j) \<and> 0 \<le> wd (map g c ! i)"
  then have "wd (c ! i) = wd (c ! j)" "0 \<le> wd (c ! i)"
    using assms(3)[of "c ! i"] assms(3)[of "c ! j"] by auto
  then show "i = j" using cache_wf_inj[OF assms(1)] ij by simp
qed (use assms(2) in auto)

lemma cache_wf_renamed: "cache_wf c \<Longrightarrow> p \<noteq> [] \<Longrightarrow> cache_wf (map (renamed p q) c)"
  by (rule cache_wf_map) (auto simp: slot_wf_renamed cache_wf_def)

lemma cmap_renamed:
  assumes "cache_wf c" and "p \<noteq> []"
  shows "cmap (map (renamed p q) c) = (\<lambda>d. map_option (\<lambda>x. path (renamed p q \<lparr>wd = d, path = x\<rparr>)) (cmap c d))"
proof (rule ext)
  fix d
  note wf' = cache_wf_renamed[OF assms, of q]
  have pr: "path (renamed p q e) = path (renamed p q \<lparr>wd = d, path = path e\<rparr>)" for e
    by (simp add: renamed_def)
  show "cmap (map (renamed p q) c) d = map_option (\<lambda>x. path (renamed p q \<lparr>wd = d, path = x\<rparr>)) (cmap c d)"
  proof (cases "cmap c d")
    case None
    then have "cmap (map (renamed p q) c) d = None" unfolding cmap_None by auto
    with None show ?thesis by simp
  next
    case (Some x)
    then obtain e where e: "0 \<le> d" "e \<in> set c" "wd e = d" "path e = x" using cmap_Some[OF assms(1)] by auto
    have "cmap (map (renamed p q) c) d = Some (path (renamed p q e))"
      unfolding cmap_Some[OF wf'] using e by auto
    with pr[of e] e(4) Some show ?thesis by simp
  qed
qed

subsection \<open>Removing\<close>

definition hit :: "string \<Rightarrow> watch \<Rightarrow> bool" where
  "hit p e = (0 \<le> wd e \<and> below p (path e))"

definition zapped :: "string \<Rightarrow> watch \<Rightarrow> watch" where
  "zapped p e = (if hit p e then empty_slot else e)"

definition hits :: "string \<Rightarrow> watch list \<Rightarrow> int" where
  "hits p c = int (length (filter (hit p) c))"

text \<open>The loop stops early only on a failing \<open>inotify_rm_watch\<close>; the slots it passed are done.\<close>

lemma zap_loop_run:
  assumes "n \<le> length (wlCache s)" and "0 \<le> cnt"
  shows "\<exists>r k s'. zap_loop et K fd p [n..<length (wlCache s)] cnt s = (Inr r, s') \<and> frame s' = frame s
    \<and> wlCache s' = take n (wlCache s) @ map (zapped p) (take k (drop n (wlCache s))) @ drop (n + k) (wlCache s)
    \<and> (r = - 1 \<and> (\<exists>d w e w'. dk_rm_watch K fd d w = (Inl e, w'))
       \<or> r = cnt + hits p (drop n (wlCache s)) \<and> n + k = length (wlCache s))"
  using assms
proof (induction "length (wlCache s) - n" arbitrary: n s cnt)
  case 0
  then show ?case by (auto simp: hits_def)
next
  case (Suc m)
  let ?c = "wlCache s" and ?e = "wlCache s ! n"
  have n: "n < length ?c" using Suc.hyps(2) by simp
  have up: "[n..<length ?c] = n # [Suc n..<length ?c]" using n by (simp add: upt_conv_Cons)
  have dr: "drop n ?c = ?e # drop (Suc n) ?c" using n by (simp add: Cons_nth_drop_Suc)
  show ?case
  proof (cases "hit p ?e")
    case False
    have m: "m = length (wlCache s) - Suc n" using Suc.hyps(2) by simp
    obtain r k s' where s': "zap_loop et K fd p [Suc n..<length ?c] cnt s = (Inr r, s')" "frame s' = frame s"
      "wlCache s' = take (Suc n) ?c @ map (zapped p) (take k (drop (Suc n) ?c)) @ drop (Suc n + k) ?c"
      "r = - 1 \<and> (\<exists>d w e w'. dk_rm_watch K fd d w = (Inl e, w')) \<or> r = cnt + hits p (drop (Suc n) ?c) \<and> Suc n + k = length ?c"
      using Suc.hyps(1)[OF m Suc_leI[OF n] Suc.prems(2)] by blast
    have "wlCache s' = take n ?c @ map (zapped p) (take (Suc k) (drop n ?c)) @ drop (n + Suc k) ?c"
      using s'(3) n False dr by (simp add: take_Suc_conv_app_nth zapped_def)
    moreover have "hits p (drop n ?c) = hits p (drop (Suc n) ?c)" using False dr by (simp add: hits_def)
    ultimately show ?thesis
      using s' n False by (intro exI[of _ r] exI[of _ "Suc k"] exI[of _ s']) (auto simp: up hit_def)
  next
    case True
    let ?s1 = "logged VB_NOISY ''    removing watch: wd = %d (%s)\<newline>'' [FInt (wd ?e), FStr (path ?e)] s"
    have fr: "frame ?s1 = frame s" by (simp add: frame_def)
    obtain q w where rm: "dk_rm_watch K fd (wd ?e) (world s) = (q, w)" by fastforce
    show ?thesis
    proof (cases q)
      case (Inl err)
      let ?s2 = "?s1\<lparr>p_errno := err, world := w\<rparr>"
      let ?s3 = "logged 0 ''inotify_rm_watch wd = %d (%s): %s\<newline>''
          [FInt (wd ?e), FStr (path ?e), FStr (strerror et (errnum err))] ?s2"
      have "zap_loop et K fd p [n..<length ?c] cnt s = (Inr (- 1), ?s3)"
        using n True rm Inl by (simp add: up hit_def)
      then show ?thesis using rm Inl n by (intro exI[of _ "- 1"] exI[of _ 0] exI[of _ ?s3]) (auto simp: frame_def)
    next
      case (Inr u)
      let ?s2 = "marked n (?s1\<lparr>world := w\<rparr>)"
      have c2: "wlCache ?s2 = ?c[n := empty_slot]" and f2: "frame ?s2 = frame s" using n by (simp_all add: frame_def)
      have m: "m = length (wlCache ?s2) - Suc n" using Suc.hyps(2) c2 by simp
      have n2: "Suc n \<le> length (wlCache ?s2)" and cnt2: "0 \<le> cnt + 1" using n c2 Suc.prems(2) by simp_all
      obtain r k s' where s': "zap_loop et K fd p [Suc n..<length (wlCache ?s2)] (cnt + 1) ?s2 = (Inr r, s')" "frame s' = frame ?s2"
        "wlCache s' = take (Suc n) (wlCache ?s2) @ map (zapped p) (take k (drop (Suc n) (wlCache ?s2))) @ drop (Suc n + k) (wlCache ?s2)"
        "r = - 1 \<and> (\<exists>d w e w'. dk_rm_watch K fd d w = (Inl e, w'))
          \<or> r = cnt + 1 + hits p (drop (Suc n) (wlCache ?s2)) \<and> Suc n + k = length (wlCache ?s2)"
        using Suc.hyps(1)[OF m n2 cnt2] by blast
      have "wlCache s' = take n ?c @ map (zapped p) (take (Suc k) (drop n ?c)) @ drop (n + Suc k) ?c"
        using s'(3) n True dr by (simp add: c2 take_Suc_conv_app_nth zapped_def drop_update_cancel)
      moreover have "hits p (drop n ?c) = 1 + hits p (drop (Suc n) ?c)" using True dr by (simp add: hits_def)
      moreover have "zap_loop et K fd p [n..<length ?c] cnt s = (Inr r, s')"
        using s'(1) n True rm Inr by (simp add: up hit_def c2)
      ultimately show ?thesis
        using s' f2 by (intro exI[of _ r] exI[of _ "Suc k"] exI[of _ s']) (auto simp: c2 drop_update_cancel)
    qed
  qed
qed

lemma zapSubtree_run:
  assumes "dk_alloc_ok K (world s) (Suc (length p))"
  shows "\<exists>r k s'. zapSubtree et K fd p s = (Inr r, s') \<and> frame s' = frame s
    \<and> wlCache s' = map (zapped p) (take k (wlCache s)) @ drop k (wlCache s)
    \<and> (r = - 1 \<and> (\<exists>d w e w'. dk_rm_watch K fd d w = (Inl e, w')) \<or> r = hits p (wlCache s) \<and> k = length (wlCache s))"
  using zap_loop_run[where n = 0 and s = "logged VB_NOISY ''Zapping subtree: %s\<newline>'' [FStr p] s" and cnt = 0
      and et = et and K = K and fd = fd and p = p]
  assms by (simp add: zapSubtree_def frame_def)

text \<open>The removals the kernel is asked for: the descriptors in turn, up to the first that fails. The
  result holds those that were removed and the error, if there was one.\<close>

fun rm_watches :: "'w dkernel \<Rightarrow> int \<Rightarrow> int list \<Rightarrow> 'w \<Rightarrow> int list \<times> errno option \<times> 'w" where
  "rm_watches K fd [] w = ([], None, w)"
| "rm_watches K fd (d # ds) w = (case dk_rm_watch K fd d w of
       (Inl e, w') \<Rightarrow> ([], Some e, w')
     | (Inr _, w') \<Rightarrow> (case rm_watches K fd ds w' of (gone, r) \<Rightarrow> (d # gone, r)))"

lemma rm_watches_prefix:
  "rm_watches K fd ds w = (gone, err, w') \<Longrightarrow> (err = None \<longrightarrow> gone = ds) \<and> (\<exists>rest. ds = gone @ rest)"
  by (induction ds arbitrary: w gone) (fastforce split: prod.splits sum.splits)+

lemma zap_loop_exact:
  assumes "cache_wf (wlCache s)" and "n \<le> length (wlCache s)"
    and "rm_watches K fd (map wd (filter (hit p) (drop n (wlCache s)))) (world s) = (gone, err, w)"
  shows "\<exists>s'. zap_loop et K fd p [n..<length (wlCache s)] cnt s
        = (Inr (if err = None then cnt + int (length gone) else - 1), s')
    \<and> frame s' = frame s \<and> world s' = w \<and> cache_wf (wlCache s')
    \<and> cmap (wlCache s') = (\<lambda>d. if d \<in> set gone then None else cmap (wlCache s) d)
    \<and> (\<forall>e. err = Some e \<longrightarrow> p_errno s' = e)"
  using assms
proof (induction "length (wlCache s) - n" arbitrary: n s cnt gone)
  case 0
  then show ?case by auto
next
  case (Suc m)
  let ?c = "wlCache s" and ?e = "wlCache s ! n"
  have n: "n < length ?c" using Suc.hyps(2) by simp
  have up: "[n..<length ?c] = n # [Suc n..<length ?c]" using n by (simp add: upt_conv_Cons)
  have dr: "drop n ?c = ?e # drop (Suc n) ?c" using n by (simp add: Cons_nth_drop_Suc)
  show ?case
  proof (cases "hit p ?e")
    case False
    have m: "m = length (wlCache s) - Suc n" using Suc.hyps(2) by simp
    have rm: "rm_watches K fd (map wd (filter (hit p) (drop (Suc n) ?c))) (world s) = (gone, err, w)"
      using Suc.prems(3) False dr by simp
    have "zap_loop et K fd p [n..<length ?c] cnt s = zap_loop et K fd p [Suc n..<length ?c] cnt s"
      using n False by (auto simp: up hit_def)
    then show ?thesis using Suc.hyps(1)[OF m Suc.prems(1) Suc_leI[OF n] rm, of cnt] by (simp only:)
  next
    case True
    let ?s1 = "logged VB_NOISY ''    removing watch: wd = %d (%s)\<newline>'' [FInt (wd ?e), FStr (path ?e)] s"
    obtain q w1 where rm: "dk_rm_watch K fd (wd ?e) (world s) = (q, w1)" by fastforce
    show ?thesis
    proof (cases q)
      case (Inl x)
      let ?s2 = "?s1\<lparr>p_errno := x, world := w1\<rparr>"
      let ?s3 = "logged 0 ''inotify_rm_watch wd = %d (%s): %s\<newline>''
          [FInt (wd ?e), FStr (path ?e), FStr (strerror et (errnum x))] ?s2"
      have "zap_loop et K fd p [n..<length ?c] cnt s = (Inr (- 1), ?s3)"
        using n True rm Inl by (simp add: up hit_def)
      moreover have "gone = [] \<and> err = Some x \<and> w = w1" using Suc.prems(3) True dr rm Inl by simp
      ultimately show ?thesis using Suc.prems(1) by (intro exI[of _ ?s3]) (simp add: frame_def)
    next
      case (Inr u)
      let ?s2 = "marked n (?s1\<lparr>world := w1\<rparr>)"
      have c2: "wlCache ?s2 = ?c[n := empty_slot]" and f2: "frame ?s2 = frame s" and w2: "world ?s2 = w1"
        using n by (simp_all add: frame_def)
      obtain gone' where rm': "rm_watches K fd (map wd (filter (hit p) (drop (Suc n) ?c))) w1 = (gone', err, w)"
        and g: "gone = wd ?e # gone'"
        using Suc.prems(3) True dr rm Inr by (auto split: prod.splits)
      have m: "m = length (wlCache ?s2) - Suc n" using Suc.hyps(2) c2 by simp
      have wf2: "cache_wf (wlCache ?s2)" using cache_wf_clear[OF Suc.prems(1), of n] c2 by simp
      have n2: "Suc n \<le> length (wlCache ?s2)" using n c2 by simp
      have rm2: "rm_watches K fd (map wd (filter (hit p) (drop (Suc n) (wlCache ?s2)))) (world ?s2) = (gone', err, w)"
        unfolding c2 w2 using rm' by (simp add: drop_update_cancel)
      have cm: "cmap (wlCache ?s2) = (cmap ?c)(wd ?e := None)"
        unfolding c2 by (rule cmap_clear[OF Suc.prems(1) n])
      obtain s' where s': "zap_loop et K fd p [Suc n..<length (wlCache ?s2)] (cnt + 1) ?s2
            = (Inr (if err = None then cnt + 1 + int (length gone') else - 1), s')"
        "frame s' = frame ?s2" "world s' = w" "cache_wf (wlCache s')"
        "cmap (wlCache s') = (\<lambda>d. if d \<in> set gone' then None else cmap (wlCache ?s2) d)"
        "\<forall>e. err = Some e \<longrightarrow> p_errno s' = e"
        using Suc.hyps(1)[OF m wf2 n2 rm2] by blast
      have "zap_loop et K fd p [n..<length ?c] cnt s = (Inr (if err = None then cnt + int (length gone) else - 1), s')"
        using s'(1) n True rm Inr g by (simp add: up hit_def c2)
      moreover have "cmap (wlCache s') = (\<lambda>d. if d \<in> set gone then None else cmap ?c d)"
        unfolding s'(5) cm g by auto
      ultimately show ?thesis using s' f2 by (intro exI[of _ s']) simp
    qed
  qed
qed

lemma zapSubtree_halt:
  assumes "zapSubtree et K fd p s = (Inl h, s')"
  shows "h = Undefined \<and> wlCache s' = wlCache s \<and> frame s' = frame s"
proof -
  let ?s = "logged VB_NOISY ''Zapping subtree: %s\<newline>'' [FStr p] s"
  obtain r z where "zap_loop et K fd p [0..<length (wlCache s)] 0 ?s = (Inr r, z)"
    using zap_loop_run[where n = 0 and s = ?s and cnt = 0 and et = et and K = K and fd = fd and p = p] by auto
  with assms show ?thesis by (auto simp: zapSubtree_def frame_def split: if_splits)
qed

lemma zapped_wf: "slot_wf e \<Longrightarrow> slot_wf (zapped p e)"
  by (simp add: zapped_def)

lemma cache_wf_zapped: "cache_wf c \<Longrightarrow> cache_wf (map (zapped p) (take k c) @ drop k c)"
proof -
  assume wf: "cache_wf c"
  let ?L = "map (zapped p) (take k c) @ drop k c"
  have len: "length ?L = length c" by simp
  have nth: "?L ! i = (if i < k then zapped p (c ! i) else c ! i)" if "i < length c" for i
    using that by (auto simp: nth_append)
  have sw: "slot_wf (c ! i)" if "i < length c" for i using wf that by (simp add: cache_wf_def)
  have wdL: "wd (?L ! i) = wd (c ! i)" if "i < length c" "0 \<le> wd (?L ! i)" for i
    using that by (auto simp: nth zapped_def split: if_splits)
  show ?thesis
    unfolding cache_wf_def
  proof (intro conjI ballI allI impI)
    fix e assume "e \<in> set ?L"
    then obtain i where "i < length c" "e = ?L ! i" using len by (metis in_set_conv_nth)
    then show "slot_wf e" using sw[of i] by (simp add: nth zapped_wf)
  next
    fix i j assume "i < length ?L" "j < length ?L" and "wd (?L ! i) = wd (?L ! j) \<and> 0 \<le> wd (?L ! i)"
    then show "i = j" using wdL[of i] wdL[of j] cache_wf_inj[OF wf, of i j] len by simp
  qed
qed

lemma cmap_zapped:
  assumes "cache_wf c"
  shows "cmap (map (zapped p) c) = (\<lambda>d. case cmap c d of None \<Rightarrow> None | Some x \<Rightarrow> if below p x then None else Some x)"
proof (rule ext)
  fix d
  have wf': "cache_wf (map (zapped p) c)" using cache_wf_zapped[OF assms, of p "length c"] by simp
  show "cmap (map (zapped p) c) d = (case cmap c d of None \<Rightarrow> None | Some x \<Rightarrow> if below p x then None else Some x)"
  proof (cases "cmap c d")
    case None
    then have "cmap (map (zapped p) c) d = None" unfolding cmap_None by (auto simp: zapped_def)
    with None show ?thesis by simp
  next
    case (Some x)
    then obtain e where e: "0 \<le> d" "e \<in> set c" "wd e = d" "path e = x" using cmap_Some[OF assms] by auto
    show ?thesis
    proof (cases "below p x")
      case False
      then have "zapped p e = e" using e by (simp add: zapped_def hit_def)
      then have "cmap (map (zapped p) c) d = Some x" unfolding cmap_Some[OF wf'] using e by force
      with Some False show ?thesis by simp
    next
      case True
      have "path e' = x" if "e' \<in> set c" "wd e' = d" for e'
        using that Some e(1) cmap_Some[OF assms, of d "path e'"] by auto
      then have "cmap (map (zapped p) c) d = None"
        unfolding cmap_None using True e(1) by (auto simp: zapped_def hit_def)
      with Some True show ?thesis by simp
    qed
  qed
qed

lemma cmap_without_hits:
  assumes "cache_wf c"
  shows "(\<lambda>d. if d \<in> set (map wd (filter (hit p) c)) then None else cmap c d)
    = (\<lambda>d. case cmap c d of None \<Rightarrow> None | Some x \<Rightarrow> if below p x then None else Some x)"
proof (rule ext)
  fix d
  show "(if d \<in> set (map wd (filter (hit p) c)) then None else cmap c d)
      = (case cmap c d of None \<Rightarrow> None | Some x \<Rightarrow> if below p x then None else Some x)"
  proof (cases "cmap c d")
    case (Some x)
    then obtain e where e: "0 \<le> d" "e \<in> set c" "wd e = d" "path e = x" using cmap_Some[OF assms] by auto
    have "path e' = x" if "e' \<in> set c" "wd e' = d" for e'
      using that Some e(1) cmap_Some[OF assms, of d "path e'"] by auto
    then have "hit p e' \<longleftrightarrow> below p x" if "e' \<in> set c" "wd e' = d" for e' using that e(1) by (simp add: hit_def)
    then have "d \<in> set (map wd (filter (hit p) c)) \<longleftrightarrow> below p x" using e(2,3) by (simp add: image_iff) blast
    with Some show ?thesis by simp
  qed simp
qed

subsection \<open>The invariant of the monitor\<close>

text \<open>The cache is well formed, and \<open>ignoreRootDirs\<close> counts the root paths that were given up.\<close>

definition dt_inv :: "'w dtree \<Rightarrow> bool" where
  "dt_inv s = (cache_wf (wlCache s) \<and> ignoreRootDirs s = length (filter (\<lambda>r. r = None) (rootDirPaths s)))"

lemma dt_inv_eq: "wlCache s' = wlCache s \<Longrightarrow> frame s' = frame s \<Longrightarrow> dt_inv s' = dt_inv s"
  by (simp add: dt_inv_def frame_def)

lemma dt_inv_cache: "dt_inv s \<Longrightarrow> cache_wf (wlCache s') \<Longrightarrow> frame s' = frame s \<Longrightarrow> dt_inv s'"
  by (simp add: dt_inv_def frame_def)

lemma insensitive_dt_inv: "insensitive dt_inv"
  by (simp add: insensitive_def dt_inv_def)

lemmas dt_output [keep] = keeps_output[OF insensitive_dt_inv]
lemmas dt_or_die [keep] = keeps_or_die[OF insensitive_dt_inv]

lemma dt_log [keep]: "keeps dt_inv (logMessage m f as)"
  by (simp add: keeps_def dt_inv_def)

lemma dt_log_file [keep]: "keeps dt_inv (log_file f as)" "keeps dt_inv (log_unchecked f as)"
proof -
  show "keeps dt_inv (log_file f as)" by (simp add: keeps_def dt_inv_def log_file_def)
  then show "keeps dt_inv (log_unchecked f as)" unfolding log_unchecked_def by (intro keep)
qed

lemma dt_mark [keep]: "keeps dt_inv (markCacheSlotEmpty j)"
proof (rule keepsI)
  fix s r s' assume "dt_inv s" and "markCacheSlotEmpty j s = (r, s')"
  then show "dt_inv s'"
    by (cases "j < length (wlCache s)") (auto simp: markCacheSlotEmpty_bad dt_inv_def cache_wf_clear)
qed

lemma dt_dump [keep]: "keeps dt_inv dumpCacheToLog"
proof -
  have "keeps dt_inv (dump_loop j c n)" for j c n
    by (induction c arbitrary: j n) (auto intro!: keep)
  then show ?thesis unfolding dumpCacheToLog_def by (intro keep)
qed

lemma dt_check [keep]: "keeps dt_inv (checkCacheConsistency et K)"
proof -
  have "keeps dt_inv (check_loop et K j c sb n)" for j c sb n
    by (induction c arbitrary: j sb n) (auto intro!: keep)
  then show ?thesis unfolding checkCacheConsistency_def by (intro keep)
qed

lemma dt_stop [keep]: "keeps dt_inv (createStopFileAndAbort K)"
  unfolding createStopFileAndAbort_def by (intro keep)

lemma dt_find [keep]: "keeps dt_inv (findWatchChecked K d)"
  unfolding findWatchChecked_def by (intro keep)

lemma addWatchToCache_Inl:
  assumes "addWatchToCache et K d p s = (Inl h, s')"
  shows "wlCache s' = wlCache s \<and> frame s' = frame s \<and> h = Exit EXIT_FAILURE"
proof (cases "dk_alloc_ok K (world s) (length (wlCache s) + ALLOC_INCR)")
  case True
  then show ?thesis using addWatchToCache_run[OF True, of et d p] assms by auto
next
  case False
  have "free_slot (wlCache s) < length (wlCache s)" if "0 \<le> find_slot (\<lambda>e. wd e = - 1) (wlCache s) 0"
    using that free_slot_ok(1)[of "wlCache s"] by (simp add: grown_def)
  with False show ?thesis
    using assms by (cases "0 \<le> find_slot (\<lambda>e. wd e = - 1) (wlCache s) 0")
      (auto simp: addWatchToCache_def findEmptyCacheSlot_def Let_def andThen_run errExit_macro_run frame_def
        flushed_def free_slot_def)
qed

text \<open>What the monitor relies on of \<open>inotify_add_watch\<close>: a descriptor is not negative, and a path of
  \<open>PATH_MAX\<close> bytes or more is refused.\<close>

definition sane_watches :: "'w dkernel \<Rightarrow> bool" where
  "sane_watches K \<longleftrightarrow> (\<forall>fd p fl w d w'. dk_add_watch K fd p fl w = (Inr d, w') \<longrightarrow> 0 \<le> d \<and> length p < PATH_MAX)"

text \<open>A visit adds at most the pair of the new descriptor and the visited directory.\<close>

lemma traverseTree_effect:
  assumes "sane_watches K" and "cache_wf (wlCache s)" and "traverseTree et K (p, b) s = (r, s')"
  shows "frame s' = frame s \<and> cache_wf (wlCache s')
    \<and> (cmap (wlCache s') = cmap (wlCache s)
       \<or> (\<exists>d. b \<and> cmap (wlCache s) d = None \<and> cmap (wlCache s') = (cmap (wlCache s))(d \<mapsto> p)))"
proof (cases b)
  case False
  with assms show ?thesis by (simp add: traverseTree_def)
next
  case True
  let ?fl = "(IN_CREATE OR IN_MOVED_FROM OR IN_MOVED_TO OR IN_DELETE_SELF OR
      (if isRootDirPath p (rootDirPaths s) then IN_MOVE_SELF else 0)) OR IN_ONLYDIR :: 32 word"
  obtain q w where aw: "dk_add_watch K (ifd s) p ?fl (world s) = (q, w)" by fastforce
  show ?thesis
  proof (cases q)
    case (Inl e)
    with True aw assms(2,3) show ?thesis
      by (auto simp: traverseTree_def Let_def frame_def flushed_def split: if_splits)
  next
    case (Inr d)
    have d: "0 \<le> d" "length p < PATH_MAX" using assms(1) aw Inr unfolding sane_watches_def by blast+
    show ?thesis
    proof (cases "findWatch d (wlCache s) \<ge> 0")
      case True
      with \<open>b\<close> aw Inr assms(2,3) show ?thesis by (auto simp: traverseTree_def Let_def frame_def)
    next
      case False
      then have fresh: "cmap (wlCache s) d = None"
        using d(1) find_slot_ge[of "\<lambda>e. wd e = d" "wlCache s" 0] findWatch_cmap[of d "wlCache s"] by (auto simp: findWatch_def)
      let ?s1 = "s\<lparr>world := w, dirCnt := Suc (dirCnt s)\<rparr>"
      obtain r1 s1 where add: "addWatchToCache et K d p ?s1 = (r1, s1)" by fastforce
      show ?thesis
      proof (cases r1)
        case (Inl h)
        have "frame ?s1 = frame s" by (simp add: frame_def)
        with addWatchToCache_Inl[OF add[unfolded Inl]] \<open>b\<close> False aw Inr add Inl assms(2,3) show ?thesis
          by (auto simp: traverseTree_def Let_def)
      next
        case (Inr j)
        have s1: "wlCache s1 = cache_put d p (wlCache s)" "frame s1 = frame s"
          using addWatchToCache_effect[OF add[unfolded Inr]] by (simp_all add: frame_def)
        have "wlCache s' = wlCache s1 \<and> frame s' = frame s1"
          using \<open>b\<close> False aw \<open>q = Inr d\<close> add Inr assms(3) by (auto simp: traverseTree_def Let_def frame_def)
        with s1 cache_wf_put[OF assms(2) d(1) fresh d(2)] cmap_put[OF assms(2) d(1) fresh d(2)] fresh \<open>b\<close>
        show ?thesis by auto
      qed
    qed
  qed
qed

lemma dt_traverse [keep]: "sane_watches K \<Longrightarrow> keeps dt_inv (traverseTree et K v)"
proof (rule keepsI)
  fix s r s' assume "sane_watches K" "dt_inv s" "traverseTree et K v s = (r, s')"
  then have "frame s' = frame s \<and> cache_wf (wlCache s')"
    using traverseTree_effect[of K s et "fst v" "snd v" r s'] by (simp add: dt_inv_def)
  with \<open>dt_inv s\<close> show "dt_inv s'" using dt_inv_cache by blast
qed

lemma dt_watchDir [keep]: "sane_watches K \<Longrightarrow> keeps dt_inv (watchDir et K fd p)"
  unfolding watchDir_def by (intro keep) (simp_all add: dt_inv_def)

lemma dt_watchSubtree [keep]: "sane_watches K \<Longrightarrow> keeps dt_inv (watchSubtree et K fd p)"
  unfolding watchSubtree_def by (intro keep)

lemma dt_rewrite [keep]: "keeps dt_inv (rewriteCachedPaths op on np nn)"
proof (rule keepsI)
  fix s r s' assume "dt_inv s" and "rewriteCachedPaths op on np nn s = (r, s')"
  then show "dt_inv s'"
    using rewriteCachedPaths_run[of op on np nn s] cache_wf_renamed
    by (auto simp: dt_inv_def frame_def snprintf_buf_def)
qed

lemma dt_zap [keep]: "keeps dt_inv (zapSubtree et K fd p)"
proof (rule keepsI)
  fix s r s' assume I: "dt_inv s" and run: "zapSubtree et K fd p s = (r, s')"
  let ?s = "logged VB_NOISY ''Zapping subtree: %s\<newline>'' [FStr p] s"
  show "dt_inv s'"
  proof (cases r)
    case (Inl h)
    with run I show ?thesis using zapSubtree_halt[of et K fd p s h s'] dt_inv_eq by blast
  next
    case (Inr n)
    then have "zap_loop et K fd p [0..<length (wlCache s)] 0 ?s = (r, s')"
      using run by (auto simp: zapSubtree_def split: if_splits)
    then obtain k where "wlCache s' = map (zapped p) (take k (wlCache s)) @ drop k (wlCache s)" "frame s' = frame s"
      using zap_loop_run[where n = 0 and s = ?s and cnt = 0 and et = et and K = K and fd = fd and p = p]
      by (auto simp: frame_def)
    then show ?thesis using I cache_wf_zapped[of "wlCache s" p k] by (simp add: dt_inv_def frame_def)
  qed
qed

lemma dt_reinit [keep]: "sane_watches K \<Longrightarrow> keeps dt_inv (reinitialize et K fd)"
  unfolding reinitialize_def announce_rebuild_def freeCache_def watch_root_def
  by (intro keep) (auto simp: dt_inv_def)

text \<open>A walk extends the cache by visited directories only.\<close>

definition extended_by :: "string set \<Rightarrow> (int \<Rightarrow> string option) \<Rightarrow> (int \<Rightarrow> string option) \<Rightarrow> bool" where
  "extended_by V m m' \<longleftrightarrow> m \<subseteq>\<^sub>m m' \<and> (\<forall>d x. m' d = Some x \<longrightarrow> m d = Some x \<or> x \<in> V)"

lemma extended_by_refl [simp]: "extended_by V m m"
  by (simp add: extended_by_def)

lemma extended_by_upd: "extended_by V m m' \<Longrightarrow> m' d = None \<Longrightarrow> x \<in> V \<Longrightarrow> extended_by V m (m'(d \<mapsto> x))"
  by (auto simp: extended_by_def map_le_def dom_def)

lemma forEach_traverse:
  assumes "sane_watches K" and "forEach vs (traverseTree et K) s = (r, s')"
    and "cache_wf (wlCache s)" and "extended_by V m (cmap (wlCache s))" and "\<forall>(p, b) \<in> set vs. b \<longrightarrow> p \<in> V"
  shows "cache_wf (wlCache s') \<and> extended_by V m (cmap (wlCache s')) \<and> frame s' = frame s"
proof -
  let ?I = "\<lambda>t. cache_wf (wlCache t) \<and> extended_by V m (cmap (wlCache t)) \<and> frame t = frame s"
  have "?I s'"
  proof (rule forEach_invariant[where P = ?I, OF _ _ assms(2)])
    fix v t r t' assume v: "v \<in> set vs" and I: "?I t" and run: "traverseTree et K v t = (r, t')"
    obtain p b where pb: "v = (p, b)" by fastforce
    with v assms(5) have "b \<Longrightarrow> p \<in> V" by auto
    with traverseTree_effect[OF assms(1) conjunct1[OF I] run[unfolded pb]] I show "?I t'"
      by (auto intro: extended_by_upd)
  qed (use assms(3,4) in simp)
  then show ?thesis by simp
qed

lemma watchDir_effect:
  assumes "sane_watches K" and "cache_wf (wlCache s)" and "watchDir et K fd p s = (r, s')"
  shows "cache_wf (wlCache s') \<and> frame s' = frame s
    \<and> extended_by {x. (x, True) \<in> set (fst (dk_nftw K p (world s)))} (cmap (wlCache s)) (cmap (wlCache s'))"
proof -
  obtain vs st w where nf: "dk_nftw K p (world s) = (vs, st, w)" using prod_cases3 by blast
  let ?s1 = "s\<lparr>dirCnt := 0, ifd := fd, world := w\<rparr>"
  obtain r1 s1 where fe: "forEach vs (traverseTree et K) ?s1 = (r1, s1)" by fastforce
  have e1: "cache_wf (wlCache s1) \<and> extended_by {x. (x, True) \<in> set vs} (cmap (wlCache s)) (cmap (wlCache s1)) \<and> frame s1 = frame ?s1"
    by (rule forEach_traverse[OF assms(1) fe]) (use assms(2) in auto)
  let ?T = "andThen (case st of
         Some e \<Rightarrow> andThen (modify (\<lambda>s. s\<lparr>p_errno := e\<rparr>)) (\<lambda>_.
           logMessage VB_BASIC ''nftw: %s: %s (directory probably deleted before we could watch)\<newline>''
             [FStr p, FStr (strerror et (errnum e))])
       | None \<Rightarrow> ret ()) (\<lambda>_. query dirCnt)"
  have run: "watchDir et K fd p s = andThen (forEach vs (traverseTree et K)) (\<lambda>_. ?T) ?s1"
    by (simp add: watchDir_def nf)
  have "wlCache s' = wlCache s1 \<and> frame s' = frame s1"
  proof (cases r1)
    case (Inl h)
    then have "s' = s1" using assms(3) unfolding run by (simp add: fe)
    then show ?thesis by simp
  next
    case (Inr u)
    then have "?T s1 = (r, s')" using assms(3) unfolding run by (simp add: fe)
    then show ?thesis by (cases st) (auto simp: frame_def)
  qed
  with e1 nf show ?thesis by (simp add: frame_def)
qed

lemma watchSubtree_effect:
  assumes "sane_watches K" and "cache_wf (wlCache s)" and "watchSubtree et K fd p s = (r, s')"
  shows "cache_wf (wlCache s') \<and> frame s' = frame s
    \<and> extended_by {x. (x, True) \<in> set (fst (dk_nftw K p (world s)))} (cmap (wlCache s)) (cmap (wlCache s'))"
proof -
  obtain r1 s1 where wd: "watchDir et K fd p s = (r1, s1)" by fastforce
  then have "wlCache s' = wlCache s1 \<and> frame s' = frame s1"
    using assms(3) by (cases r1) (auto simp: watchSubtree_def frame_def)
  with watchDir_effect[OF assms(1,2) wd] show ?thesis by simp
qed

subsection \<open>What a walk asks of the kernel\<close>

definition watch_flags :: "string option list \<Rightarrow> string \<Rightarrow> 32 word" where
  "watch_flags roots p = IN_CREATE OR IN_MOVED_FROM OR IN_MOVED_TO OR IN_DELETE_SELF OR
     (if isRootDirPath p roots then IN_MOVE_SELF else 0) OR IN_ONLYDIR"

text \<open>Every visited directory is watched once, in the order of the visits; each comes with the answer of
  the kernel, and the last component is the world afterwards.\<close>

fun watch_calls :: "'w dkernel \<Rightarrow> int \<Rightarrow> string option list \<Rightarrow> (string \<times> bool) list \<Rightarrow> 'w
    \<Rightarrow> (string \<times> (errno + int)) list \<times> 'w" where
  "watch_calls K fd roots [] w = ([], w)"
| "watch_calls K fd roots ((p, isdir) # vs) w =
     (if isdir
      then case dk_add_watch K fd p (watch_flags roots p) w of (q, w') \<Rightarrow>
           case watch_calls K fd roots vs w' of (l, w'') \<Rightarrow> ((p, q) # l, w'')
      else watch_calls K fd roots vs w)"

text \<open>The descriptors the kernel gave, with the directories they are for; and the walks in which the
  only failures are directories that have vanished.\<close>

fun granted :: "(string \<times> (errno + int)) list \<Rightarrow> (int \<times> string) list" where
  "granted [] = []"
| "granted ((p, Inr d) # l) = (d, p) # granted l"
| "granted ((p, Inl e) # l) = granted l"

definition only_vanished :: "(string \<times> (errno + int)) list \<Rightarrow> bool" where
  "only_vanished l = (\<forall>(p, q) \<in> set l. q = Inl ENOENT \<or> \<not> isl q)"

lemma only_vanished_simps [simp]:
  "only_vanished []" "only_vanished ((p, Inr d) # l) = only_vanished l"
  "only_vanished ((p, Inl e) # l) = (e = ENOENT \<and> only_vanished l)"
  "only_vanished (l @ l') = (only_vanished l \<and> only_vanished l')"
  by (auto simp: only_vanished_def)

lemma granted_append [simp]: "granted (l @ l') = granted l @ granted l'"
  by (induction l rule: granted.induct) simp_all

lemma ifd_add: "keeps (\<lambda>t. ifd t = f) (addWatchToCache et K d p)"
proof -
  have i: "insensitive (\<lambda>t :: 'w dtree. ifd t = f)" by (simp add: insensitive_def)
  have l: "keeps (\<lambda>t :: 'w dtree. ifd t = f) (logMessage m g as)" for m g as by (simp add: keeps_def)
  show ?thesis
    unfolding addWatchToCache_def findEmptyCacheSlot_def markCacheSlotEmpty_def write_slot_def read_slot_def Let_def
    by (intro keep keeps_output[OF i] l) simp_all
qed

lemma traverseTree_exact:
  assumes "sane_watches K" and "\<forall>w n. dk_alloc_ok K w n" and "cache_wf (wlCache s)"
    and "dk_add_watch K (ifd s) p (watch_flags (rootDirPaths s) p) (world s) = (q, w)"
  shows "\<forall>e. q = Inl e \<longrightarrow> (if e = ENOENT
      then \<exists>s'. traverseTree et K (p, True) s = (Inr (), s') \<and> world s' = w \<and> ifd s' = ifd s \<and> wlCache s' = wlCache s
        \<and> frame s' = frame s
      else \<exists>s'. traverseTree et K (p, True) s = (Inl (Exit EXIT_FAILURE), s'))"
    and "\<forall>d. q = Inr d \<longrightarrow> (\<exists>s'. traverseTree et K (p, True) s = (Inr (), s') \<and> world s' = w \<and> ifd s' = ifd s
      \<and> frame s' = frame s \<and> cache_wf (wlCache s') \<and> cmap (wlCache s') = [d \<mapsto> p] ++ cmap (wlCache s))"
proof -
  have fl: "(IN_CREATE OR IN_MOVED_FROM OR IN_MOVED_TO OR IN_DELETE_SELF OR
      (if isRootDirPath p (rootDirPaths s) then IN_MOVE_SELF else 0)) OR IN_ONLYDIR = watch_flags (rootDirPaths s) p"
    by (simp add: watch_flags_def or.assoc)
  note body = traverseTree_def Let_def fl
  show "\<forall>e. q = Inl e \<longrightarrow> (if e = ENOENT
      then \<exists>s'. traverseTree et K (p, True) s = (Inr (), s') \<and> world s' = w \<and> ifd s' = ifd s \<and> wlCache s' = wlCache s
        \<and> frame s' = frame s
      else \<exists>s'. traverseTree et K (p, True) s = (Inl (Exit EXIT_FAILURE), s'))"
    using assms(4) by (auto simp: body frame_def)
  show "\<forall>d. q = Inr d \<longrightarrow> (\<exists>s'. traverseTree et K (p, True) s = (Inr (), s') \<and> world s' = w \<and> ifd s' = ifd s
      \<and> frame s' = frame s \<and> cache_wf (wlCache s') \<and> cmap (wlCache s') = [d \<mapsto> p] ++ cmap (wlCache s))"
  proof (intro allI impI)
    fix d assume q: "q = Inr d"
    have d: "0 \<le> d" "length p < PATH_MAX" using assms(1,4) q unfolding sane_watches_def by blast+
    show "\<exists>s'. traverseTree et K (p, True) s = (Inr (), s') \<and> world s' = w \<and> ifd s' = ifd s
      \<and> frame s' = frame s \<and> cache_wf (wlCache s') \<and> cmap (wlCache s') = [d \<mapsto> p] ++ cmap (wlCache s)"
    proof (cases "cmap (wlCache s) d")
      case (Some x)
      then have "0 \<le> findWatch d (wlCache s)" by (auto simp: cmap_def Let_def split: if_splits)
      then have "traverseTree et K (p, True) s
          = (Inr (), logged VB_BASIC ''WD %d already in cache (%s)\<newline>'' [FInt d, FStr p] (s\<lparr>world := w\<rparr>))"
        using assms(4) q by (simp add: body)
      moreover have "[d \<mapsto> p] ++ cmap (wlCache s) = cmap (wlCache s)"
        using Some by (auto simp: map_add_def fun_eq_iff split: option.split)
      ultimately show ?thesis using assms(3) by (simp add: frame_def)
    next
      case None
      then have nf: "\<not> 0 \<le> findWatch d (wlCache s)" using d(1) by (simp add: cmap_def Let_def split: if_splits)
      let ?s1 = "s\<lparr>world := w, dirCnt := Suc (dirCnt s)\<rparr>"
      obtain s2 where s2: "addWatchToCache et K d p ?s1 = (Inr (free_slot (wlCache s)), s2)"
        "wlCache s2 = cache_put d p (wlCache s)" "world s2 = w" "frame s2 = frame s"
        using addWatchToCache_run[of K ?s1 et d p] assms(2) by (auto simp: frame_def)
      have "ifd s2 = ifd s" using keepsD[OF ifd_add _ s2(1), of "ifd s"] by simp
      moreover have "cmap (cache_put d p (wlCache s)) = [d \<mapsto> p] ++ cmap (wlCache s)"
        using None cmap_put[OF assms(3) d(1) None d(2)] by (auto simp: map_add_def fun_eq_iff split: option.split)
      moreover have "traverseTree et K (p, True) s = (Inr (), logged VB_NOISY ''    watchDir: wd = %d [cache slot: %d]; %s\<newline>''
           [FInt d, FInt (int (free_slot (wlCache s))), FStr p] s2)"
        using assms(4) q nf s2(1) by (simp add: body)
      ultimately show ?thesis using s2 cache_wf_put[OF assms(3) d(1) None d(2)] by (simp add: frame_def)
    qed
  qed
qed

lemma walk_exact:
  assumes "sane_watches K" and "\<forall>w n. dk_alloc_ok K w n" and "cache_wf (wlCache s)"
    and "watch_calls K (ifd s) (rootDirPaths s) vs (world s) = (l, w)"
  shows "if only_vanished l
    then \<exists>s'. forEach vs (traverseTree et K) s = (Inr (), s') \<and> world s' = w \<and> frame s' = frame s
       \<and> cache_wf (wlCache s') \<and> cmap (wlCache s') = map_of (granted l) ++ cmap (wlCache s)
    else \<exists>s'. forEach vs (traverseTree et K) s = (Inl (Exit EXIT_FAILURE), s')"
  using assms(3,4)
proof (induction vs arbitrary: s l)
  case Nil
  then show ?case by simp
next
  case (Cons v vs)
  obtain p b where v: "v = (p, b)" by fastforce
  show ?case
  proof (cases b)
    case False
    then have "traverseTree et K v s = (Inr (), s)" by (simp add: v traverseTree_def)
    with Cons v False show ?thesis by simp
  next
    case True
    obtain q w1 where q: "dk_add_watch K (ifd s) p (watch_flags (rootDirPaths s) p) (world s) = (q, w1)" by fastforce
    then obtain l' where l: "watch_calls K (ifd s) (rootDirPaths s) vs w1 = (l', w)" "l = (p, q) # l'"
      using Cons.prems(2) v True by (auto split: prod.splits)
    note step = traverseTree_exact[OF assms(1,2) Cons.prems(1) q, of et]
    have vT: "v = (p, True)" using v True by simp
    show ?thesis
    proof (cases "\<exists>e. q = Inl e \<and> e \<noteq> ENOENT")
      case True
      then obtain e s1 where "q = Inl e" "e \<noteq> ENOENT" "traverseTree et K v s = (Inl (Exit EXIT_FAILURE), s1)"
        using step(1) vT by auto
      then show ?thesis using l by simp
    next
      case False
      obtain s1 where s1: "traverseTree et K v s = (Inr (), s1)" "world s1 = w1" "ifd s1 = ifd s" "frame s1 = frame s"
        "cache_wf (wlCache s1)" "cmap (wlCache s1) = map_of (granted [(p, q)]) ++ cmap (wlCache s)"
      proof (cases q)
        case (Inl e)
        with False step(1) vT that Cons.prems(1) show thesis by (auto simp: map_add_def fun_eq_iff split: if_splits option.splits)
      next
        case (Inr d)
        with step(2) vT that show thesis by auto
      qed
      have ov: "only_vanished l = only_vanished l'" using False l(2) by (cases q) auto
      have g: "map_of (granted l) ++ cmap (wlCache s) = map_of (granted l') ++ cmap (wlCache s1)"
        unfolding s1(6) l(2) by (cases q) (auto simp: map_add_def fun_eq_iff split: option.splits)
      have "rootDirPaths s1 = rootDirPaths s" using s1(4) by (simp add: frame_def)
      then have "watch_calls K (ifd s1) (rootDirPaths s1) vs (world s1) = (l', w)" using l(1) s1(2,3) by simp
      from Cons.IH[OF s1(5) this] s1(1,4) g ov show ?thesis by (cases "only_vanished l'") auto
    qed
  qed
qed

lemma watchSubtree_exact:
  assumes "sane_watches K" and "\<forall>w n. dk_alloc_ok K w n" and "cache_wf (wlCache s)"
    and "dk_nftw K p (world s) = (vs, status, w1)" and "watch_calls K fd (rootDirPaths s) vs w1 = (l, w)"
  shows "if only_vanished l
    then \<exists>s'. watchSubtree et K fd p s = (Inr (), s') \<and> world s' = w \<and> frame s' = frame s
       \<and> cache_wf (wlCache s') \<and> cmap (wlCache s') = map_of (granted l) ++ cmap (wlCache s)
    else \<exists>s'. watchSubtree et K fd p s = (Inl (Exit EXIT_FAILURE), s')"
proof -
  let ?s1 = "s\<lparr>dirCnt := 0, ifd := fd, world := w1\<rparr>"
  have calls: "watch_calls K (ifd ?s1) (rootDirPaths ?s1) vs (world ?s1) = (l, w)" using assms(5) by simp
  have wf: "cache_wf (wlCache ?s1)" using assms(3) by simp
  have fr: "frame ?s1 = frame s" by (simp add: frame_def)
  note walk = walk_exact[OF assms(1,2) wf calls, of et]
  show ?thesis
  proof (cases "only_vanished l")
    case True
    then obtain s2 where s2: "forEach vs (traverseTree et K) ?s1 = (Inr (), s2)" "world s2 = w" "frame s2 = frame s"
      "cache_wf (wlCache s2)" "cmap (wlCache s2) = map_of (granted l) ++ cmap (wlCache s)"
      using walk fr by auto
    then have "\<exists>s'. watchSubtree et K fd p s = (Inr (), s') \<and> world s' = world s2 \<and> frame s' = frame s2 \<and> wlCache s' = wlCache s2"
      by (cases status) (simp_all add: watchSubtree_def watchDir_def assms(4) frame_def)
    with s2 True show ?thesis by auto
  next
    case False
    then obtain s2 where "forEach vs (traverseTree et K) ?s1 = (Inl (Exit EXIT_FAILURE), s2)" using walk by auto
    then have "watchSubtree et K fd p s = (Inl (Exit EXIT_FAILURE), s2)"
      by (simp add: watchSubtree_def watchDir_def assms(4))
    with False show ?thesis by auto
  qed
qed

lemma rewriteCachedPaths_effect:
  assumes "cache_wf (wlCache s)" and "length (op @ ''/'' @ on) < PATH_MAX" and "length (np @ ''/'' @ nn) < PATH_MAX"
    and "\<forall>d x. cmap (wlCache s) d = Some x \<and> below (op @ ''/'' @ on) x \<longrightarrow>
           length (np @ ''/'' @ nn) + (length x - length (op @ ''/'' @ on)) < PATH_MAX"
  shows "\<exists>s'. rewriteCachedPaths op on np nn s = (Inr (), s') \<and> cache_wf (wlCache s')
    \<and> frame s' = frame s
    \<and> cmap (wlCache s') = (\<lambda>d. case cmap (wlCache s) d of None \<Rightarrow> None
         | Some x \<Rightarrow> Some (if below (op @ ''/'' @ on) x
                          then np @ ''/'' @ nn @ drop (length (op @ ''/'' @ on)) x else x))"
proof -
  let ?p = "op @ ''/'' @ on" and ?q = "np @ ''/'' @ nn"
  obtain s' where s': "rewriteCachedPaths op on np nn s = (Inr (), s')" "wlCache s' = map (renamed ?p ?q) (wlCache s)"
    "frame s' = frame s"
    using rewriteCachedPaths_run[of op on np nn s] assms(2,3) by auto
  have ne: "?p \<noteq> []" by simp
  have "cmap (wlCache s') d = (case cmap (wlCache s) d of None \<Rightarrow> None
         | Some x \<Rightarrow> Some (if below ?p x then ?q @ drop (length ?p) x else x))" for d
  proof (cases "cmap (wlCache s) d")
    case (Some x)
    have "length (?q @ drop (length ?p) x) < PATH_MAX" if b: "below ?p x"
      using assms(4)[rule_format, OF conjI[OF Some b]] by simp
    then show ?thesis
      unfolding s'(2) cmap_renamed[OF assms(1) ne] using Some by (simp add: renamed_def)
  qed (use cmap_renamed[OF assms(1) ne, of ?q] in \<open>simp add: s'(2)\<close>)
  then show ?thesis
    using s' cache_wf_renamed[OF assms(1) ne, of ?q] by (auto simp: fun_eq_iff split: option.split)
qed

section \<open>Properties\<close>

text \<open>C5: \<open>zapSubtree\<close> forgets a subtree, if there is memory for a copy of its path. It asks the kernel to
  remove exactly the descriptors of the entries whose path is the given one or below it, in the order of
  the slots, and stops at the first removal that fails. The descriptors that were removed, and only
  they, leave the cache, which stays well formed; the root paths are untouched. When none fails the
  result is the number of entries, and what stays in the cache are the paths not below the given one (a
  sibling with a longer name stays); when one fails the result is \<open>-1\<close>, with the error in \<open>errno\<close>.\<close>
theorem zapSubtree_removes_subtree:
  assumes "cache_wf (wlCache s)" and "dk_alloc_ok K (world s) (Suc (length p))"
    and "rm_watches K fd (map wd (filter (\<lambda>e. 0 \<le> wd e \<and> below p (path e)) (wlCache s))) (world s) = (gone, err, w)"
  shows "\<exists>s'. zapSubtree et K fd p s = (Inr (if err = None then int (length gone) else - 1), s')
    \<and> world s' = w \<and> cache_wf (wlCache s') \<and> rootDirPaths s' = rootDirPaths s
    \<and> cmap (wlCache s') = (\<lambda>d. if d \<in> set gone then None else cmap (wlCache s) d)
    \<and> (err = None \<longrightarrow> length gone = length (filter (\<lambda>e. 0 \<le> wd e \<and> below p (path e)) (wlCache s))
         \<and> cmap (wlCache s') = (\<lambda>d. case cmap (wlCache s) d of None \<Rightarrow> None | Some x \<Rightarrow> if below p x then None else Some x))
    \<and> (\<forall>e. err = Some e \<longrightarrow> p_errno s' = e)"
proof -
  let ?s = "logged VB_NOISY ''Zapping subtree: %s\<newline>'' [FStr p] s"
  let ?ds = "map wd (filter (hit p) (wlCache s))"
  have hit: "(\<lambda>e. 0 \<le> wd e \<and> below p (path e)) = hit p" by (simp add: hit_def[abs_def])
  have rm: "rm_watches K fd (map wd (filter (hit p) (drop 0 (wlCache ?s)))) (world ?s) = (gone, err, w)"
    using assms(3) by (simp add: hit)
  have S: "wlCache ?s = wlCache s" "frame ?s = frame s" by (simp_all add: frame_def)
  obtain s' where s': "zap_loop et K fd p [0..<length (wlCache s)] 0 ?s = (Inr (if err = None then 0 + int (length gone) else - 1), s')"
    "frame s' = frame s" "world s' = w" "cache_wf (wlCache s')"
    "cmap (wlCache s') = (\<lambda>d. if d \<in> set gone then None else cmap (wlCache s) d)" "\<forall>e. err = Some e \<longrightarrow> p_errno s' = e"
    using zap_loop_exact[OF _ _ rm, of et 0] assms(1) unfolding S by blast
  have "zapSubtree et K fd p s = (Inr (if err = None then int (length gone) else - 1), s')"
    using s'(1) assms(2) by (simp add: zapSubtree_def)
  moreover have "gone = ?ds" if "err = None" using rm_watches_prefix[OF assms(3)] that by (simp add: hit)
  moreover have "(\<lambda>d. if d \<in> set ?ds then None else cmap (wlCache s) d)
      = (\<lambda>d. case cmap (wlCache s) d of None \<Rightarrow> None | Some x \<Rightarrow> if below p x then None else Some x)"
    by (rule cmap_without_hits[OF assms(1)])
  ultimately show ?thesis using s' by (intro exI[of _ s']) (simp add: frame_def hit)
qed

text \<open>Three removals are due, the second one fails.\<close>

theorem zapSubtree_removes_subtree_witness:
  "\<exists>s'. zapSubtree no_texts (demo_dkernel\<lparr>dk_rm_watch := \<lambda>fd d w. (if d = 2 then Inl EINVAL else Inr (), w)\<rparr>) 4 ''/a''
      (demo_state [\<lparr>wd = 1, path = ''/a''\<rparr>, \<lparr>wd = 2, path = ''/a/b''\<rparr>, \<lparr>wd = 3, path = ''/ab''\<rparr>] [] []) = (Inr (- 1), s')
    \<and> cmap (wlCache s') 1 = None \<and> cmap (wlCache s') 2 = Some ''/a/b'' \<and> p_errno s' = EINVAL"
proof -
  let ?c = "[\<lparr>wd = 1, path = ''/a''\<rparr>, \<lparr>wd = 2, path = ''/a/b''\<rparr>, \<lparr>wd = 3, path = ''/ab''\<rparr>] :: watch list"
  let ?K = "demo_dkernel\<lparr>dk_rm_watch := \<lambda>fd d w. (if d = 2 then Inl EINVAL else Inr (), w)\<rparr>"
  have c: "wlCache (demo_state ?c [] []) = ?c" by (simp add: demo_state_def)
  have wf: "cache_wf ?c" by (simp add: cache_wf_def slot_wf_def All_less_Suc)
  have cm: "cmap ?c 2 = Some ''/a/b''" by (simp add: cmap_def findWatch_def)
  have rm: "rm_watches ?K 4 (map wd (filter (\<lambda>e. 0 \<le> wd e \<and> below ''/a'' (path e)) ?c)) w = ([1], Some EINVAL, w)" for w
    by (simp add: below_def strncmp_eq_def cchar_at_def)
  show ?thesis
    using zapSubtree_removes_subtree[of "demo_state ?c [] []" ?K "''/a''" 4, unfolded c, OF wf _ rm, of no_texts] cm
    by (auto simp: demo_dkernel_def)
qed

text \<open>\<open>rewriteCachedPaths\<close> follows a rename of a directory: every cached path that is the old name or
  below it gets the new prefix and keeps the rest, all other entries and all descriptors stay, as
  long as the new paths fit into \<open>PATH_MAX\<close>.\<close>
theorem rewriteCachedPaths_renames:
  assumes "cache_wf (wlCache s)" and "length (op @ ''/'' @ on) < PATH_MAX" and "length (np @ ''/'' @ nn) < PATH_MAX"
    and "\<forall>d x. cmap (wlCache s) d = Some x \<and> below (op @ ''/'' @ on) x \<longrightarrow>
           length (np @ ''/'' @ nn) + (length x - length (op @ ''/'' @ on)) < PATH_MAX"
  shows "\<exists>s'. rewriteCachedPaths op on np nn s = (Inr (), s') \<and> cache_wf (wlCache s')
    \<and> rootDirPaths s' = rootDirPaths s
    \<and> cmap (wlCache s') = (\<lambda>d. case cmap (wlCache s) d of None \<Rightarrow> None
         | Some x \<Rightarrow> Some (if below (op @ ''/'' @ on) x
                          then np @ ''/'' @ nn @ drop (length (op @ ''/'' @ on)) x else x))"
  using rewriteCachedPaths_effect[OF assms] by (auto simp: frame_def)

theorem rewriteCachedPaths_renames_witness:
  "\<exists>s'. rewriteCachedPaths ''/r'' ''a'' ''/r/z'' ''b''
      (demo_state [\<lparr>wd = 1, path = ''/r/a/x''\<rparr>, \<lparr>wd = 2, path = ''/r/ab''\<rparr>] [] []) = (Inr (), s')
    \<and> cmap (wlCache s') 1 = Some ''/r/z/b/x'' \<and> cmap (wlCache s') 2 = Some ''/r/ab''"
proof -
  let ?c = "[\<lparr>wd = 1, path = ''/r/a/x''\<rparr>, \<lparr>wd = 2, path = ''/r/ab''\<rparr>] :: watch list"
  have c: "wlCache (demo_state ?c [] []) = ?c" by (simp add: demo_state_def)
  have wf: "cache_wf ?c" by (simp add: cache_wf_def slot_wf_def All_less_Suc)
  have cm: "cmap ?c 1 = Some ''/r/a/x''" "cmap ?c 2 = Some ''/r/ab''" by (simp_all add: cmap_def findWatch_def)
  have fit: "length x < 10" if "cmap ?c d = Some x" for d x
    using that unfolding cmap_Some[OF wf] by auto
  have b: "below (''/r'' @ ''/'' @ ''a'') ''/r/a/x''" "\<not> below (''/r'' @ ''/'' @ ''a'') ''/r/ab''"
    by (simp_all add: below_def strncmp_eq_def cchar_at_def)
  have "\<forall>d x. cmap ?c d = Some x \<and> below (''/r'' @ ''/'' @ ''a'') x \<longrightarrow>
      length (''/r/z'' @ ''/'' @ ''b'') + (length x - length (''/r'' @ ''/'' @ ''a'')) < PATH_MAX"
    using fit by fastforce
  then obtain s' where "rewriteCachedPaths ''/r'' ''a'' ''/r/z'' ''b'' (demo_state ?c [] []) = (Inr (), s')"
    and "cmap (wlCache s') = (\<lambda>d. case cmap ?c d of None \<Rightarrow> None
         | Some x \<Rightarrow> Some (if below (''/r'' @ ''/'' @ ''a'') x
                          then ''/r/z'' @ ''/'' @ ''b'' @ drop (length (''/r'' @ ''/'' @ ''a'')) x else x))"
    using rewriteCachedPaths_renames[of "demo_state ?c [] []" "''/r''" "''a''" "''/r/z''" "''b''", unfolded c, OF wf]
    by auto
  with cm b show ?thesis by auto
qed

text \<open>C6: \<open>watchSubtree\<close> watches a tree. Each directory the walk visits is added with the flags for a
  root or for another directory, in the order of the visits, and the cache is extended by exactly the
  descriptors that were granted, each with the first directory it was granted for, as long as memory
  lasts and the only failures are directories that vanished; any other failure ends the monitor.
  In all cases every descriptor that was in the cache keeps its path, a new entry is a directory that
  was visited, and the cache stays well formed.\<close>
theorem watchSubtree_extends:
  assumes "sane_watches K" and "cache_wf (wlCache s)" and "watchSubtree et K fd p s = (r, s')"
    and "dk_nftw K p (world s) = (vs, status, w1)" and "watch_calls K fd (rootDirPaths s) vs w1 = (l, w2)"
  shows "cache_wf (wlCache s') \<and> rootDirPaths s' = rootDirPaths s
    \<and> cmap (wlCache s) \<subseteq>\<^sub>m cmap (wlCache s')
    \<and> (\<forall>d x. cmap (wlCache s') d = Some x \<longrightarrow> cmap (wlCache s) d = Some x \<or> (x, True) \<in> set vs)
    \<and> ((\<forall>w n. dk_alloc_ok K w n) \<longrightarrow>
         (if only_vanished l
          then r = Inr () \<and> world s' = w2 \<and> cmap (wlCache s') = map_of (granted l) ++ cmap (wlCache s)
          else r = Inl (Exit EXIT_FAILURE)))"
proof -
  have "if only_vanished l
      then r = Inr () \<and> world s' = w2 \<and> cmap (wlCache s') = map_of (granted l) ++ cmap (wlCache s)
      else r = Inl (Exit EXIT_FAILURE)" if "\<forall>w n. dk_alloc_ok K w n"
    using watchSubtree_exact[OF assms(1) that assms(2,4,5), of et] assms(3) by (auto split: if_splits)
  then show ?thesis using watchSubtree_effect[OF assms(1-3)] assms(4) by (simp add: extended_by_def frame_def)
qed

text \<open>A kernel that grants watches on existing directories with short names.\<close>

definition watching_kernel :: "demo_fs dkernel" where
  "watching_kernel = demo_dkernel\<lparr>dk_add_watch := \<lambda>fd p fl w.
     if p \<in> set (fst w) \<and> length p < PATH_MAX \<and> 0 \<le> snd w then (Inr (snd w), (fst w, snd w + 1)) else (Inl ENOENT, w)\<rparr>"

lemma watching_kernel_sane: "sane_watches watching_kernel" "dk_alloc_ok watching_kernel w n"
  by (auto simp: sane_watches_def watching_kernel_def demo_dkernel_def split: if_splits)

theorem watchSubtree_extends_witness:
  "\<exists>s'. watchSubtree no_texts watching_kernel 4 ''/a'' (demo_state [\<lparr>wd = 1, path = ''/q''\<rparr>] [] [''/a'', ''/a/b'', ''/ab'']) = (Inr (), s')
    \<and> cmap (wlCache s') = [11 \<mapsto> ''/a/b'', 10 \<mapsto> ''/a'', 1 \<mapsto> ''/q'']"
proof -
  let ?c = "[\<lparr>wd = 1, path = ''/q''\<rparr>] :: watch list"
  let ?s = "demo_state ?c [] [''/a'', ''/a/b'', ''/ab'']"
  obtain r s' where run: "watchSubtree no_texts watching_kernel 4 ''/a'' ?s = (r, s')" by fastforce
  have wf: "cache_wf (wlCache ?s)" by (simp add: cache_wf_def slot_wf_def demo_state_def)
  have nf: "dk_nftw watching_kernel ''/a'' (world ?s) = ([(''/a'', True), (''/a/b'', True)], None, ([''/a'', ''/a/b'', ''/ab''], 10))"
    by (simp add: watching_kernel_def demo_dkernel_def demo_state_def in_subtree_def cchar_at_def)
  have calls: "watch_calls watching_kernel 4 (rootDirPaths ?s) [(''/a'', True), (''/a/b'', True)] ([''/a'', ''/a/b'', ''/ab''], 10)
      = ([(''/a'', Inr 10), (''/a/b'', Inr 11)], ([''/a'', ''/a/b'', ''/ab''], 12))"
    by (simp add: watching_kernel_def)
  have "cmap (wlCache ?s) = [1 \<mapsto> ''/q'']" by (auto simp: cmap_def findWatch_def demo_state_def fun_eq_iff)
  then have "r = Inr () \<and> cmap (wlCache s') = [11 \<mapsto> ''/a/b'', 10 \<mapsto> ''/a''] ++ [1 \<mapsto> ''/q'']"
    using watchSubtree_extends[OF watching_kernel_sane(1) wf run nf calls] watching_kernel_sane(2) by simp
  with run show ?thesis by (simp add: fun_upd_twist)
qed

end
