(* ===== verification/Dtree_Events.thy ===== *)
theory Dtree_Events
  imports Dtree_Watch
begin

text \<open>
  \<open>inotify/inotify_dtree.c\<close>, third part: processing the events of the inotify descriptor.

  A read buffer is the list of the events in it; a position in the buffer is the list of the
  events from there on together with the number of bytes left. The value of
  \<open>processNextInotifyEvent\<close> is the number of bytes consumed (\<open>-1\<close> to ask for another read) and
  the descriptor, which a rebuild of the cache replaces. \<open>evCacheSlot\<close> is \<open>None\<close> while the variable
  is uninitialised.
\<close>

section \<open>Events\<close>

record inotify_event =
  ev_wd :: int
  ev_mask :: "32 word"
  ev_cookie :: "32 word"
  ev_len :: nat
  ev_name :: string

abbreviation (input) NAME_MAX :: nat where "NAME_MAX \<equiv> 255"

definition ev_size :: "inotify_event \<Rightarrow> int" where
  "ev_size ev = 16 + int (ev_len ev)"

definition INOTIFY_READ_BUF_LEN :: int where
  "INOTIFY_READ_BUF_LEN = 100 * (16 + int NAME_MAX + 1)"

definition has :: "inotify_event \<Rightarrow> 32 word \<Rightarrow> bool" where
  "has ev m = (ev_mask ev AND m \<noteq> 0)"

record 'w ekernel =
  ek_base :: "'w dkernel"
  ek_read :: "int \<Rightarrow> int \<Rightarrow> ('w, inotify_event list) kcall"
  ek_sigaction :: "('w, unit) kcall"
  ek_ualarm :: "nat \<Rightarrow> 'w \<Rightarrow> 'w"

definition show_flag :: "inotify_event \<Rightarrow> 32 word \<Rightarrow> string \<Rightarrow> ('w dtree, unit) program" where
  "show_flag ev m name = (if has ev m then logMessage VB_NOISY name [] else ret ())"

definition displayInotifyEvent :: "inotify_event \<Rightarrow> ('w dtree, unit) program" where
  "displayInotifyEvent ev = seqs [
     logMessage VB_NOISY ''==> wd = %d; '' [FInt (ev_wd ev)],
     if ev_cookie ev > 0 then logMessage VB_NOISY ''cookie = %4d; '' [FInt (uint (ev_cookie ev))] else ret (),
     logMessage VB_NOISY ''mask = '' [],
     show_flag ev IN_ISDIR ''IN_ISDIR '',
     show_flag ev IN_CREATE ''IN_CREATE '',
     show_flag ev IN_DELETE_SELF ''IN_DELETE_SELF '',
     show_flag ev IN_MOVE_SELF ''IN_MOVE_SELF '',
     show_flag ev IN_MOVED_FROM ''IN_MOVED_FROM '',
     show_flag ev IN_MOVED_TO ''IN_MOVED_TO '',
     show_flag ev IN_IGNORED ''IN_IGNORED '',
     show_flag ev IN_Q_OVERFLOW ''IN_Q_OVERFLOW '',
     show_flag ev IN_UNMOUNT ''IN_UNMOUNT '',
     logMessage VB_NOISY ''\<newline>'' [],
     if ev_len ev > 0 then logMessage VB_NOISY ''        name = %s\<newline>'' [FStr (ev_name ev)] else ret ()]"

section \<open>One event\<close>

definition slot_path :: "nat option \<Rightarrow> ('w dtree, string) program" where
  "slot_path slot = (case slot of
     None \<Rightarrow> halts Undefined
   | Some j \<Rightarrow> andThen (read_slot j) (\<lambda>e. ret (path e)))"

text \<open>The result of a branch: whether the function returns at once, the bytes consumed and the
  descriptor.\<close>

type_synonym ev_result = "bool \<times> int \<times> int"

definition rebuild :: "err_texts \<Rightarrow> 'w dkernel \<Rightarrow> int \<Rightarrow> ('w dtree, ev_result) program" where
  "rebuild et K fd = andThen (reinitialize et K fd) (\<lambda>fd'. ret (True, INOTIFY_READ_BUF_LEN, fd'))"

definition dir_created ::
  "err_texts \<Rightarrow> 'w dkernel \<Rightarrow> int \<Rightarrow> inotify_event \<Rightarrow> nat option \<Rightarrow> ('w dtree, ev_result) program" where
  "dir_created et K fd ev slot =
     andThen (slot_path slot) (\<lambda>dir.
     let fullPath = snprintf_buf (PATH_MAX + NAME_MAX) (dir @ ''/'' @ ev_name ev) in
     andThen (logMessage VB_BASIC ''Directory creation on wd %d: %s\<newline>'' [FInt (ev_wd ev), FStr fullPath]) (\<lambda>_.
     andThen (query (\<lambda>s. pathnameInCache fullPath (wlCache s))) (\<lambda>cached.
     andThen (if \<not> cached then watchSubtree et K fd fullPath else ret ()) (\<lambda>_.
     ret (False, ev_size ev, fd)))))"

definition mark_slot :: "nat option \<Rightarrow> ('w dtree, unit) program" where
  "mark_slot slot = (case slot of None \<Rightarrow> halts Undefined | Some j \<Rightarrow> markCacheSlotEmpty j)"

definition dir_deleted :: "int \<Rightarrow> inotify_event \<Rightarrow> nat option \<Rightarrow> ('w dtree, ev_result) program" where
  "dir_deleted fd ev slot =
     andThen (slot_path slot) (\<lambda>p.
     andThen (logMessage VB_BASIC ''Clearing watchlist item %d (%s)\<newline>'' [FInt (ev_wd ev), FStr p]) (\<lambda>_.
     andThen (query (\<lambda>s. isRootDirPath p (rootDirPaths s))) (\<lambda>root.
     andThen (if root then zapRootDirPath p else ret ()) (\<lambda>_.
     andThen (mark_slot slot) (\<lambda>_.
     ret (False, ev_size ev, fd))))))"

text \<open>A directory was moved away: a rename if the next event in the buffer says where to, otherwise a
  move out of the trees, unless it is worth reading a little more first.\<close>

definition dir_moved ::
  "err_texts \<Rightarrow> 'w dkernel \<Rightarrow> int \<Rightarrow> inotify_event \<Rightarrow> inotify_event list \<Rightarrow> int \<Rightarrow> bool \<Rightarrow> nat option
   \<Rightarrow> ('w dtree, ev_result) program" where
  "dir_moved et K fd ev rest bufSize firstTry slot =
     (let more = ev_size ev < bufSize in
      if more \<and> rest = [] then halts Undefined
      else if more \<and> has (hd rest) IN_MOVED_TO \<and> ev_cookie (hd rest) = ev_cookie ev
      then
        andThen (findWatchChecked K (ev_wd (hd rest))) (\<lambda>nextSlot.
        if nextSlot = - 1 then rebuild et K fd
        else
        andThen (slot_path slot) (\<lambda>from.
        andThen (slot_path (Some (nat nextSlot))) (\<lambda>to.
        andThen (rewriteCachedPaths from (ev_name ev) to (ev_name (hd rest))) (\<lambda>_.
        ret (False, ev_size ev + ev_size (hd rest), fd)))))
      else if more \<or> \<not> firstTry
      then
        andThen (slot_path slot) (\<lambda>p.
        andThen (logMessage VB_NOISY ''MOVED_OUT: %p %p\<newline>'' []) (\<lambda>_.
        andThen (logMessage VB_NOISY ''firstTry = %d; remaining bytes = %d\<newline>''
                   [FInt (if firstTry then 1 else 0), FInt (bufSize - ev_size ev)]) (\<lambda>_.
        let fullPath = snprintf_buf (PATH_MAX + NAME_MAX) (p @ ''/'' @ ev_name ev) in
        andThen (zapSubtree et K fd fullPath) (\<lambda>r.
        if r = - 1 then rebuild et K fd else ret (False, ev_size ev, fd)))))
      else
        andThen (logMessage VB_NOISY ''HANGING IN_MOVED_FROM\<newline>'' []) (\<lambda>_.
        ret (True, - 1, fd)))"

definition queue_overflow :: "err_texts \<Rightarrow> 'w dkernel \<Rightarrow> int \<Rightarrow> ('w dtree, ev_result) program" where
  "queue_overflow et K fd =
     andThen (modify (\<lambda>s. s\<lparr>overflowCnt := Suc (overflowCnt s)\<rparr>)) (\<lambda>_.
     andThen (query (\<lambda>s. (overflowCnt s, inotifyReadCnt s))) (\<lambda>(n, k).
     andThen (logMessage 0 ''Queue overflow (%d) (inotifyReadCnt = %d)\<newline>'' [FInt (int n), FInt (int k)]) (\<lambda>_.
     andThen (reinitialize et K fd) (\<lambda>fd'.
     ret (False, INOTIFY_READ_BUF_LEN, fd')))))"

definition fs_unmounted :: "int \<Rightarrow> inotify_event \<Rightarrow> nat option \<Rightarrow> ('w dtree, ev_result) program" where
  "fs_unmounted fd ev slot =
     andThen (slot_path slot) (\<lambda>p.
     andThen (logMessage 0 ''Filesystem unmounted: %s\<newline>'' [FStr p]) (\<lambda>_.
     andThen (mark_slot slot) (\<lambda>_.
     ret (False, ev_size ev, fd))))"

definition root_moved ::
  "err_texts \<Rightarrow> 'w dkernel \<Rightarrow> int \<Rightarrow> inotify_event \<Rightarrow> nat option \<Rightarrow> ('w dtree, ev_result) program" where
  "root_moved et K fd ev slot =
     andThen (slot_path slot) (\<lambda>p.
     andThen (query (\<lambda>s. isRootDirPath p (rootDirPaths s))) (\<lambda>root.
     if \<not> root then ret (False, ev_size ev, fd)
     else
     andThen (logMessage 0 ''Root path moved: %s\<newline>'' [FStr p]) (\<lambda>_.
     andThen (zapRootDirPath p) (\<lambda>_.
     andThen (slot_path slot) (\<lambda>q.
     andThen (zapSubtree et K fd q) (\<lambda>r.
     if r = - 1 then rebuild et K fd else ret (False, ev_size ev, fd)))))))"

definition event_slot :: "'w dkernel \<Rightarrow> inotify_event \<Rightarrow> ('w dtree, int option) program" where
  "event_slot K ev =
     (if ev_wd ev \<noteq> - 1 \<and> \<not> has ev IN_IGNORED
      then andThen (findWatchChecked K (ev_wd ev)) (\<lambda>slot. ret (Some slot)) else ret None)"

definition dispatch_event ::
  "err_texts \<Rightarrow> 'w dkernel \<Rightarrow> int \<Rightarrow> inotify_event \<Rightarrow> inotify_event list \<Rightarrow> int \<Rightarrow> bool \<Rightarrow> nat option
   \<Rightarrow> ('w dtree, ev_result) program" where
  "dispatch_event et K fd ev rest bufSize firstTry slot =
     (if has ev IN_ISDIR \<and> has ev (IN_CREATE OR IN_MOVED_TO) then dir_created et K fd ev slot
      else if has ev IN_DELETE_SELF then dir_deleted fd ev slot
      else if ev_mask ev AND (IN_MOVED_FROM OR IN_ISDIR) = IN_MOVED_FROM OR IN_ISDIR
      then dir_moved et K fd ev rest bufSize firstTry slot
      else if has ev IN_Q_OVERFLOW then queue_overflow et K fd
      else if has ev IN_UNMOUNT then fs_unmounted fd ev slot
      else if has ev IN_MOVE_SELF then root_moved et K fd ev slot
      else ret (False, ev_size ev, fd))"

definition processNextInotifyEvent ::
  "err_texts \<Rightarrow> 'w dkernel \<Rightarrow> int \<Rightarrow> inotify_event list \<Rightarrow> int \<Rightarrow> bool \<Rightarrow> ('w dtree, int \<times> int) program" where
  "processNextInotifyEvent et K fd evs bufSize firstTry = (case evs of
       [] \<Rightarrow> halts Undefined
     | ev # rest \<Rightarrow>
         andThen (displayInotifyEvent ev) (\<lambda>_.
         andThen (event_slot K ev) (\<lambda>slot.
         if slot = Some (- 1)
         then andThen (reinitialize et K fd) (\<lambda>fd'. ret (INOTIFY_READ_BUF_LEN, fd'))
         else
         andThen (dispatch_event et K fd ev rest bufSize firstTry (map_option nat slot)) (\<lambda>(early, evLen, fd').
         if early then ret (evLen, fd')
         else
         andThen (query checkCache) (\<lambda>chk.
         andThen (if chk then checkCacheConsistency et K else ret ()) (\<lambda>_.
         andThen (query dumpCache) (\<lambda>dmp.
         andThen (if dmp then dumpCacheToLog else ret ()) (\<lambda>_.
         ret (evLen, fd')))))))))"

section \<open>A buffer of events\<close>

text \<open>\<open>evp += evLen\<close> in terms of the events left.\<close>

fun advance :: "int \<Rightarrow> inotify_event list \<Rightarrow> inotify_event list" where
  "advance n [] = []"
| "advance n (ev # evs) = (if n \<le> 0 then ev # evs else advance (n - ev_size ev) evs)"

definition bytes :: "inotify_event list \<Rightarrow> int" where
  "bytes evs = sum_list (map ev_size evs)"

text \<open>The second read, after an \<open>IN_MOVED_FROM\<close> at the end of the buffer. An interrupted read counts as
  \<open>-1\<close> bytes, because the code tests \<open>errno\<close> where it means the result of \<open>read\<close>.\<close>

definition secondary_read ::
  "err_texts \<Rightarrow> 'w ekernel \<Rightarrow> int \<Rightarrow> int \<Rightarrow> ('w dtree, inotify_event list \<times> int) program" where
  "secondary_read et E fd numRead =
     andThen (modify (\<lambda>s. s\<lparr>world := ek_ualarm E 2000 (world s)\<rparr>)) (\<lambda>_.
     andThen (syscall (ek_read E fd (INOTIFY_READ_BUF_LEN - numRead))) (\<lambda>r.
     andThen (modify (\<lambda>s. s\<lparr>world := ek_ualarm E 0 (world s)\<rparr>)) (\<lambda>_.
     andThen (query p_errno) (\<lambda>e.
     if r = None \<and> e \<noteq> EINTR then errExit_macro et ''read''
     else (let new = (case r of None \<Rightarrow> [] | Some evs \<Rightarrow> evs); nr = (case r of None \<Rightarrow> - 1 | Some evs \<Rightarrow> bytes evs) in
       if nr = 0
       then andThen (eprintf ''read() from inotify fd returned 0!'' []) (\<lambda>_. exit_process EXIT_FAILURE)
       else
       andThen (modify (\<lambda>s. s\<lparr>inotifyReadCnt := Suc (inotifyReadCnt s)\<rparr>)) (\<lambda>_.
       andThen (query inotifyReadCnt) (\<lambda>n.
       andThen (logMessage VB_NOISY ''\<newline>==========> SECONDARY Read %d: got %zd bytes\<newline>'' [FInt (int n), FInt nr]) (\<lambda>_.
       ret (new, numRead + nr)))))))))"

text \<open>The loop over the buffer: \<open>left\<close> is the number of bytes from the current position to the end;
  the result is the descriptor, \<open>None\<close> if the bound on the iterations was too small.\<close>

fun event_loop ::
  "nat \<Rightarrow> err_texts \<Rightarrow> 'w ekernel \<Rightarrow> int \<Rightarrow> inotify_event list \<Rightarrow> int \<Rightarrow> bool \<Rightarrow> ('w dtree, int option) program" where
  "event_loop 0 et E fd evs left firstTry = ret None"
| "event_loop (Suc n) et E fd evs left firstTry =
     (if left \<le> 0 then ret (Some fd)
      else
      andThen (processNextInotifyEvent et (ek_base E) fd evs left firstTry) (\<lambda>(evLen, fd').
      if evLen > 0 then event_loop n et E fd' (advance evLen evs) (left - evLen) True
      else
      andThen (secondary_read et E fd' left) (\<lambda>(new, left').
      event_loop n et E fd' (evs @ new) left' False)))"

definition processInotifyEvents ::
  "nat \<Rightarrow> err_texts \<Rightarrow> 'w ekernel \<Rightarrow> int \<Rightarrow> ('w dtree, int option) program" where
  "processInotifyEvents fuel et E fd =
     andThen (or_die (syscall (ek_sigaction E)) (errExit_macro et ''sigaction'')) (\<lambda>_.
     andThen (query readBufferSize) (\<lambda>size.
     let cnt = (if size > 0 then size else INOTIFY_READ_BUF_LEN) in
     andThen (or_die (syscall (ek_read E fd cnt)) (errExit_macro et ''read'')) (\<lambda>evs.
     if bytes evs = 0
     then andThen (eprintf ''read() from inotify fd returned 0!'' []) (\<lambda>_. exit_process EXIT_FAILURE)
     else if bytes evs > INOTIFY_READ_BUF_LEN then halts Undefined
     else
     andThen (modify (\<lambda>s. s\<lparr>inotifyReadCnt := Suc (inotifyReadCnt s)\<rparr>)) (\<lambda>_.
     andThen (query inotifyReadCnt) (\<lambda>n.
     andThen (logMessage VB_NOISY ''\<newline>==========> Read %d: got %zd bytes\<newline>'' [FInt (int n), FInt (bytes evs)]) (\<lambda>_.
     event_loop fuel et E fd evs (bytes evs) True))))))"

section \<open>Lemmas\<close>

subsection \<open>The invariant\<close>

lemma find_root_Some: "find_root p rs j = Some i \<Longrightarrow> j \<le> i \<and> i - j < length rs \<and> rs ! (i - j) = Some p"
proof (induction rs arbitrary: j)
  case (Cons r rs)
  show ?case
  proof (cases "r = Some p")
    case True
    with Cons.prems show ?thesis by auto
  next
    case False
    with Cons.prems Cons.IH[of "Suc j"] show ?thesis by (auto simp: nth_Cons' Suc_diff_le)
  qed
qed simp

lemma find_root_None: "find_root p rs j = None \<longleftrightarrow> Some p \<notin> set rs"
  by (induction rs arbitrary: j) auto

lemma isRootDirPath_iff: "isRootDirPath p roots \<longleftrightarrow> Some p \<in> set roots"
  by (simp add: isRootDirPath_def findRootDirPath_def find_root_None)

lemma count_None_update:
  "i < length rs \<Longrightarrow> rs ! i \<noteq> None \<Longrightarrow>
     length (filter (\<lambda>r. r = None) (rs[i := None])) = Suc (length (filter (\<lambda>r. r = None) rs))"
proof (induction rs arbitrary: i)
  case (Cons r rs)
  then show ?case by (cases i) auto
qed simp

lemma dt_zapRoot [keep]: "keeps dt_inv (zapRootDirPath p)"
proof (rule keepsI)
  fix s :: "'w dtree" and r s' assume I: "dt_inv s" and run: "zapRootDirPath p s = (r, s')"
  show "dt_inv s'"
  proof (cases "findRootDirPath p (rootDirPaths s)")
    case None
    with I run show ?thesis by (auto simp: zapRootDirPath_def dt_inv_def flushed_def)
  next
    case (Some j)
    then have "j < length (rootDirPaths s)" "rootDirPaths s ! j = Some p"
      using find_root_Some[of p "rootDirPaths s" 0 j] by (simp_all add: findRootDirPath_def)
    with I Some run show ?thesis
      by (auto simp: zapRootDirPath_def dt_inv_def flushed_def count_None_update split: if_splits)
  qed
qed

lemma dt_read_slot [keep]: "keeps dt_inv (read_slot j)"
  unfolding read_slot_def by (intro keep)

lemma dt_slot_path [keep]: "keeps dt_inv (slot_path slot)"
  unfolding slot_path_def by (intro keep)

lemma dt_mark_slot [keep]: "keeps dt_inv (mark_slot slot)"
  unfolding mark_slot_def by (intro keep)

lemma dt_display [keep]: "keeps dt_inv (displayInotifyEvent ev)"
  unfolding displayInotifyEvent_def show_flag_def by (intro keep)

lemma dt_rebuild [keep]: "sane_watches K \<Longrightarrow> keeps dt_inv (rebuild et K fd)"
  unfolding rebuild_def by (intro keep)

lemma dt_dispatch [keep]:
  assumes "sane_watches K"
  shows "keeps dt_inv (dispatch_event et K fd ev rest bufSize firstTry slot)"
proof -
  have "keeps dt_inv (dir_created et K fd ev slot)" "keeps dt_inv (dir_deleted fd ev slot)"
    "keeps dt_inv (dir_moved et K fd ev rest bufSize firstTry slot)" "keeps dt_inv (queue_overflow et K fd)"
    "keeps dt_inv (fs_unmounted fd ev slot)" "keeps dt_inv (root_moved et K fd ev slot)"
    unfolding dir_created_def dir_deleted_def dir_moved_def queue_overflow_def fs_unmounted_def root_moved_def
    using assms by (intro keep; simp add: dt_inv_def)+
  then show ?thesis unfolding dispatch_event_def by (intro keep)
qed

lemma dt_next [keep]:
  assumes "sane_watches K"
  shows "keeps dt_inv (processNextInotifyEvent et K fd evs bufSize firstTry)"
proof (cases evs)
  case Nil
  then show ?thesis by (simp add: processNextInotifyEvent_def keep)
next
  case (Cons ev rest)
  show ?thesis
    unfolding processNextInotifyEvent_def event_slot_def Cons list.case using assms by (intro keep)
qed

lemma dt_secondary [keep]: "keeps dt_inv (secondary_read et E fd n)"
  unfolding secondary_read_def Let_def by (intro keep) (simp_all add: dt_inv_def)

lemma dt_event_loop [keep]: "sane_watches (ek_base E) \<Longrightarrow> keeps dt_inv (event_loop n et E fd evs left firstTry)"
  by (induction n arbitrary: fd evs left firstTry) (auto intro!: keep)

lemma dt_process [keep]: "sane_watches (ek_base E) \<Longrightarrow> keeps dt_inv (processInotifyEvents n et E fd)"
  unfolding processInotifyEvents_def Let_def by (intro keep) (simp_all add: dt_inv_def)

subsection \<open>What logging leaves alone\<close>

definition core :: "'w dtree \<Rightarrow> watch list \<times> (string option list \<times> nat \<times> bool \<times> bool) \<times> 'w \<times> bool" where
  "core s = (wlCache s, frame s, world s, abortOnCacheProblem s)"

lemma core_logged [simp]: "core (logged m f as s) = core s"
  by (simp add: core_def frame_def)

text \<open>Programs that only write to the log: they return, and the core of the state stays.\<close>

definition only_logs :: "('w dtree, unit) program \<Rightarrow> bool" where
  "only_logs m = (\<forall>s. \<exists>s'. m s = (Inr (), s') \<and> core s' = core s)"

lemma only_logs_rules:
  "only_logs (logMessage k f as)" "only_logs (ret ())" "only_logs (seqs [])"
  "only_logs m \<Longrightarrow> only_logs (seqs ms) \<Longrightarrow> only_logs (seqs (m # ms))"
  "only_logs m \<Longrightarrow> only_logs n \<Longrightarrow> only_logs (if b then m else n)"
proof -
  show "only_logs (seqs (m # ms))" if m: "only_logs m" and ms: "only_logs (seqs ms)"
    unfolding only_logs_def
  proof
    fix s
    obtain s1 where s1: "m s = (Inr (), s1)" "core s1 = core s" using m unfolding only_logs_def by blast
    obtain s2 where "seqs ms s1 = (Inr (), s2)" "core s2 = core s1" using ms unfolding only_logs_def by blast
    with s1 show "\<exists>s'. seqs (m # ms) s = (Inr (), s') \<and> core s' = core s" by simp
  qed
qed (simp_all add: only_logs_def)

lemma only_logs_display: "only_logs (displayInotifyEvent ev)"
  unfolding displayInotifyEvent_def show_flag_def by (intro only_logs_rules)

lemma displayed:
  obtains s' where "displayInotifyEvent ev s = (Inr (), s')" and "core s' = core s"
  using only_logs_display unfolding only_logs_def by blast

lemma cmap_slot:
  assumes "cache_wf c" and "cmap c d = Some p"
  obtains j where "findWatch d c = int j" and "j < length c" and "path (c ! j) = p" and "0 \<le> d" and "wd (c ! j) = d"
proof (cases rule: find_slot_cases[of "\<lambda>e. wd e = d" c])
  case none
  then show thesis using assms(2) by (simp add: cmap_def findWatch_def)
next
  case (found j)
  then show thesis using that[of j] assms(2) by (auto simp: cmap_def findWatch_def split: if_splits)
qed

lemma findWatchChecked_found:
  "findWatch d (wlCache s) = int j \<Longrightarrow> findWatchChecked K d s = (Inr (int j), s)"
  by (simp add: findWatchChecked_def)

text \<open>The event of a watched descriptor reaches its branch with the slot of its directory.\<close>

lemma next_event_dispatch:
  assumes "cache_wf (wlCache s)" and "cmap (wlCache s) (ev_wd ev) = Some p" and "\<not> has ev IN_IGNORED"
    and "\<not> checkCache s" and "\<not> dumpCache s"
  obtains j s1 where "core s1 = core s" and "j < length (wlCache s1)" and "path (wlCache s1 ! j) = p"
    and "\<And>r n fd' s2. dispatch_event et K fd ev rest bufSize firstTry (Some j) s1 = (Inr (r, n, fd'), s2) \<Longrightarrow>
           checkCache s2 = checkCache s1 \<Longrightarrow> dumpCache s2 = dumpCache s1 \<Longrightarrow>
           processNextInotifyEvent et K fd (ev # rest) bufSize firstTry s = (Inr (n, fd'), s2)"
proof -
  obtain j where j: "findWatch (ev_wd ev) (wlCache s) = int j" "j < length (wlCache s)" "path (wlCache s ! j) = p"
    "0 \<le> ev_wd ev"
    using cmap_slot[OF assms(1,2)] by metis
  obtain s1 where s1: "displayInotifyEvent ev s = (Inr (), s1)" "core s1 = core s" by (rule displayed)
  then have sel: "wlCache s1 = wlCache s" "checkCache s1 = checkCache s" "dumpCache s1 = dumpCache s"
    by (simp_all add: core_def frame_def)
  have slot: "event_slot K ev s1 = (Inr (Some (int j)), s1)"
    using j assms(3) findWatchChecked_found[of "ev_wd ev" s1 j K] sel by (simp add: event_slot_def)
  show thesis
    by (rule that[OF s1(2)]) (use j sel s1 slot assms(4,5) in \<open>auto simp: processNextInotifyEvent_def\<close>)
qed

subsection \<open>Directories that move\<close>

abbreviation (input) moved_out :: "32 word" where "moved_out \<equiv> IN_MOVED_FROM OR IN_ISDIR"

lemma dispatch_moved:
  assumes "ev_mask ev = moved_out"
  shows "dispatch_event et K fd ev rest bufSize firstTry slot = dir_moved et K fd ev rest bufSize firstTry slot"
    and "\<not> has ev IN_IGNORED"
  using assms by (simp_all add: dispatch_event_def has_def)

lemma slot_path_run [simp]: "j < length (wlCache s) \<Longrightarrow> slot_path (Some j) s = (Inr (path (wlCache s ! j)), s)"
  by (simp add: slot_path_def)

lemma core_sel:
  "core s' = core s \<Longrightarrow> wlCache s' = wlCache s" "core s' = core s \<Longrightarrow> frame s' = frame s"
  "core s' = core s \<Longrightarrow> world s' = world s"
  by (simp_all add: core_def)

lemma frame_flags: "frame s' = frame s \<Longrightarrow> checkCache s' = checkCache s" "frame s' = frame s \<Longrightarrow> dumpCache s' = dumpCache s"
  by (simp_all add: frame_def)

text \<open>\<open>IN_MOVED_FROM\<close> and \<open>IN_MOVED_TO\<close> next to each other.\<close>

lemma dir_moved_pair:
  assumes "cmap (wlCache s) (ev_wd nx) = Some q" and "cache_wf (wlCache s)" and "j < length (wlCache s)"
    and "has nx IN_MOVED_TO" and "ev_cookie nx = ev_cookie ev" and "ev_size ev < bufSize"
    and "rewriteCachedPaths (path (wlCache s ! j)) (ev_name ev) q (ev_name nx) s = (Inr (), s')"
  shows "dir_moved et K fd ev (nx # rest) bufSize firstTry (Some j) s = (Inr (False, ev_size ev + ev_size nx, fd), s')"
proof -
  obtain i where i: "findWatch (ev_wd nx) (wlCache s) = int i" "i < length (wlCache s)" "path (wlCache s ! i) = q"
    using cmap_slot[OF assms(2,1)] by metis
  then show ?thesis using assms findWatchChecked_found[OF i(1), of K] by (simp add: dir_moved_def)
qed

text \<open>\<open>IN_MOVED_FROM\<close> without its partner.\<close>

lemma dir_moved_lone:
  assumes "j < length (wlCache s)" and "bufSize \<le> ev_size ev \<or> rest \<noteq> []
      \<and> \<not> (has (hd rest) IN_MOVED_TO \<and> ev_cookie (hd rest) = ev_cookie ev)"
    and "ev_size ev < bufSize \<or> \<not> firstTry"
    and "dk_alloc_ok K (world s) (Suc (length (snprintf_buf (PATH_MAX + NAME_MAX) (path (wlCache s ! j) @ ''/'' @ ev_name ev))))"
    and "\<And>d w. \<not> isl (fst (dk_rm_watch K fd d w))"
  shows "\<exists>s'. dir_moved et K fd ev rest bufSize firstTry (Some j) s = (Inr (False, ev_size ev, fd), s') \<and> frame s' = frame s
    \<and> wlCache s' = map (zapped (snprintf_buf (PATH_MAX + NAME_MAX) (path (wlCache s ! j) @ ''/'' @ ev_name ev))) (wlCache s)"
proof -
  let ?p = "snprintf_buf (PATH_MAX + NAME_MAX) (path (wlCache s ! j) @ ''/'' @ ev_name ev)"
  let ?s2 = "logged VB_NOISY ''firstTry = %d; remaining bytes = %d\<newline>''
      [FInt (if firstTry then 1 else 0), FInt (bufSize - ev_size ev)] (logged VB_NOISY ''MOVED_OUT: %p %p\<newline>'' [] s)"
  have "dk_alloc_ok K (world ?s2) (Suc (length ?p))" using assms(4) by simp
  then obtain r k s' where z: "zapSubtree et K fd ?p ?s2 = (Inr r, s')" "frame s' = frame ?s2"
    "wlCache s' = map (zapped ?p) (take k (wlCache ?s2)) @ drop k (wlCache ?s2)"
    "r = - 1 \<and> (\<exists>d w e w'. dk_rm_watch K fd d w = (Inl e, w')) \<or> r = hits ?p (wlCache ?s2) \<and> k = length (wlCache ?s2)"
    using zapSubtree_run[of K ?s2 ?p et fd] by blast
  have "r = hits ?p (wlCache ?s2) \<and> k = length (wlCache ?s2)"
    using z(4) assms(5) by (metis fst_conv sum.disc(1))
  moreover have "frame ?s2 = frame s" by (simp add: frame_def)
  ultimately show ?thesis
    using z assms(1-3) by (intro exI[of _ s']) (auto simp: dir_moved_def Let_def hits_def)
qed

subsection \<open>Rebuilding the cache\<close>

lemma log_unchecked_ends: "fst (log_unchecked f as s) \<in> {Inl Undefined, Inr ()}"
  by (simp add: log_unchecked_def log_file_def)

lemma dump_loop_ends: "fst (dump_loop j c n s) = Inl Undefined \<or> \<not> isl (fst (dump_loop j c n s))"
proof (induction c arbitrary: j n s)
  case (Cons e c)
  show ?case
  proof (cases "0 \<le> wd e")
    case True
    show ?thesis
    proof (cases "logfp s")
      case None
      with True show ?thesis by (simp add: log_unchecked_def)
    next
      case (Some l)
      with True Cons show ?thesis by (simp add: log_unchecked_def log_file_def)
    qed
  qed (use Cons in simp)
qed simp

lemma stop_ends: "fst (createStopFileAndAbort K s) \<in> {Inl Abort, Inl Undefined}"
proof -
  have dump: "fst (andThen dumpCacheToLog (\<lambda>_. halts Abort) t) \<in> {Inl Abort, Inl Undefined}" for t :: "'w dtree"
    using dump_loop_ends[of 0 "wlCache t" 0 t]
    by (cases "dump_loop 0 (wlCache t) 0 t"; cases "fst (dump_loop 0 (wlCache t) 0 t)")
      (auto simp: dumpCacheToLog_def log_unchecked_def log_file_def andThen_run)
  show ?thesis
  proof (cases "stopFile s")
    case None
    with dump show ?thesis by (simp add: createStopFileAndAbort_def)
  next
    case (Some p)
    with dump show ?thesis by (cases rule: syscall_cases[of "dk_open_stop K p" s]) (simp_all add: createStopFileAndAbort_def)
  qed
qed

lemma stop_endsE:
  obtains h s' where "createStopFileAndAbort K s = (Inl h, s')" and "h \<in> {Abort, Undefined}"
  using stop_ends[of K s] by (metis empty_iff insert_iff prod.collapse sum.inject(1))

text \<open>The calls of a rebuild: the walk of every root that is still monitored.\<close>

fun root_calls :: "'w dkernel \<Rightarrow> int \<Rightarrow> string option list \<Rightarrow> string option list \<Rightarrow> 'w
    \<Rightarrow> (string \<times> (errno + int)) list \<times> 'w" where
  "root_calls K fd roots [] w = ([], w)"
| "root_calls K fd roots (None # rs) w = root_calls K fd roots rs w"
| "root_calls K fd roots (Some p # rs) w = (case dk_nftw K p w of (vs, _, w1) \<Rightarrow>
     case watch_calls K fd roots vs w1 of (l, w2) \<Rightarrow>
     case root_calls K fd roots rs w2 of (l', w3) \<Rightarrow> (l @ l', w3))"

lemma watch_roots_exact:
  assumes "sane_watches K" and "\<forall>w n. dk_alloc_ok K w n" and "cache_wf (wlCache s)" and "n \<le> length roots"
    and "rootDirPaths s = roots" and "root_calls K fd roots (drop n roots) (world s) = (l, w)"
  shows "if only_vanished l
    then \<exists>s'. forEach [n..<length roots] (watch_root et K fd) s = (Inr (), s') \<and> world s' = w \<and> frame s' = frame s
       \<and> cache_wf (wlCache s') \<and> cmap (wlCache s') = map_of (granted l) ++ cmap (wlCache s)
    else \<exists>s'. forEach [n..<length roots] (watch_root et K fd) s = (Inl (Exit EXIT_FAILURE), s')"
  using assms(3-6)
proof (induction "length roots - n" arbitrary: n s l)
  case 0
  then show ?case by simp
next
  case (Suc m)
  have n: "n < length roots" using Suc.hyps(2) by simp
  have up: "[n..<length roots] = n # [Suc n..<length roots]" using n by (simp add: upt_conv_Cons)
  have dr: "drop n roots = roots ! n # drop (Suc n) roots" using n by (simp add: Cons_nth_drop_Suc)
  have m: "m = length roots - Suc n" using Suc.hyps(2) by simp
  show ?case
  proof (cases "roots ! n")
    case None
    then have run: "watch_root et K fd n s = (Inr (), s)" by (simp add: watch_root_def Suc.prems(3))
    have calls: "root_calls K fd roots (drop (Suc n) roots) (world s) = (l, w)" using Suc.prems(4) dr None by simp
    show ?thesis using Suc.hyps(1)[OF m Suc.prems(1) Suc_leI[OF n] Suc.prems(3) calls] run by (simp add: up)
  next
    case (Some p)
    then have root: "watch_root et K fd n s = watchSubtree et K fd p s" by (simp add: watch_root_def Suc.prems(3))
    obtain vs st w1 where nf: "dk_nftw K p (world s) = (vs, st, w1)" using prod_cases3 by blast
    obtain l1 w2 where l1: "watch_calls K fd roots vs w1 = (l1, w2)" by fastforce
    obtain l2 where l2: "root_calls K fd roots (drop (Suc n) roots) w2 = (l2, w)" and l: "l = l1 @ l2"
      using Suc.prems(4) dr Some nf l1 by (auto split: prod.splits)
    note sub = watchSubtree_exact[OF assms(1,2) Suc.prems(1) nf, of fd l1 w2 et, unfolded Suc.prems(3), OF l1]
    show ?thesis
    proof (cases "only_vanished l1")
      case False
      then show ?thesis using sub by (auto simp: up root l)
    next
      case True
      then obtain s1 where s1: "watchSubtree et K fd p s = (Inr (), s1)" "world s1 = w2" "frame s1 = frame s"
        "cache_wf (wlCache s1)" "cmap (wlCache s1) = map_of (granted l1) ++ cmap (wlCache s)"
        using sub by auto
      have r1: "rootDirPaths s1 = roots" using s1(3) Suc.prems(3) by (simp add: frame_def)
      have calls: "root_calls K fd roots (drop (Suc n) roots) (world s1) = (l2, w)" using l2 s1(2) by simp
      have g: "map_of (granted l) ++ cmap (wlCache s) = map_of (granted l2) ++ cmap (wlCache s1)"
        unfolding s1(5) l by (simp add: map_add_assoc)
      show ?thesis
        using Suc.hyps(1)[OF m s1(4) Suc_leI[OF n] r1 calls] True s1(1,3) unfolding g
        by (cases "only_vanished l2") (auto simp: up root l)
    qed
  qed
qed

lemma reinitialize_exact:
  assumes "sane_watches K" and "\<forall>w n. dk_alloc_ok K w n" and "0 \<le> fd"
    and "dk_close K fd (world s) = (c, w1)" and "dk_inotify_init K w1 = (Inr fd', w2)"
    and "root_calls K fd' (rootDirPaths s) (rootDirPaths s) w2 = (l, w3)"
  shows "if only_vanished l
    then \<exists>s'. reinitialize et K fd s = (Inr fd', s') \<and> world s' = w3 \<and> frame s' = frame s
       \<and> cache_wf (wlCache s') \<and> cmap (wlCache s') = map_of (granted l)
    else \<exists>s'. reinitialize et K fd s = (Inl (Exit EXIT_FAILURE), s')"
proof -
  obtain s1 where s1: "announce_rebuild K fd s = (Inr (), s1)" "world s1 = w1" "frame s1 = frame s"
    using assms(3,4) by (cases c) (simp_all add: announce_rebuild_def frame_def)
  let ?s2 = "s1\<lparr>world := w2\<rparr>"
  let ?s3 = "(logged VB_BASIC ''    new inotifyFd = %d\<newline>'' [FInt fd'] ?s2)\<lparr>wlCache := []\<rparr>"
  have init: "or_die (syscall (dk_inotify_init K)) (errExit_macro et ''inotify_init'') s1 = (Inr fd', ?s2)"
    using assms(5) s1(2) by (simp add: or_die_def)
  have s3: "rootDirPaths ?s3 = rootDirPaths s" "frame ?s3 = frame s" "world ?s3 = w2" "cache_wf (wlCache ?s3)" "wlCache ?s3 = []"
    using s1(3) by (simp_all add: frame_def cache_wf_def)
  have calls: "root_calls K fd' (rootDirPaths s) (drop 0 (rootDirPaths s)) (world ?s3) = (l, w3)" using assms(6) s3(3) by simp
  note all = watch_roots_exact[OF assms(1,2) s3(4) le0 s3(1) calls, of et]
  have run: "reinitialize et K fd s = andThen (forEach [0..<length (rootDirPaths s)] (watch_root et K fd')) (\<lambda>_.
     andThen (query (\<lambda>s. used_slots (wlCache s))) (\<lambda>cnt.
     andThen (if fd \<ge> 0
              then logMessage 0 ''Rebuilt cache with %d entries\<newline>'' [FInt (int cnt)] else ret ()) (\<lambda>_.
     ret fd'))) ?s3"
    using s1(1) init s3(1) by (simp add: reinitialize_def freeCache_def)
  show ?thesis
  proof (cases "only_vanished l")
    case True
    then obtain s4 where "forEach [0..<length (rootDirPaths s)] (watch_root et K fd') ?s3 = (Inr (), s4)" "world s4 = w3"
      "frame s4 = frame s" "cache_wf (wlCache s4)" "cmap (wlCache s4) = map_of (granted l)"
      using all s3 by (auto simp: map_add_def fun_eq_iff split: option.splits)
    with True show ?thesis unfolding run by (simp add: frame_def)
  next
    case False
    then obtain s4 where "forEach [0..<length (rootDirPaths s)] (watch_root et K fd') ?s3 = (Inl (Exit EXIT_FAILURE), s4)"
      using all by auto
    with False show ?thesis unfolding run by simp
  qed
qed

subsection \<open>Progress through a buffer\<close>

text \<open>A branch consumes at least the header of an event, or asks for another read, which it does only
  on the first try.\<close>

definition progresses :: "bool \<Rightarrow> ev_result \<Rightarrow> bool" where
  "progresses firstTry r = (case r of (early, n, fd) \<Rightarrow> 16 \<le> n \<or> n = - 1 \<and> early \<and> firstTry)"

lemma progresses_eq [simp]:
  "progresses b (e, ev_size ev, fd)" "progresses b (e, ev_size ev + ev_size ev', fd)"
  "progresses b (e, INOTIFY_READ_BUF_LEN, fd)" "progresses b (e, - 1, fd) = (e \<and> b)"
  by (simp_all add: progresses_def ev_size_def INOTIFY_READ_BUF_LEN_def)

lemma dispatch_progresses: "yields (progresses firstTry) (dispatch_event et K fd ev rest bufSize firstTry slot)"
proof -
  have rb: "yields (progresses b) (rebuild et K fd)" for b
    unfolding rebuild_def by (intro yield) simp
  have "yields (progresses firstTry) (dir_created et K fd ev slot)"
    "yields (progresses firstTry) (dir_deleted fd ev slot)"
    "yields (progresses firstTry) (dir_moved et K fd ev rest bufSize firstTry slot)"
    "yields (progresses firstTry) (queue_overflow et K fd)"
    "yields (progresses firstTry) (fs_unmounted fd ev slot)"
    "yields (progresses firstTry) (root_moved et K fd ev slot)"
    unfolding dir_created_def dir_deleted_def dir_moved_def queue_overflow_def fs_unmounted_def root_moved_def Let_def
    by (intro yield rb; simp)+
  then show ?thesis unfolding dispatch_event_def by (intro yield) simp_all
qed

lemma next_progress:
  assumes "processNextInotifyEvent et K fd evs bufSize firstTry s = (Inr (n, fd'), s')"
  shows "16 \<le> n \<or> n = - 1 \<and> firstTry"
proof (cases evs)
  case Nil
  with assms show ?thesis by (simp add: processNextInotifyEvent_def)
next
  case (Cons ev rest)
  obtain s1 where s1: "displayInotifyEvent ev s = (Inr (), s1)" by (rule displayed)
  obtain slot s2 where s2: "event_slot K ev s1 = (Inr slot, s2)"
    using assms s1 by (auto simp: Cons processNextInotifyEvent_def elim!: andThen_InrE)
  show ?thesis
  proof (cases "slot = Some (- 1)")
    case True
    with assms s1 s2 show ?thesis
      by (auto simp: Cons processNextInotifyEvent_def INOTIFY_READ_BUF_LEN_def elim!: andThen_InrE)
  next
    case False
    then obtain e m fd2 s3 where s3: "dispatch_event et K fd ev rest bufSize firstTry (map_option nat slot) s2 = (Inr (e, m, fd2), s3)"
      using assms s1 s2 by (auto simp: Cons processNextInotifyEvent_def elim!: andThen_InrE)
    then have "progresses firstTry (e, m, fd2)" by (rule yieldsD[OF dispatch_progresses])
    moreover have "n = m" using assms s1 s2 s3 False
      by (auto simp: Cons processNextInotifyEvent_def elim!: andThen_InrE split: if_splits)
    ultimately show ?thesis by (auto simp: progresses_def)
  qed
qed

lemma length_advance: "length (advance n evs) \<le> length evs"
  by (induction n evs rule: advance.induct) auto

lemma length_advance_Cons: "0 < n \<Longrightarrow> evs \<noteq> [] \<Longrightarrow> length (advance n evs) < length evs"
  by (cases evs) (auto simp: less_Suc_eq_le length_advance)

lemma next_nonempty: "processNextInotifyEvent et K fd evs bufSize firstTry s = (Inr r, s') \<Longrightarrow> evs \<noteq> []"
  by (auto simp: processNextInotifyEvent_def)

text \<open>An interrupted second read brings nothing.\<close>

lemma secondary_read_interrupted:
  assumes "\<And>fd k w. fst (ek_read E fd k w) = Inl EINTR" and "secondary_read et E fd left s = (Inr (new, left'), s')"
  shows "new = [] \<and> left' = left - 1"
proof -
  obtain w where "ek_read E fd (INOTIFY_READ_BUF_LEN - left) (ek_ualarm E 2000 (world s)) = (Inl EINTR, w)"
    using assms(1) by (metis prod.collapse)
  with assms(2) show ?thesis by (auto simp: secondary_read_def syscall_def andThen_run)
qed

lemma event_loop_fuel:
  assumes "\<And>fd k w. fst (ek_read E fd k w) = Inl EINTR" and "2 * length evs + (if firstTry then 2 else 1) \<le> n"
    and "event_loop n et E fd evs left firstTry s = (Inr r, s')"
  shows "r \<noteq> None"
  using assms(2,3)
proof (induction n arbitrary: fd evs left firstTry s)
  case 0
  then show ?case by (auto split: if_splits)
next
  case (Suc n)
  show ?case
  proof (cases "left \<le> 0")
    case True
    with Suc.prems show ?thesis by auto
  next
    case False
    then obtain k fd' s1 where k: "processNextInotifyEvent et (ek_base E) fd evs left firstTry s = (Inr (k, fd'), s1)"
      using Suc.prems(2) by (auto elim!: andThen_InrE)
    show ?thesis
    proof (cases "k > 0")
      case True
      with False k Suc.prems(2) have run: "event_loop n et E fd' (advance k evs) (left - k) True s1 = (Inr r, s')" by simp
      have "length (advance k evs) < length evs" using length_advance_Cons[OF True next_nonempty[OF k]] .
      with Suc.prems(1) have "2 * length (advance k evs) + (if True then 2 else 1) \<le> n" by (auto split: if_splits)
      from Suc.IH[OF this run] show ?thesis .
    next
      case neg: False
      with next_progress[OF k] have "firstTry" by auto
      obtain new left' s2 where s2: "secondary_read et E fd' left s1 = (Inr (new, left'), s2)"
        "event_loop n et E fd' (evs @ new) left' False s2 = (Inr r, s')"
        using False neg k Suc.prems(2) by (auto elim!: andThen_InrE)
      have "new = []" using secondary_read_interrupted[OF assms(1) s2(1)] by simp
      with Suc.prems(1) \<open>firstTry\<close> Suc.IH[OF _ s2(2)] show ?thesis by simp
    qed
  qed
qed

section \<open>Properties\<close>

text \<open>C3: A rename inside the watched trees: when an \<open>IN_MOVED_FROM\<close> event for a directory is followed in
  the buffer by the \<open>IN_MOVED_TO\<close> event with the same cookie, \<open>processNextInotifyEvent\<close> consumes both,
  and the cache then holds the new path for the directory and for everything below it, the same
  descriptors, and nothing else has changed.\<close>
theorem rename_pair_followed:
  assumes "cache_wf (wlCache s)" and "\<not> checkCache s" and "\<not> dumpCache s"
    and "cmap (wlCache s) (ev_wd ev) = Some p" and "cmap (wlCache s) (ev_wd nx) = Some q"
    and "ev_mask ev = IN_MOVED_FROM OR IN_ISDIR" and "has nx IN_MOVED_TO" and "ev_cookie nx = ev_cookie ev"
    and "ev_size ev < bufSize"
    and "length (p @ ''/'' @ ev_name ev) < PATH_MAX" and "length (q @ ''/'' @ ev_name nx) < PATH_MAX"
    and "\<forall>d x. cmap (wlCache s) d = Some x \<and> below (p @ ''/'' @ ev_name ev) x \<longrightarrow>
           length (q @ ''/'' @ ev_name nx) + (length x - length (p @ ''/'' @ ev_name ev)) < PATH_MAX"
  shows "\<exists>s'. processNextInotifyEvent et K fd (ev # nx # rest) bufSize firstTry s = (Inr (ev_size ev + ev_size nx, fd), s')
    \<and> cache_wf (wlCache s') \<and> rootDirPaths s' = rootDirPaths s
    \<and> cmap (wlCache s') = (\<lambda>d. case cmap (wlCache s) d of None \<Rightarrow> None
         | Some x \<Rightarrow> Some (if below (p @ ''/'' @ ev_name ev) x
                          then q @ ''/'' @ ev_name nx @ drop (length (p @ ''/'' @ ev_name ev)) x else x))"
proof -
  note disp = dispatch_moved[OF assms(6)]
  obtain j s1 where s1: "core s1 = core s" "j < length (wlCache s1)" "path (wlCache s1 ! j) = p"
    and run: "\<And>r n fd' s2. dispatch_event et K fd ev (nx # rest) bufSize firstTry (Some j) s1 = (Inr (r, n, fd'), s2) \<Longrightarrow>
           checkCache s2 = checkCache s1 \<Longrightarrow> dumpCache s2 = dumpCache s1 \<Longrightarrow>
           processNextInotifyEvent et K fd (ev # nx # rest) bufSize firstTry s = (Inr (n, fd'), s2)"
    using next_event_dispatch[OF assms(1,4) disp(2) assms(2,3), where et = et and K = K and fd = fd and rest = "nx # rest"
        and bufSize = bufSize and firstTry = firstTry] by metis
  note sel = core_sel[OF s1(1)]
  note eff = rewriteCachedPaths_effect[of s1 p "ev_name ev" q "ev_name nx", unfolded sel(1), OF assms(1,10,11,12)]
  obtain s' where s': "rewriteCachedPaths p (ev_name ev) q (ev_name nx) s1 = (Inr (), s')" "cache_wf (wlCache s')" "frame s' = frame s1"
    "cmap (wlCache s') = (\<lambda>d. case cmap (wlCache s) d of None \<Rightarrow> None
         | Some x \<Rightarrow> Some (if below (p @ ''/'' @ ev_name ev) x
                          then q @ ''/'' @ ev_name nx @ drop (length (p @ ''/'' @ ev_name ev)) x else x))"
    using eff by blast
  have "dir_moved et K fd ev (nx # rest) bufSize firstTry (Some j) s1 = (Inr (False, ev_size ev + ev_size nx, fd), s')"
    by (rule dir_moved_pair) (use assms s1 s' sel in simp_all)
  then have "processNextInotifyEvent et K fd (ev # nx # rest) bufSize firstTry s = (Inr (ev_size ev + ev_size nx, fd), s')"
    unfolding disp(1)[symmetric] by (rule run) (rule frame_flags[OF s'(3)])+
  with s' sel(2) show ?thesis by (auto simp: frame_def)
qed

theorem rename_pair_followed_witness:
  "\<exists>s'. processNextInotifyEvent \<lparr>ename = [], strerror = (\<lambda>_. [])\<rparr> demo_dkernel 4
      [\<lparr>ev_wd = 1, ev_mask = 0x40000040, ev_cookie = 7, ev_len = 16, ev_name = ''a''\<rparr>,
       \<lparr>ev_wd = 2, ev_mask = 0x40000080, ev_cookie = 7, ev_len = 16, ev_name = ''b''\<rparr>] 64 True
      (demo_state [\<lparr>wd = 1, path = ''/r''\<rparr>, \<lparr>wd = 2, path = ''/r/z''\<rparr>, \<lparr>wd = 3, path = ''/r/a''\<rparr>] [] []) = (Inr (64, 4), s')
    \<and> cmap (wlCache s') 3 = Some ''/r/z/b'' \<and> cmap (wlCache s') 2 = Some ''/r/z''"
proof -
  let ?c = "[\<lparr>wd = 1, path = ''/r''\<rparr>, \<lparr>wd = 2, path = ''/r/z''\<rparr>, \<lparr>wd = 3, path = ''/r/a''\<rparr>] :: watch list"
  let ?ev = "\<lparr>ev_wd = 1, ev_mask = 0x40000040, ev_cookie = 7, ev_len = 16, ev_name = ''a''\<rparr>"
  let ?nx = "\<lparr>ev_wd = 2, ev_mask = 0x40000080, ev_cookie = 7, ev_len = 16, ev_name = ''b''\<rparr>"
  have c: "wlCache (demo_state ?c [] []) = ?c" "\<not> checkCache (demo_state ?c [] [])" "\<not> dumpCache (demo_state ?c [] [])"
    by (simp_all add: demo_state_def)
  have wf: "cache_wf ?c" by (simp add: cache_wf_def slot_wf_def All_less_Suc)
  have cm: "cmap ?c 1 = Some ''/r''" "cmap ?c 2 = Some ''/r/z''" "cmap ?c 3 = Some ''/r/a''"
    by (simp_all add: cmap_def findWatch_def)
  have fit: "length x < 10" if "cmap ?c d = Some x" for d x
    using that unfolding cmap_Some[OF wf] by auto
  have b: "below (''/r'' @ ''/'' @ ''a'') ''/r/a''" "\<not> below (''/r'' @ ''/'' @ ''a'') ''/r/z''"
    by (simp_all add: below_def strncmp_eq_def cchar_at_def)
  have "\<forall>d x. cmap ?c d = Some x \<and> below (''/r'' @ ''/'' @ ''a'') x \<longrightarrow>
      length (''/r/z'' @ ''/'' @ ''b'') + (length x - length (''/r'' @ ''/'' @ ''a'')) < PATH_MAX"
    using fit by fastforce
  then have "\<exists>s'. processNextInotifyEvent \<lparr>ename = [], strerror = (\<lambda>_. [])\<rparr> demo_dkernel 4 [?ev, ?nx] 64 True
        (demo_state ?c [] []) = (Inr (ev_size ?ev + ev_size ?nx, 4), s')
      \<and> cache_wf (wlCache s') \<and> rootDirPaths s' = rootDirPaths (demo_state ?c [] [])
      \<and> cmap (wlCache s') = (\<lambda>d. case cmap ?c d of None \<Rightarrow> None
         | Some x \<Rightarrow> Some (if below (''/r'' @ ''/'' @ ev_name ?ev) x
                          then ''/r/z'' @ ''/'' @ ev_name ?nx @ drop (length (''/r'' @ ''/'' @ ev_name ?ev)) x else x))"
    using rename_pair_followed[of "demo_state ?c [] []" ?ev "''/r''" ?nx "''/r/z''" 64, unfolded c(1), OF wf c(2,3)] cm
    by (simp add: has_def ev_size_def)
  with cm b show ?thesis by (auto simp: ev_size_def)
qed

text \<open>C4: A directory leaves the watched trees: an \<open>IN_MOVED_FROM\<close> event that is the last one of the buffer
  makes the function ask for another read once, with the cache untouched; when it is seen for the
  second time, or when the event after it is not its partner, it is consumed, and the cache forgets
  the directory and everything below it, and only that.\<close>
theorem moved_out_forgotten:
  assumes "cache_wf (wlCache s)" and "\<not> checkCache s" and "\<not> dumpCache s"
    and "cmap (wlCache s) (ev_wd ev) = Some p" and "ev_mask ev = IN_MOVED_FROM OR IN_ISDIR"
    and "length (p @ ''/'' @ ev_name ev) < PATH_MAX + NAME_MAX"
    and "\<forall>w n. dk_alloc_ok K w n" and "\<forall>d w. \<not> isl (fst (dk_rm_watch K fd d w))"
  shows "(\<exists>s'. processNextInotifyEvent et K fd [ev] (ev_size ev) True s = (Inr (- 1, fd), s')
      \<and> wlCache s' = wlCache s \<and> rootDirPaths s' = rootDirPaths s)
    \<and> (bufSize \<le> ev_size ev \<and> \<not> firstTry
        \<or> ev_size ev < bufSize \<and> rest \<noteq> [] \<and> \<not> (has (hd rest) IN_MOVED_TO \<and> ev_cookie (hd rest) = ev_cookie ev) \<longrightarrow>
      (\<exists>s'. processNextInotifyEvent et K fd (ev # rest) bufSize firstTry s = (Inr (ev_size ev, fd), s')
      \<and> cache_wf (wlCache s') \<and> rootDirPaths s' = rootDirPaths s
      \<and> cmap (wlCache s') = (\<lambda>d. case cmap (wlCache s) d of None \<Rightarrow> None
           | Some x \<Rightarrow> if below (p @ ''/'' @ ev_name ev) x then None else Some x)))"
proof (intro conjI impI)
  note disp = dispatch_moved[OF assms(5)]
  note nxt = next_event_dispatch[OF assms(1,4) disp(2) assms(2,3), where et = et and K = K and fd = fd]
  show "\<exists>s'. processNextInotifyEvent et K fd [ev] (ev_size ev) True s = (Inr (- 1, fd), s')
      \<and> wlCache s' = wlCache s \<and> rootDirPaths s' = rootDirPaths s"
  proof (rule nxt[where rest = "[]" and bufSize = "ev_size ev" and firstTry = True])
    fix j s1 assume s1: "core s1 = core s" "j < length (wlCache s1)" "path (wlCache s1 ! j) = p"
      and run: "\<And>r n fd' s2. dispatch_event et K fd ev [] (ev_size ev) True (Some j) s1 = (Inr (r, n, fd'), s2) \<Longrightarrow>
           checkCache s2 = checkCache s1 \<Longrightarrow> dumpCache s2 = dumpCache s1 \<Longrightarrow>
           processNextInotifyEvent et K fd [ev] (ev_size ev) True s = (Inr (n, fd'), s2)"
    have "processNextInotifyEvent et K fd [ev] (ev_size ev) True s = (Inr (- 1, fd), logged VB_NOISY ''HANGING IN_MOVED_FROM\<newline>'' [] s1)"
      by (rule run[where r = True]) (simp_all add: disp(1) dir_moved_def)
    with core_sel[OF s1(1)] show ?thesis by (auto simp: frame_def)
  qed
  assume lone: "bufSize \<le> ev_size ev \<and> \<not> firstTry
        \<or> ev_size ev < bufSize \<and> rest \<noteq> [] \<and> \<not> (has (hd rest) IN_MOVED_TO \<and> ev_cookie (hd rest) = ev_cookie ev)"
  let ?p = "p @ ''/'' @ ev_name ev"
  show "\<exists>s'. processNextInotifyEvent et K fd (ev # rest) bufSize firstTry s = (Inr (ev_size ev, fd), s')
      \<and> cache_wf (wlCache s') \<and> rootDirPaths s' = rootDirPaths s
      \<and> cmap (wlCache s') = (\<lambda>d. case cmap (wlCache s) d of None \<Rightarrow> None | Some x \<Rightarrow> if below ?p x then None else Some x)"
  proof (rule nxt[where rest = rest and bufSize = bufSize and firstTry = firstTry])
    fix j s1 assume s1: "core s1 = core s" "j < length (wlCache s1)" "path (wlCache s1 ! j) = p"
      and run: "\<And>r n fd' s2. dispatch_event et K fd ev rest bufSize firstTry (Some j) s1 = (Inr (r, n, fd'), s2) \<Longrightarrow>
           checkCache s2 = checkCache s1 \<Longrightarrow> dumpCache s2 = dumpCache s1 \<Longrightarrow>
           processNextInotifyEvent et K fd (ev # rest) bufSize firstTry s = (Inr (n, fd'), s2)"
    note sel = core_sel[OF s1(1)]
    have buf: "snprintf_buf (PATH_MAX + NAME_MAX) (path (wlCache s1 ! j) @ ''/'' @ ev_name ev) = ?p"
      unfolding s1(3) using assms(6) by simp
    obtain s' where s': "dir_moved et K fd ev rest bufSize firstTry (Some j) s1 = (Inr (False, ev_size ev, fd), s')"
      "frame s' = frame s1" "wlCache s' = map (zapped ?p) (wlCache s1)"
      using dir_moved_lone[OF s1(2), of bufSize ev rest firstTry K fd et, unfolded buf] lone assms(7,8) by auto
    have "processNextInotifyEvent et K fd (ev # rest) bufSize firstTry s = (Inr (ev_size ev, fd), s')"
      by (rule run[OF _ frame_flags[OF s'(2)]]) (unfold disp(1), rule s'(1))
    moreover have "cache_wf (wlCache s')" using cache_wf_zapped[OF assms(1), of ?p "length (wlCache s)"] s'(3) sel(1) by simp
    moreover have "rootDirPaths s' = rootDirPaths s" using s'(2) sel(2) by (simp add: frame_def)
    moreover have "cmap (wlCache s') = (\<lambda>d. case cmap (wlCache s) d of None \<Rightarrow> None | Some x \<Rightarrow> if below ?p x then None else Some x)"
      unfolding s'(3) sel(1) by (rule cmap_zapped[OF assms(1)])
    ultimately show ?thesis by (intro exI[of _ s'] conjI)
  qed
qed

theorem moved_out_forgotten_witness:
  "\<exists>s'. processNextInotifyEvent \<lparr>ename = [], strerror = (\<lambda>_. [])\<rparr> demo_dkernel 4
      [\<lparr>ev_wd = 1, ev_mask = 0x40000040, ev_cookie = 7, ev_len = 16, ev_name = ''a''\<rparr>] 31 False
      (demo_state [\<lparr>wd = 1, path = ''/r''\<rparr>, \<lparr>wd = 3, path = ''/r/a''\<rparr>] [] []) = (Inr (32, 4), s')
    \<and> cmap (wlCache s') 3 = None \<and> cmap (wlCache s') 1 = Some ''/r''"
proof -
  let ?c = "[\<lparr>wd = 1, path = ''/r''\<rparr>, \<lparr>wd = 3, path = ''/r/a''\<rparr>] :: watch list"
  let ?ev = "\<lparr>ev_wd = 1, ev_mask = 0x40000040, ev_cookie = 7, ev_len = 16, ev_name = ''a''\<rparr>"
  have c: "wlCache (demo_state ?c [] []) = ?c" "\<not> checkCache (demo_state ?c [] [])" "\<not> dumpCache (demo_state ?c [] [])"
    by (simp_all add: demo_state_def)
  have wf: "cache_wf ?c" by (simp add: cache_wf_def slot_wf_def All_less_Suc)
  have cm: "cmap ?c 1 = Some ''/r''" "cmap ?c 3 = Some ''/r/a''" by (simp_all add: cmap_def findWatch_def)
  have b: "below (''/r'' @ ''/'' @ ''a'') ''/r/a''" "\<not> below (''/r'' @ ''/'' @ ''a'') ''/r''"
    by (simp_all add: below_def strncmp_eq_def cchar_at_def)
  have K: "\<forall>w n. dk_alloc_ok demo_dkernel w n" "\<forall>d w. \<not> isl (fst (dk_rm_watch demo_dkernel 4 d w))"
    by (simp_all add: demo_dkernel_def)
  show ?thesis
    using moved_out_forgotten[of "demo_state ?c [] []" ?ev "''/r''" demo_dkernel 4, unfolded c(1), OF wf c(2,3) _ _ _ K,
        of "\<lparr>ename = [], strerror = (\<lambda>_. [])\<rparr>" 31 False "[]"] cm b
    by (auto simp: ev_size_def)
qed

text \<open>C7: When the monitor loses track it starts afresh. On an event for a descriptor that is not in the
  cache, or an overflow of the queue, \<open>processNextInotifyEvent\<close> closes the inotify descriptor, opens a new
  one, walks every root that is still monitored, and returns the new descriptor after discarding the
  whole buffer: the cache then holds exactly the descriptors granted for the directories visited, nothing
  of the old one. (This is with memory available; directories may vanish meanwhile, another failure ends
  the monitor.) With \<open>abortOnCacheProblem\<close> an unknown descriptor ends the process instead.\<close>
theorem lost_track_rebuilds:
  assumes "sane_watches K" and "\<forall>w n. dk_alloc_ok K w n" and "\<not> checkCache s" and "\<not> dumpCache s"
    and lost: "ev_wd ev \<noteq> - 1 \<and> \<not> has ev IN_IGNORED \<and> findWatch (ev_wd ev) (wlCache s) < 0
       \<or> ev_wd ev = - 1 \<and> ev_mask ev = IN_Q_OVERFLOW"
    and fd: "0 \<le> fd" and close: "dk_close K fd (world s) = (c, w1)" and init: "dk_inotify_init K w1 = (Inr fd', w2)"
    and calls: "root_calls K fd' (rootDirPaths s) (rootDirPaths s) w2 = (l, w3)"
  shows "if ev_wd ev \<noteq> - 1 \<and> abortOnCacheProblem s
    then fst (processNextInotifyEvent et K fd (ev # rest) bufSize firstTry s) \<in> {Inl Abort, Inl Undefined}
    else if only_vanished l
    then \<exists>s'. processNextInotifyEvent et K fd (ev # rest) bufSize firstTry s = (Inr (INOTIFY_READ_BUF_LEN, fd'), s')
       \<and> world s' = w3 \<and> rootDirPaths s' = rootDirPaths s \<and> cache_wf (wlCache s') \<and> cmap (wlCache s') = map_of (granted l)
    else \<exists>s'. processNextInotifyEvent et K fd (ev # rest) bufSize firstTry s = (Inl (Exit EXIT_FAILURE), s')"
proof -
  obtain s1 where s1: "displayInotifyEvent ev s = (Inr (), s1)" "core s1 = core s" by (rule displayed)
  note sel = core_sel[OF s1(2)]
  have ab: "abortOnCacheProblem s1 = abortOnCacheProblem s" and w: "world s1 = world s" using s1(2) by (simp_all add: core_def)
  let ?run = "processNextInotifyEvent et K fd (ev # rest) bufSize firstTry s"
  show ?thesis
  proof (cases "ev_wd ev \<noteq> - 1 \<and> abortOnCacheProblem s")
    case True
    then have nf: "findWatchChecked K (ev_wd ev) s1
        = createStopFileAndAbort K (logged 0 ''Could not find watch %d\<newline>'' [FInt (ev_wd ev)] s1)"
      using lost sel(1) ab by (auto simp: findWatchChecked_def)
    have "event_slot K ev s1 = andThen (createStopFileAndAbort K) (\<lambda>slot. ret (Some slot))
        (logged 0 ''Could not find watch %d\<newline>'' [FInt (ev_wd ev)] s1)"
      using True lost nf by (auto simp: event_slot_def andThen_run)
    moreover obtain h s2 where "createStopFileAndAbort K (logged 0 ''Could not find watch %d\<newline>'' [FInt (ev_wd ev)] s1)
        = ((Inl h :: halt + int), s2)" "h \<in> {Abort, Undefined}"
      by (rule stop_endsE)
    ultimately have "event_slot K ev s1 = (Inl h, s2)" "h \<in> {Abort, Undefined}" by simp_all
    with True s1(1) show ?thesis by (auto simp: processNextInotifyEvent_def)
  next
    case False
    obtain t b where t: "frame t = frame s" "world t = world s"
      and run: "?run = andThen (reinitialize et K fd) (\<lambda>fd'.
        if b then ret (INOTIFY_READ_BUF_LEN, fd')
        else andThen (query checkCache) (\<lambda>chk.
        andThen (if chk then checkCacheConsistency et K else ret ()) (\<lambda>_.
        andThen (query dumpCache) (\<lambda>dmp.
        andThen (if dmp then dumpCacheToLog else ret ()) (\<lambda>_.
        ret (INOTIFY_READ_BUF_LEN, fd')))))) t"
    proof (cases "ev_wd ev = - 1")
      case True
      let ?t = "logged 0 ''Queue overflow (%d) (inotifyReadCnt = %d)\<newline>''
        [FInt (int (Suc (overflowCnt s1))), FInt (int (inotifyReadCnt s1))] (s1\<lparr>overflowCnt := Suc (overflowCnt s1)\<rparr>)"
      have "ev_mask ev = IN_Q_OVERFLOW" using lost True by simp
      then have "dispatch_event et K fd ev rest bufSize firstTry None s1
          = andThen (reinitialize et K fd) (\<lambda>fd'. ret (False, INOTIFY_READ_BUF_LEN, fd')) ?t"
        by (simp add: dispatch_event_def has_def queue_overflow_def)
      then have "?run = andThen (reinitialize et K fd) (\<lambda>fd'.
        if False then ret (INOTIFY_READ_BUF_LEN, fd')
        else andThen (query checkCache) (\<lambda>chk.
        andThen (if chk then checkCacheConsistency et K else ret ()) (\<lambda>_.
        andThen (query dumpCache) (\<lambda>dmp.
        andThen (if dmp then dumpCacheToLog else ret ()) (\<lambda>_.
        ret (INOTIFY_READ_BUF_LEN, fd')))))) ?t"
        using s1(1) True by (simp add: processNextInotifyEvent_def event_slot_def andThen_run split: prod.split sum.split)
      then show thesis using sel(2) w by (intro that[of ?t False]) (simp_all add: frame_def)
    next
      case neq: False
      let ?t = "logged 0 ''Could not find watch %d\<newline>'' [FInt (ev_wd ev)] s1"
      have "event_slot K ev s1 = (Inr (Some (- 1)), ?t)"
        using neq False lost sel(1) ab by (auto simp: event_slot_def findWatchChecked_def)
      then have "?run = andThen (reinitialize et K fd) (\<lambda>fd'. ret (INOTIFY_READ_BUF_LEN, fd')) ?t"
        using s1(1) by (simp add: processNextInotifyEvent_def)
      then show thesis using sel(2) w by (intro that[of ?t True]) (simp_all add: frame_def)
    qed
    have roots: "rootDirPaths t = rootDirPaths s" using t(1) by (simp add: frame_def)
    note re = reinitialize_exact[OF assms(1,2) fd close[folded t(2)] init calls[folded roots], of et]
    show ?thesis
    proof (cases "only_vanished l")
      case True
      with re obtain s2 where s2: "reinitialize et K fd t = (Inr fd', s2)" "world s2 = w3" "frame s2 = frame s"
        "cache_wf (wlCache s2)" "cmap (wlCache s2) = map_of (granted l)" using t(1) by auto
      have "\<not> checkCache s2" "\<not> dumpCache s2" "rootDirPaths s2 = rootDirPaths s" using s2(3) assms(3,4) by (simp_all add: frame_def)
      moreover from this s2(1) have "?run = (Inr (INOTIFY_READ_BUF_LEN, fd'), s2)" unfolding run by simp
      ultimately show ?thesis using False True s2 by auto
    next
      case bad: False
      with re obtain s2 where "reinitialize et K fd t = (Inl (Exit EXIT_FAILURE), s2)" by auto
      then have "?run = (Inl (Exit EXIT_FAILURE), s2)" unfolding run by simp
      with bad False show ?thesis by auto
    qed
  qed
qed

theorem lost_track_rebuilds_witness:
  "\<exists>s'. processNextInotifyEvent no_texts watching_kernel 4
      [\<lparr>ev_wd = 9, ev_mask = 0x100, ev_cookie = 0, ev_len = 16, ev_name = ''f''\<rparr>] 32 True
      (demo_state [\<lparr>wd = 1, path = ''/q''\<rparr>] [Some ''/r'', None, Some ''/s''] [''/r'', ''/r/a'', ''/s'', ''/q''])
        = (Inr (INOTIFY_READ_BUF_LEN, 4), s')
    \<and> cmap (wlCache s') = [10 \<mapsto> ''/r'', 11 \<mapsto> ''/r/a'', 12 \<mapsto> ''/s'']"
proof -
  let ?ev = "\<lparr>ev_wd = 9, ev_mask = 0x100, ev_cookie = 0, ev_len = 16, ev_name = ''f''\<rparr> :: inotify_event"
  let ?dirs = "[''/r'', ''/r/a'', ''/s'', ''/q'']"
  let ?roots = "[Some ''/r'', None, Some ''/s'']"
  let ?s = "demo_state [\<lparr>wd = 1, path = ''/q''\<rparr>] ?roots ?dirs"
  have s: "\<not> checkCache ?s" "\<not> dumpCache ?s" "\<not> abortOnCacheProblem ?s"
    "ev_wd ?ev \<noteq> - 1 \<and> \<not> has ?ev IN_IGNORED \<and> findWatch (ev_wd ?ev) (wlCache ?s) < 0
       \<or> ev_wd ?ev = - 1 \<and> ev_mask ?ev = IN_Q_OVERFLOW"
    by (simp_all add: demo_state_def findWatch_def has_def)
  have K: "dk_close watching_kernel 4 (world ?s) = (Inr (), (?dirs, 10))" "dk_inotify_init watching_kernel w = (Inr 4, w)"
    "\<forall>w n. dk_alloc_ok watching_kernel w n" for w
    by (simp_all add: watching_kernel_def demo_dkernel_def demo_state_def)
  have calls: "root_calls watching_kernel 4 (rootDirPaths ?s) (rootDirPaths ?s) (?dirs, 10)
      = ([(''/r'', Inr 10), (''/r/a'', Inr 11), (''/s'', Inr 12)], (?dirs, 13))"
    by (simp add: demo_state_def watching_kernel_def demo_dkernel_def in_subtree_def cchar_at_def)
  show ?thesis
    using lost_track_rebuilds[OF watching_kernel_sane(1) K(3) s(1,2,4) _ K(1,2) calls, of no_texts "[]" 32 True] s(3)
    by (auto simp: fun_upd_twist)
qed

text \<open>C8: The loop over a buffer of events makes progress: with any kernel, a call of
  \<open>processNextInotifyEvent\<close> that returns has consumed at least the 16 bytes of an event header, or it
  asks for another read, and then only on the first try. So when the second reads are interrupted by
  their timer, the loop ends after at most two rounds per event, whatever the events are.\<close>
theorem event_loop_ends:
  assumes "\<forall>fd k w. fst (ek_read E fd k w) = Inl EINTR"
  shows "fst (event_loop (2 * length evs + 2) et E fd evs left True s) \<noteq> Inr None
    \<and> (\<forall>fd evs bufSize firstTry s n fd' s'.
         processNextInotifyEvent et (ek_base E) fd evs bufSize firstTry s = (Inr (n, fd'), s') \<longrightarrow>
         16 \<le> n \<or> n = - 1 \<and> firstTry)"
proof (intro conjI allI impI)
  obtain r s' where run: "event_loop (2 * length evs + 2) et E fd evs left True s = (r, s')" by fastforce
  show "fst (event_loop (2 * length evs + 2) et E fd evs left True s) \<noteq> Inr None"
  proof (cases r)
    case (Inr x)
    have "x \<noteq> None" by (rule event_loop_fuel[OF _ _ run[unfolded Inr]]) (use assms in simp_all)
    with run Inr show ?thesis by simp
  qed (use run in simp)
qed (rule next_progress)

theorem event_loop_ends_witness:
  "\<exists>E :: demo_fs ekernel. \<exists>s. (\<forall>fd k w. fst (ek_read E fd k w) = Inl EINTR)
     \<and> fst (event_loop 4 \<lparr>ename = [], strerror = (\<lambda>_. [])\<rparr> E 4
           [\<lparr>ev_wd = 1, ev_mask = 0x40000040, ev_cookie = 7, ev_len = 16, ev_name = ''a''\<rparr>] 32 True s) \<noteq> Inr None"
proof -
  let ?E = "\<lparr>ek_base = demo_dkernel, ek_read = (\<lambda>fd k w. (Inl EINTR, w)), ek_sigaction = (\<lambda>w. (Inr (), w)),
      ek_ualarm = (\<lambda>n w. w)\<rparr> :: demo_fs ekernel"
  have "\<forall>fd k w. fst (ek_read ?E fd k w) = Inl EINTR" by simp
  from event_loop_ends[OF this, where evs = "[\<lparr>ev_wd = 1, ev_mask = 0x40000040, ev_cookie = 7, ev_len = 16, ev_name = ''a''\<rparr>]"
      and left = 32 and fd = 4 and et = "\<lparr>ename = [], strerror = (\<lambda>_. [])\<rparr>" and s = "demo_state [\<lparr>wd = 1, path = ''/r''\<rparr>] [] []"]
  show ?thesis by (intro exI[of _ ?E] exI[of _ "demo_state [\<lparr>wd = 1, path = ''/r''\<rparr>] [] []"]) simp
qed
end
