(* ===== verification/Dtree_Commands.thy ===== *)
theory Dtree_Commands
  imports Dtree_Events Num_Args
begin

text \<open>
  \<open>inotify/inotify_dtree.c\<close>, last part: the interactive commands, the command line and the main loop.

  \<open>sscanf\<close> leaves \<open>arg\<close> unset when a command comes without an argument, \<open>None\<close> here; a command that
  uses it then has undefined behaviour. The main loop never ends by itself: one round of it is a
  program of its own, and the states at the head of the loop are those reachable by such rounds.
\<close>

section \<open>Commands\<close>

record 'w ckernel =
  ck_events :: "'w ekernel"
  ck_fopen :: "string \<Rightarrow> ('w, int) kcall"
  ck_fclose :: "int \<Rightarrow> message list \<Rightarrow> 'w \<Rightarrow> 'w"
  ck_read_stdin :: "nat \<Rightarrow> ('w, string) kcall"
  ck_select :: "int list \<Rightarrow> ('w, int list) kcall"

abbreviation (input) ck_base :: "'w ckernel \<Rightarrow> 'w dkernel" where "ck_base M \<equiv> ek_base (ck_events M)"

definition displayCommandList :: "('w dtree, unit) program" where
  "displayCommandList = forEach
     [''Commands:\<newline>'',
      ''0        Rebuild cache\<newline>'',
      ''a path   Add/refresh pathname watches and cache\<newline>'',
      ''c        Verify cached pathnames\<newline>'',
      ''d        Toggle cache dumping\<newline>'',
      ''l        List cached pathnames\<newline>'',
      ''q        Quit\<newline>'',
      ''v [n]    Toggle/set verbose level for messages to stderr\<newline>'',
      ''             0 = no messages\<newline>'',
      ''             1 = basic messages\<newline>'',
      ''             2 = verbose messages\<newline>'',
      ''             3 = basic and verbose messages\<newline>'',
      ''w file   Write directory list to file\<newline>'',
      ''x        Toggle cache checking\<newline>'',
      ''z path   Zap pathname and watches from cache\<newline>''] (\<lambda>l. printf l [])"

fun verify_loop ::
  "err_texts \<Rightarrow> 'w dkernel \<Rightarrow> char \<Rightarrow> nat \<Rightarrow> watch list \<Rightarrow> nat \<Rightarrow> nat \<Rightarrow> ('w dtree, nat \<times> nat) program" where
  "verify_loop et K cmd j [] cnt failures = ret (cnt, failures)"
| "verify_loop et K cmd j (e # es) cnt failures =
     (if wd e \<ge> 0
      then
        andThen (syscall (dk_lstat K (path e))) (\<lambda>r. case r of
          None \<Rightarrow>
            andThen (query p_errno) (\<lambda>err.
            andThen (if cmd = CHR ''c''
                     then logMessage VB_BASIC ''stat: [slot = %d; wd = %d] %s: %s\<newline>''
                            [FInt (int j), FInt (wd e), FStr (path e), FStr (strerror et (errnum err))]
                     else ret ()) (\<lambda>_.
            verify_loop et K cmd (Suc j) es cnt (Suc failures)))
        | Some sb \<Rightarrow>
            if \<not> is_dir sb
            then
              andThen (if cmd = CHR ''c'' then logMessage 0 ''%s is not a directory\<newline>'' [FStr (path e)] else ret ())
                (\<lambda>_. exit_process EXIT_FAILURE)
            else
              andThen (if cmd = CHR ''c''
                       then logMessage VB_NOISY ''OK: [slot = %d; wd = %d] %s\<newline>'' [FInt (int j), FInt (wd e), FStr (path e)]
                       else ret ()) (\<lambda>_.
              verify_loop et K cmd (Suc j) es (Suc cnt) failures))
      else verify_loop et K cmd (Suc j) es cnt failures)"

definition checkAllCachedPathnamesExist :: "err_texts \<Rightarrow> 'w dkernel \<Rightarrow> char \<Rightarrow> ('w dtree, unit) program" where
  "checkAllCachedPathnamesExist et K cmd =
     andThen (query wlCache) (\<lambda>c.
     andThen (verify_loop et K cmd 0 c 0 0) (\<lambda>(cnt, failures).
     andThen (logMessage 0 ''Successfully verified %d entries\<newline>'' [FInt (int cnt)]) (\<lambda>_.
     logMessage 0 ''Failures: %d\<newline>'' [FInt (int failures)])))"

text \<open>\<open>sscanf(line, "%c %s\n", &cmd, arg)\<close> on a line that is not empty.\<close>

definition scan_command :: "string \<Rightarrow> char \<times> string option" where
  "scan_command line =
     (let rest = dropWhile isspace (tl line) in
      (hd line, if rest = [] then None else Some (takeWhile (\<lambda>c. \<not> isspace c) rest)))"

definition with_arg :: "string option \<Rightarrow> (string \<Rightarrow> ('s, 'a) program) \<Rightarrow> ('s, 'a) program" where
  "with_arg arg f = (case arg of None \<Rightarrow> halts Undefined | Some a \<Rightarrow> f a)"

definition command_add :: "err_texts \<Rightarrow> 'w dkernel \<Rightarrow> int \<Rightarrow> string \<Rightarrow> ('w dtree, unit) program" where
  "command_add et K fd arg =
     andThen (zapSubtree et K fd arg) (\<lambda>cnt.
     andThen (if cnt = 0 then logMessage VB_BASIC ''Adding new subtree: %s\<newline>'' [FStr arg]
              else logMessage VB_BASIC ''Zapped: %s, %d entries\<newline>'' [FStr arg, FInt cnt]) (\<lambda>_.
     watchSubtree et K fd arg))"

fun list_loop :: "nat \<Rightarrow> watch list \<Rightarrow> nat \<Rightarrow> ('w dtree, nat) program" where
  "list_loop j [] cnt = ret cnt"
| "list_loop j (e # es) cnt =
     (if wd e \<ge> 0
      then andThen (logMessage 0 ''%d: %d %s\<newline>'' [FInt (int j), FInt (wd e), FStr (path e)])
             (\<lambda>_. list_loop (Suc j) es (Suc cnt))
      else list_loop (Suc j) es cnt)"

definition command_list :: "('w dtree, unit) program" where
  "command_list =
     andThen (query wlCache) (\<lambda>c.
     andThen (list_loop 0 c 0) (\<lambda>cnt.
     logMessage VB_BASIC ''Total entries: %d\<newline>'' [FInt (int cnt)]))"

definition on_off :: "bool \<Rightarrow> ('w dtree, unit) program" where
  "on_off b = printf ''%s\<newline>'' [FStr (if b then ''on'' else ''off'')]"

definition command_verbose :: "string option \<Rightarrow> ('w dtree, unit) program" where
  "command_verbose arg = (case arg of
     Some a \<Rightarrow> modify (\<lambda>s. s\<lparr>verboseMask := atoi a\<rparr>)
   | None \<Rightarrow>
       andThen (modify (\<lambda>s. s\<lparr>verboseMask := (if verboseMask s = 0 then 1 else 0)\<rparr>)) (\<lambda>_.
       andThen (query (\<lambda>s. verboseMask s \<noteq> 0)) on_off))"

text \<open>\<open>fclose(NULL)\<close> is undefined.\<close>

definition command_write :: "err_texts \<Rightarrow> 'w ckernel \<Rightarrow> string \<Rightarrow> ('w dtree, unit) program" where
  "command_write et M arg =
     andThen (syscall (ck_fopen M arg)) (\<lambda>r. case r of
       None \<Rightarrow> andThen (perror et ''fopen'') (\<lambda>_. halts Undefined)
     | Some fp \<Rightarrow>
         modify (\<lambda>s. s\<lparr>world := ck_fclose M fp
           (map (\<lambda>e. (''%s\<newline>'', [FStr (path e)])) (filter (\<lambda>e. wd e \<ge> 0) (wlCache s))) (world s)\<rparr>))"

definition run_command ::
  "err_texts \<Rightarrow> 'w ckernel \<Rightarrow> int \<Rightarrow> char \<Rightarrow> string option \<Rightarrow> ('w dtree, int) program" where
  "run_command et M fd cmd arg =
     (let stay = (\<lambda>m. andThen m (\<lambda>_. ret fd)) in
      if cmd = CHR ''a'' then stay (with_arg arg (command_add et (ck_base M) fd))
      else if cmd = CHR ''c'' \<or> cmd = CHR ''C'' then stay (checkAllCachedPathnamesExist et (ck_base M) cmd)
      else if cmd = CHR ''l'' then stay command_list
      else if cmd = CHR ''q'' then exit_process EXIT_SUCCESS
      else if cmd = CHR ''v'' then stay (command_verbose arg)
      else if cmd = CHR ''d''
      then stay (andThen (modify (\<lambda>s. s\<lparr>dumpCache := \<not> dumpCache s\<rparr>)) (\<lambda>_. andThen (query dumpCache) on_off))
      else if cmd = CHR ''x''
      then stay (andThen (modify (\<lambda>s. s\<lparr>checkCache := \<not> checkCache s\<rparr>)) (\<lambda>_. andThen (query checkCache) on_off))
      else if cmd = CHR ''w'' then stay (with_arg arg (command_write et M))
      else if cmd = CHR ''z''
      then stay (with_arg arg (\<lambda>a. andThen (zapSubtree et (ck_base M) fd a) (\<lambda>cnt.
             logMessage VB_BASIC ''Zapped: %s, %d entries\<newline>'' [FStr a, FInt cnt])))
      else if cmd = CHR ''0''
      then andThen (syscall (dk_close (ck_base M) fd)) (\<lambda>_. reinitialize et (ck_base M) (- 1))
      else stay (andThen (printf ''Unrecognized command: %c\<newline>'' [FStr [cmd]]) (\<lambda>_. displayCommandList)))"

definition MAX_LINE :: nat where "MAX_LINE = 100"

definition executeCommand :: "err_texts \<Rightarrow> 'w ckernel \<Rightarrow> int \<Rightarrow> ('w dtree, int) program" where
  "executeCommand et M fd =
     andThen (syscall (ck_read_stdin M MAX_LINE)) (\<lambda>r.
     if r = None \<or> r = Some []
     then andThen (printf ''bye!\<newline>'' []) (\<lambda>_. exit_process EXIT_FAILURE)
     else
       let line = takeWhile (\<lambda>c. c \<noteq> NUL) (butlast (the r)) in
       if line = [] then ret fd
       else case scan_command line of (cmd, arg) \<Rightarrow> run_command et M fd cmd arg)"

section \<open>The command line\<close>

definition usageError_dtree :: "string \<Rightarrow> ('w dtree, 'a) program" where
  "usageError_dtree pname =
     andThen (seqs [
       eprintf ''Usage: %s [options] directory-path...\<newline>\<newline>'' [FStr pname],
       eprintf ''    -v lvl   Display logging information\<newline>'' [],
       eprintf ''    -l file  Send logging information to a file\<newline>'' [],
       eprintf ''    -x       Check cache consistency after each operation\<newline>'' [],
       eprintf ''    -d       Dump cache to log after every operation\<newline>'' [],
       eprintf ''    -b size  Set buffer size for read() from inotify FD\<newline>'' [],
       eprintf ''    -a file  Abort when cache inconsistency detected, and create 'stop' file\<newline>'' []]) (\<lambda>_.
     exit_process EXIT_FAILURE)"

fun dtree_options ::
  "err_texts \<Rightarrow> 'w ckernel \<Rightarrow> string \<Rightarrow> (char \<times> string) list \<Rightarrow> ('w dtree, unit) program" where
  "dtree_options et M pname [] = ret ()"
| "dtree_options et M pname ((opt, optarg) # os) =
     andThen
       (if opt = CHR ''a'' then modify (\<lambda>s. s\<lparr>abortOnCacheProblem := True, stopFile := Some optarg\<rparr>)
        else if opt = CHR ''x'' then modify (\<lambda>s. s\<lparr>checkCache := True\<rparr>)
        else if opt = CHR ''d'' then modify (\<lambda>s. s\<lparr>dumpCache := True\<rparr>)
        else if opt = CHR ''v'' then modify (\<lambda>s. s\<lparr>verboseMask := atoi optarg\<rparr>)
        else if opt = CHR ''b'' then modify (\<lambda>s. s\<lparr>readBufferSize := atoi optarg\<rparr>)
        else if opt = CHR ''l''
        then andThen (or_die (syscall (ck_fopen M optarg)) (errExit_macro et ''fopen''))
               (\<lambda>_. modify (\<lambda>s. s\<lparr>logfp := Some []\<rparr>))
        else usageError_dtree pname) (\<lambda>_.
     dtree_options et M pname os)"

definition prompt :: "string \<Rightarrow> ('w dtree, unit) program" where
  "prompt pname = andThen (printf ''%s> '' [FStr pname]) (\<lambda>_. fflush_stdout)"

text \<open>Everything before the loop; the value is the inotify descriptor.\<close>

definition main_setup :: "err_texts \<Rightarrow> 'w ckernel \<Rightarrow> string list \<Rightarrow> ('w dtree, int) program" where
  "main_setup et M argv =
     andThen (modify (\<lambda>s. s\<lparr>verboseMask := 0, checkCache := False, dumpCache := False, stopFile := None,
       abortOnCacheProblem := False\<rparr>)) (\<lambda>_.
     let (opts, operands) = getopt ''a:dxl:v:b:'' (drop 1 argv) in
     andThen (dtree_options et M (argv ! 0) opts) (\<lambda>_.
     if operands = [] then usageError_dtree (argv ! 0)
     else
     andThen (copyRootDirPaths et (ck_base M) operands) (\<lambda>_.
     andThen (reinitialize et (ck_base M) (- 1)) (\<lambda>fd.
     andThen (prompt (argv ! 0)) (\<lambda>_.
     ret fd)))))"

text \<open>One round of the loop. \<open>FD_ISSET\<close> looks at the descriptor as it is after the command. The fuel
  is for the buffer of events.\<close>

definition main_round :: "nat \<Rightarrow> err_texts \<Rightarrow> 'w ckernel \<Rightarrow> string \<Rightarrow> int \<Rightarrow> ('w dtree, int option) program" where
  "main_round fuel et M pname fd =
     andThen (or_die (syscall (ck_select M [0, fd])) (errExit_macro et ''select'')) (\<lambda>ready.
     andThen (if 0 \<in> set ready
              then andThen (executeCommand et M fd) (\<lambda>fd'. andThen (prompt pname) (\<lambda>_. ret fd'))
              else ret fd) (\<lambda>fd'.
     if fd' \<in> set ready then processInotifyEvents fuel et (ck_events M) fd' else ret (Some fd')))"

fun main_loop :: "nat \<Rightarrow> nat \<Rightarrow> err_texts \<Rightarrow> 'w ckernel \<Rightarrow> string \<Rightarrow> int \<Rightarrow> ('w dtree, int option) program" where
  "main_loop 0 fuel et M pname fd = ret None"
| "main_loop (Suc n) fuel et M pname fd =
     andThen (main_round fuel et M pname fd) (\<lambda>r. case r of
       None \<Rightarrow> ret None | Some fd' \<Rightarrow> main_loop n fuel et M pname fd')"

definition main_dtree :: "nat \<Rightarrow> nat \<Rightarrow> err_texts \<Rightarrow> 'w ckernel \<Rightarrow> string list \<Rightarrow> ('w dtree, int option) program" where
  "main_dtree rounds fuel et M argv = andThen (main_setup et M argv) (main_loop rounds fuel et M (argv ! 0))"

text \<open>The states at the head of the loop.\<close>

inductive at_loop_head :: "err_texts \<Rightarrow> 'w ckernel \<Rightarrow> string list \<Rightarrow> 'w dtree \<Rightarrow> int \<Rightarrow> 'w dtree \<Rightarrow> bool"
  for et M argv s0 where
  start: "main_setup et M argv s0 = (Inr fd, s) \<Longrightarrow> at_loop_head et M argv s0 fd s"
| round: "at_loop_head et M argv s0 fd s \<Longrightarrow> main_round fuel et M (argv ! 0) fd s = (Inr (Some fd'), s')
    \<Longrightarrow> at_loop_head et M argv s0 fd' s'"

section \<open>Lemmas\<close>

subsection \<open>The cache\<close>

lemma dt_verify [keep]: "keeps dt_inv (checkAllCachedPathnamesExist et K cmd)"
proof -
  have "keeps dt_inv (verify_loop et K cmd j c n f)" for j c n f
    by (induction c arbitrary: j n f) (auto intro!: keep)
  then show ?thesis unfolding checkAllCachedPathnamesExist_def by (intro keep)
qed

lemma dt_list [keep]: "keeps dt_inv command_list"
proof -
  have "keeps dt_inv (list_loop j c n)" for j c n
    by (induction c arbitrary: j n) (auto intro!: keep)
  then show ?thesis unfolding command_list_def by (intro keep)
qed

lemma keeps_with_arg [keep]: "(\<And>a. keeps I (f a)) \<Longrightarrow> keeps I (with_arg arg f)"
  unfolding with_arg_def by (intro keep)

lemma dt_command [keep]: "sane_watches (ck_base M) \<Longrightarrow> keeps dt_inv (executeCommand et M fd)"
  unfolding executeCommand_def run_command_def command_add_def command_verbose_def command_write_def on_off_def
    displayCommandList_def Let_def
  by (intro keep) (simp_all add: dt_inv_def)

lemma dt_prompt [keep]: "keeps dt_inv (prompt pname)"
  unfolding prompt_def by (intro keep)

lemma dt_round [keep]: "sane_watches (ck_base M) \<Longrightarrow> keeps dt_inv (main_round fuel et M pname fd)"
  unfolding main_round_def by (intro keep)

subsection \<open>The roots\<close>

text \<open>Only \<open>copyRootDirPaths\<close> and \<open>zapRootDirPath\<close> write the array of the roots.\<close>

definition on_roots :: "(string option list \<Rightarrow> bool) \<Rightarrow> 'w dtree \<Rightarrow> bool" where
  "on_roots P s = P (rootDirPaths s)"

lemma insensitive_on_roots: "insensitive (on_roots P)"
  by (simp add: insensitive_def on_roots_def)

lemmas roots_output [keep] = keeps_output[OF insensitive_on_roots]
lemmas roots_or_die [keep] = keeps_or_die[OF insensitive_on_roots]

lemma roots_log [keep]:
  "keeps (on_roots P) (logMessage m f as)" "keeps (on_roots P) (log_file f as)" "keeps (on_roots P) (log_unchecked f as)"
proof -
  show "keeps (on_roots P) (logMessage m f as)" by (simp add: keeps_def on_roots_def)
  show *: "keeps (on_roots P) (log_file f as)" by (simp add: keeps_def on_roots_def log_file_def)
  show "keeps (on_roots P) (log_unchecked f as)" unfolding log_unchecked_def by (intro keep *)
qed

lemma roots_slots [keep]:
  "keeps (on_roots P) (read_slot j)" "keeps (on_roots P) (write_slot j e)" "keeps (on_roots P) (markCacheSlotEmpty j)"
  "keeps (on_roots P) freeCache"
  unfolding read_slot_def write_slot_def markCacheSlotEmpty_def freeCache_def
  by (intro keep; simp add: on_roots_def)+

lemma roots_dump [keep]: "keeps (on_roots P) dumpCacheToLog"
proof -
  have "keeps (on_roots P) (dump_loop j c n)" for j c n
    by (induction c arbitrary: j n) (auto intro!: keep)
  then show ?thesis unfolding dumpCacheToLog_def by (intro keep)
qed

lemma roots_check [keep]: "keeps (on_roots P) (checkCacheConsistency et K)"
proof -
  have "keeps (on_roots P) (check_loop et K j c sb n)" for j c sb n
    by (induction c arbitrary: j sb n) (auto intro!: keep)
  then show ?thesis unfolding checkCacheConsistency_def by (intro keep)
qed

lemma roots_find [keep]: "keeps (on_roots P) (findWatchChecked K d)"
  unfolding findWatchChecked_def createStopFileAndAbort_def by (intro keep)

lemma roots_add [keep]: "keeps (on_roots P) (addWatchToCache et K d p)"
  unfolding addWatchToCache_def findEmptyCacheSlot_def Let_def by (intro keep) (simp_all add: on_roots_def)

lemma roots_watch [keep]: "keeps (on_roots P) (watchSubtree et K fd p)"
proof -
  have "keeps (on_roots P) (traverseTree et K v)" for v
    unfolding traverseTree_def Let_def by (intro keep) (simp_all add: on_roots_def)
  then show ?thesis
    unfolding watchSubtree_def watchDir_def by (intro keep) (simp_all add: on_roots_def)
qed

lemma roots_rewrite [keep]: "keeps (on_roots P) (rewriteCachedPaths op on np nn)"
  unfolding rewriteCachedPaths_def rewrite_slot_def Let_def by (intro keep)

lemma roots_zap [keep]: "keeps (on_roots P) (zapSubtree et K fd p)"
proof -
  have "keeps (on_roots P) (zap_loop et K fd p js n)" for js n
    by (induction js arbitrary: n) (auto intro!: keep)
  then show ?thesis unfolding zapSubtree_def by (intro keep)
qed

lemma roots_reinit [keep]: "keeps (on_roots P) (reinitialize et K fd)"
  unfolding reinitialize_def announce_rebuild_def watch_root_def by (intro keep) (simp_all add: on_roots_def)

lemma roots_verify [keep]: "keeps (on_roots P) (checkAllCachedPathnamesExist et K cmd)"
proof -
  have "keeps (on_roots P) (verify_loop et K cmd j c n f)" for j c n f
    by (induction c arbitrary: j n f) (auto intro!: keep)
  then show ?thesis unfolding checkAllCachedPathnamesExist_def by (intro keep)
qed

lemma roots_list [keep]: "keeps (on_roots P) command_list"
proof -
  have "keeps (on_roots P) (list_loop j c n)" for j c n
    by (induction c arbitrary: j n) (auto intro!: keep)
  then show ?thesis unfolding command_list_def by (intro keep)
qed

lemma roots_command [keep]: "keeps (on_roots P) (executeCommand et M fd)"
  unfolding executeCommand_def run_command_def command_add_def command_verbose_def command_write_def on_off_def
    displayCommandList_def Let_def
  by (intro keep) (simp_all add: on_roots_def)

lemma roots_display [keep]: "keeps (on_roots P) (displayInotifyEvent ev)"
  unfolding displayInotifyEvent_def show_flag_def by (intro keep)

subsection \<open>The invariant of the monitor\<close>

text \<open>The roots are the directories of the command line, some of them given up, but never all.\<close>

definition monitored :: "string list \<Rightarrow> string option list \<Rightarrow> bool" where
  "monitored dirs rs = (list_all2 (\<lambda>d r. r = None \<or> r = Some d) dirs rs \<and> (\<exists>d. Some d \<in> set rs))"

definition mon_inv :: "string list \<Rightarrow> 'w dtree \<Rightarrow> bool" where
  "mon_inv dirs s = (dt_inv s \<and> on_roots (monitored dirs) s)"

lemma mon_keeps:
  assumes "keeps dt_inv m" and "keeps (on_roots (monitored dirs)) m"
  shows "resumes (mon_inv dirs) m"
  unfolding mon_inv_def[abs_def] by (intro resumes_keeps keeps_conj assms)

lemma count_None_all: "length (filter (\<lambda>r. r = None) rs) = length rs \<longleftrightarrow> (\<forall>r\<in>set rs. r = None)"
proof -
  have "length (filter (\<lambda>r. r = None) rs) = length rs \<longleftrightarrow> length (filter (\<lambda>r. r \<noteq> None) rs) = 0"
    using sum_length_filter_compl[of "\<lambda>r. r = None" rs] by linarith
  then show ?thesis by (simp add: filter_empty_conv)
qed

lemma mon_zapRoot [resume]: "resumes (mon_inv dirs) (zapRootDirPath p)"
  unfolding resumes_def
proof (intro allI impI)
  fix s :: "'w dtree" and a s' assume I: "mon_inv dirs s" and run: "zapRootDirPath p s = (Inr a, s')"
  have dt: "dt_inv s'" using keepsD[OF dt_zapRoot _ run] I by (simp add: mon_inv_def)
  obtain j where j: "findRootDirPath p (rootDirPaths s) = Some j"
    using run by (cases "findRootDirPath p (rootDirPaths s)") (auto simp: zapRootDirPath_def exit_process_def fflush_stdout_def)
  then have "j < length (rootDirPaths s)" using find_root_Some[of p "rootDirPaths s" 0 j] by (simp add: findRootDirPath_def)
  with I have all: "list_all2 (\<lambda>d r. r = None \<or> r = Some d) dirs ((rootDirPaths s)[j := None])"
    by (auto simp: mon_inv_def on_roots_def monitored_def list_all2_conv_all_nth nth_list_update)
  have s': "rootDirPaths s' = (rootDirPaths s)[j := None]" "ignoreRootDirs s' \<noteq> length (rootDirPaths s')"
    using run j by (auto simp: zapRootDirPath_def exit_process_def fflush_stdout_def printf_def split: if_splits)
  have "\<exists>r \<in> set (rootDirPaths s'). r \<noteq> None"
    using dt s'(2) count_None_all[of "rootDirPaths s'"] by (auto simp: dt_inv_def)
  then show "mon_inv dirs s'" using all dt s'(1) by (auto simp: mon_inv_def on_roots_def monitored_def)
qed

lemma mon_slots:
  "resumes (mon_inv dirs) (slot_path slot)" "resumes (mon_inv dirs) (mark_slot slot)"
  unfolding slot_path_def mark_slot_def by (rule mon_keeps; intro keep)+

lemma mon_rebuild: "sane_watches K \<Longrightarrow> resumes (mon_inv dirs) (rebuild et K fd)"
  unfolding rebuild_def by (rule mon_keeps) (intro keep; assumption?)+

lemma mon_dispatch:
  assumes "sane_watches K"
  shows "resumes (mon_inv dirs) (dispatch_event et K fd ev rest bufSize firstTry slot)"
proof -
  note K = assms
  have "resumes (mon_inv dirs) (dir_created et K fd ev slot)"
    unfolding dir_created_def Let_def slot_path_def using K by (intro mon_keeps keep)
  moreover have "resumes (mon_inv dirs) (dir_deleted fd ev slot)"
    unfolding dir_deleted_def by (intro resume mon_slots; rule mon_keeps; intro keep)
  moreover have "resumes (mon_inv dirs) (dir_moved et K fd ev rest bufSize firstTry slot)"
    unfolding dir_moved_def Let_def slot_path_def rebuild_def using K by (intro mon_keeps keep)
  moreover have "resumes (mon_inv dirs) (queue_overflow et K fd)"
    unfolding queue_overflow_def using K
    by (intro mon_keeps keep) (simp_all add: dt_inv_def on_roots_def)
  moreover have "resumes (mon_inv dirs) (fs_unmounted fd ev slot)"
    unfolding fs_unmounted_def by (intro resume mon_slots; rule mon_keeps; intro keep)
  moreover have "resumes (mon_inv dirs) (root_moved et K fd ev slot)"
    unfolding root_moved_def using K[THEN mon_rebuild]
    by (intro resume mon_slots) (assumption | rule mon_keeps; intro keep)+
  moreover have "resumes (mon_inv dirs) (ret (False, ev_size ev, fd))"
    by (intro mon_keeps keep)
  ultimately show ?thesis unfolding dispatch_event_def by (intro resume)
qed

lemma mon_next:
  assumes "sane_watches K"
  shows "resumes (mon_inv dirs) (processNextInotifyEvent et K fd evs bufSize firstTry)"
proof (cases evs)
  case Nil
  then show ?thesis by (auto simp: processNextInotifyEvent_def intro!: mon_keeps keep)
next
  case (Cons ev rest)
  have disp: "resumes (mon_inv dirs) (displayInotifyEvent ev)" by (intro mon_keeps keep)
  have slot: "resumes (mon_inv dirs) (event_slot K ev)" unfolding event_slot_def by (intro mon_keeps keep)
  have re: "resumes (mon_inv dirs) (andThen (reinitialize et K fd) (\<lambda>fd'. ret (INOTIFY_READ_BUF_LEN, fd')))"
    using assms by (intro mon_keeps keep)
  have after: "resumes (mon_inv dirs) (if early then ret (n, fd')
         else
         andThen (query checkCache) (\<lambda>chk.
         andThen (if chk then checkCacheConsistency et K else ret ()) (\<lambda>_.
         andThen (query dumpCache) (\<lambda>dmp.
         andThen (if dmp then dumpCacheToLog else ret ()) (\<lambda>_.
         ret (n, fd'))))))" for early n fd'
    by (intro mon_keeps keep)
  show ?thesis
    unfolding processNextInotifyEvent_def Cons list.case
    by (intro resumes_andThen resumes_split(1,3) disp slot re mon_dispatch[OF assms] after)
qed

lemma mon_event_loop:
  assumes "sane_watches (ek_base E)"
  shows "resumes (mon_inv dirs) (event_loop n et E fd evs left firstTry)"
proof (induction n arbitrary: fd evs left firstTry)
  case 0
  show ?case unfolding event_loop.simps by (intro mon_keeps keep)
next
  case (Suc n)
  have sec: "resumes (mon_inv dirs) (secondary_read et E fd k)" for fd k
    unfolding secondary_read_def Let_def by (intro mon_keeps keep) (simp_all add: dt_inv_def on_roots_def)
  have fin: "resumes (mon_inv dirs) (ret (Some fd))" by (intro mon_keeps keep)
  show ?case
    unfolding event_loop.simps
    by (intro resumes_andThen resumes_split(1,3) mon_next assms sec fin Suc.IH)
qed

lemma mon_process:
  assumes "sane_watches (ek_base E)"
  shows "resumes (mon_inv dirs) (processInotifyEvents n et E fd)"
  unfolding processInotifyEvents_def Let_def
  by (intro resumes_andThen resumes_split(1) mon_event_loop assms;
      (rule mon_keeps; (intro keep; simp add: dt_inv_def on_roots_def)))

lemma mon_round:
  assumes "sane_watches (ck_base M)"
  shows "resumes (mon_inv dirs) (main_round fuel et M pname fd)"
proof -
  have cmd: "resumes (mon_inv dirs) (executeCommand et M fd)"
    using assms by (intro mon_keeps keep)
  show ?thesis
    unfolding main_round_def prompt_def
    by (intro resumes_andThen resumes_split(1) mon_process assms cmd; (rule mon_keeps; intro keep))
qed

subsection \<open>The roots on the command line\<close>

definition file_id :: "stat \<Rightarrow> nat \<times> nat" where
  "file_id st = (st_ino st, st_dev st)"

lemma same_object_None: "same_object st xs k = None \<longleftrightarrow> file_id st \<notin> file_id ` set xs"
  by (induction xs arbitrary: k) (auto simp: file_id_def)

text \<open>A successful round of the loop over the arguments.\<close>

lemma copy_root_returns:
  assumes "copy_root et K stat_ok argv j s = (Inr (), s')"
  obtains st w where "dk_lstat K (argv ! j) (world s) = (Inr st, w)" and "file_id st \<notin> file_id ` set (rootDirStat s)"
    and "s' = s\<lparr>rootDirPaths := (rootDirPaths s)[j := Some (argv ! j)], world := w, rootDirStat := rootDirStat s @ [st]\<rparr>"
proof -
  have ok: "dk_alloc_ok K (world s) (Suc (length (argv ! j)))" "stat_ok"
    using assms by (auto simp: copy_root_def errExit_macro_run split: if_splits)
  obtain q w where q: "dk_lstat K (argv ! j) (world s) = (q, w)" by fastforce
  show thesis
  proof (cases q)
    case (Inl e)
    with assms ok q show thesis by (simp add: copy_root_def syscall_def errExit_macro_run andThen_run)
  next
    case (Inr st)
    show thesis
    proof (cases "same_object st (rootDirStat s) 0")
      case None
      with assms ok q Inr have "s' = s\<lparr>rootDirPaths := (rootDirPaths s)[j := Some (argv ! j)], world := w, rootDirStat := rootDirStat s @ [st]\<rparr>"
        by (simp add: copy_root_def syscall_def andThen_run)
      with that q Inr None show thesis by (simp add: same_object_None)
    next
      case (Some i)
      with assms ok q Inr show thesis by (simp add: copy_root_def syscall_def andThen_run exit_process_def eprintf_def fflush_stdout_def)
    qed
  qed
qed

lemma copy_roots_return:
  assumes "forEach [k..<length argv] (copy_root et K stat_ok argv) s = (Inr (), s')" and "k \<le> length argv"
    and "rootDirPaths s = map Some (take k argv) @ replicate (length argv - k) None" and "distinct (map file_id (rootDirStat s))"
  shows "rootDirPaths s' = map Some argv \<and> wlCache s' = wlCache s \<and> distinct (map file_id (rootDirStat s'))"
  using assms
proof (induction "length argv - k" arbitrary: k s)
  case 0
  then show ?case by simp
next
  case (Suc m)
  then have k: "k < length argv" by simp
  then have up: "[k..<length argv] = k # [Suc k..<length argv]" by (simp add: upt_conv_Cons)
  obtain s1 where s1: "copy_root et K stat_ok argv k s = (Inr (), s1)"
    "forEach [Suc k..<length argv] (copy_root et K stat_ok argv) s1 = (Inr (), s')"
    using Suc.prems(1) unfolding up by (auto elim!: andThen_InrE)
  obtain st w where st: "file_id st \<notin> file_id ` set (rootDirStat s)"
    "s1 = s\<lparr>rootDirPaths := (rootDirPaths s)[k := Some (argv ! k)], world := w, rootDirStat := rootDirStat s @ [st]\<rparr>"
    by (rule copy_root_returns[OF s1(1)])
  have rep: "replicate (length argv - k) None = None # replicate (length argv - Suc k) (None :: string option)"
    using k by (metis Suc_diff_Suc replicate_Suc)
  have "rootDirPaths s1 = map Some (take (Suc k) argv) @ replicate (length argv - Suc k) None"
    using k by (simp add: st(2) Suc.prems(3) rep list_update_append take_Suc_conv_app_nth)
  moreover have "distinct (map file_id (rootDirStat s1))" using Suc.prems(4) st by auto
  moreover have "m = length argv - Suc k" using Suc.hyps(2) by simp
  ultimately have "rootDirPaths s' = map Some argv \<and> wlCache s' = wlCache s1 \<and> distinct (map file_id (rootDirStat s'))"
    using Suc.hyps(1)[of "Suc k" s1] s1(2) k by simp
  then show ?case by (simp add: st(2))
qed

lemma count_root_returns:
  assumes "forEach argv (count_root K) s = (Inr (), s')"
  shows "wlCache s' = wlCache s"
proof -
  have "keeps (\<lambda>t. wlCache t = wlCache s) (count_root K p)" for p
    unfolding count_root_def
    by (intro keep) (auto simp: keeps_def syscall_def eprintf_def exit_process_def fflush_stdout_def flushed_def
        split: prod.splits sum.splits)
  then have "keeps (\<lambda>t. wlCache t = wlCache s) (forEach argv (count_root K))" by (intro keep)
  from keepsD[OF this refl assms] show ?thesis .
qed

lemma copyRootDirPaths_returns:
  assumes "copyRootDirPaths et K argv s = (Inr (), s')"
  shows "rootDirPaths s' = map Some argv \<and> ignoreRootDirs s' = 0 \<and> wlCache s' = wlCache s
    \<and> distinct (map file_id (rootDirStat s'))"
proof -
  obtain s1 stat_ok s2 where s1: "forEach argv (count_root K) s = (Inr (), s1)"
    and s2: "forEach [0..<length argv] (copy_root et K stat_ok argv)
        (s1\<lparr>rootDirPaths := replicate (length argv) None, rootDirStat := []\<rparr>) = (Inr (), s2)"
    and s': "s' = s2\<lparr>ignoreRootDirs := 0\<rparr>"
    using assms by (auto simp: copyRootDirPaths_def errExit_macro_run elim!: andThen_InrE split: if_splits)
  from copy_roots_return[OF s2] count_root_returns[OF s1] s' show ?thesis by simp
qed

text \<open>The same with a file system that does not change while the program starts.\<close>

lemma count_roots_iff:
  assumes "\<And>p w. dk_lstat K p w = (L p, w)"
  shows "if \<forall>p\<in>set argv. \<exists>st. L p = Inr st \<and> is_dir st then forEach argv (count_root K) s = (Inr (), s)
         else \<exists>h s'. forEach argv (count_root K) s = (Inl h, s')"
proof (induction argv)
  case (Cons p argv)
  show ?case
  proof (cases "\<exists>st. L p = Inr st \<and> is_dir st")
    case True
    then have "count_root K p s = (Inr (), s)" using assms by (auto simp: count_root_def syscall_def andThen_run)
    with Cons True show ?thesis by simp
  next
    case False
    then have "\<exists>h s'. count_root K p s = (Inl h, s')"
      using assms by (cases "L p") (auto simp: count_root_def syscall_def andThen_run exit_process_def fflush_stdout_def)
    with False show ?thesis by auto
  qed
qed simp

lemma copy_roots_iff:
  assumes "\<And>p w. dk_lstat K p w = (Inr (st p), w) \<or> p \<notin> set argv" and "\<And>w n. dk_alloc_ok K w n" and "k \<le> length argv"
    and "distinct (map file_id (rootDirStat s))"
  shows "fst (forEach [k..<length argv] (copy_root et K True argv) s) = Inr () \<longleftrightarrow>
     distinct (map file_id (rootDirStat s @ map st (drop k argv)))"
  using assms(3,4)
proof (induction "length argv - k" arbitrary: k s)
  case 0
  then show ?case by simp
next
  case (Suc m)
  then have k: "k < length argv" by simp
  then have up: "[k..<length argv] = k # [Suc k..<length argv]" by (simp add: upt_conv_Cons)
  have dr: "drop k argv = argv ! k # drop (Suc k) argv" using k by (simp add: Cons_nth_drop_Suc)
  have lk: "dk_lstat K (argv ! k) w = (Inr (st (argv ! k)), w)" for w using assms(1) k nth_mem by blast
  show ?case
  proof (cases "same_object (st (argv ! k)) (rootDirStat s) 0")
    case None
    let ?s1 = "s\<lparr>rootDirPaths := (rootDirPaths s)[k := Some (argv ! k)], rootDirStat := rootDirStat s @ [st (argv ! k)]\<rparr>"
    have run: "copy_root et K True argv k s = (Inr (), ?s1)"
      using None lk assms(2) by (simp add: copy_root_def syscall_def andThen_run)
    have new: "file_id (st (argv ! k)) \<notin> file_id ` set (rootDirStat s)" using None by (simp add: same_object_None)
    have "fst (forEach [Suc k..<length argv] (copy_root et K True argv) ?s1) = Inr () \<longleftrightarrow>
        distinct (map file_id (rootDirStat ?s1 @ map st (drop (Suc k) argv)))"
      by (rule Suc.hyps(1)) (use Suc.hyps(2) Suc.prems new k in auto)
    with run new show ?thesis unfolding up dr by auto
  next
    case (Some i)
    then have "\<exists>h s'. copy_root et K True argv k s = (Inl h, s')"
      using lk assms(2) by (simp add: copy_root_def syscall_def andThen_run exit_process_def fflush_stdout_def)
    moreover have "file_id (st (argv ! k)) \<in> file_id ` set (rootDirStat s)"
      using Some same_object_None[of "st (argv ! k)" "rootDirStat s" 0] by simp
    ultimately show ?thesis unfolding up dr by auto
  qed
qed

subsection \<open>Start\<close>

lemma options_empty_cache: "keeps (\<lambda>s. wlCache s = []) (dtree_options et M pname os)"
proof -
  have ins: "insensitive (\<lambda>s :: 'w dtree. wlCache s = [])" by (simp add: insensitive_def)
  note out = keeps_output[OF ins] keeps_or_die[OF ins]
  have "keeps (\<lambda>s :: 'w dtree. wlCache s = []) (usageError_dtree pname)"
    unfolding usageError_dtree_def by (intro keep out)
  then show ?thesis
    by (induction os rule: dtree_options.induct) (auto intro!: keep out)
qed

lemma setup_mon:
  assumes "sane_watches (ck_base M)" and "wlCache s0 = []" and "main_setup et M argv s0 = (Inr fd, s)"
  shows "mon_inv (snd (getopt ''a:dxl:v:b:'' (drop 1 argv))) s"
proof -
  obtain opts dirs where o: "getopt ''a:dxl:v:b:'' (drop 1 argv) = (opts, dirs)" by fastforce
  let ?s1 = "s0\<lparr>verboseMask := 0, checkCache := False, dumpCache := False, stopFile := None, abortOnCacheProblem := False\<rparr>"
  have dirs: "dirs \<noteq> []" using assms(3) o
    by (auto simp: main_setup_def usageError_dtree_def exit_process_def fflush_stdout_def elim!: andThen_InrE)
  obtain s2 s3 s4 where s2: "dtree_options et M (argv ! 0) opts ?s1 = (Inr (), s2)"
    and s3: "copyRootDirPaths et (ck_base M) dirs s2 = (Inr (), s3)"
    and s4: "reinitialize et (ck_base M) (- 1) s3 = (Inr fd, s4)" and s: "prompt (argv ! 0) s4 = (Inr (), s)"
    using assms(3) dirs o unfolding main_setup_def by (auto elim!: andThen_InrE)
  have "wlCache s2 = []" using keepsD[OF options_empty_cache _ s2] assms(2) by simp
  with copyRootDirPaths_returns[OF s3] have "mon_inv dirs s3" using dirs
    by (auto simp: mon_inv_def dt_inv_def on_roots_def monitored_def cache_wf_def list_all2_conv_all_nth filter_empty_conv neq_Nil_conv)
  moreover have "resumes (mon_inv dirs) (reinitialize et (ck_base M) (- 1))" using assms(1) by (intro mon_keeps keep)
  moreover have "resumes (mon_inv dirs) (prompt (argv ! 0))" by (intro mon_keeps keep) (auto simp: prompt_def intro!: keep)
  ultimately show ?thesis unfolding o snd_conv using s4 s by (blast dest: resumesD)
qed

section \<open>Properties\<close>

text \<open>C1: The invariant of the monitor: whenever the program is at the head of its main loop, after any
  sequence of commands and events, the cache is well formed (valid descriptors that occur once,
  terminated paths, empty slots cleared), the array of the roots is that of the command line with
  some entries given up and counted in \<open>ignoreRootDirs\<close>, and at least one root is still monitored.\<close>
theorem monitor_invariant:
  assumes "sane_watches (ek_base (ck_events M))" and "wlCache s0 = []" and "at_loop_head et M argv s0 fd s"
  shows "cache_wf (wlCache s) \<and> ignoreRootDirs s = length (filter (\<lambda>r. r = None) (rootDirPaths s))
    \<and> list_all2 (\<lambda>d r. r = None \<or> r = Some d) (snd (getopt ''a:dxl:v:b:'' (drop 1 argv))) (rootDirPaths s)
    \<and> (\<exists>d. Some d \<in> set (rootDirPaths s))"
proof -
  let ?dirs = "snd (getopt ''a:dxl:v:b:'' (drop 1 argv))"
  from assms(3) have "mon_inv ?dirs s"
  proof (induction rule: at_loop_head.induct)
    case (start fd s)
    with assms(1,2) show ?case by (rule setup_mon)
  next
    case (round fd s fuel fd' s')
    with resumesD[OF mon_round[OF assms(1)]] show ?case by blast
  qed
  then show ?thesis by (simp add: mon_inv_def dt_inv_def on_roots_def monitored_def)
qed

text \<open>C9: On a file system that does not change while the program starts, \<open>copyRootDirPaths\<close> accepts the
  arguments exactly when each of them is a directory and no two of them are the same object, however
  they are spelled.\<close>
theorem copyRootDirPaths_accepts_iff:
  assumes "\<forall>p w. dk_lstat K p w = (L p, w)" and "\<forall>w n. dk_alloc_ok K w n"
  shows "fst (copyRootDirPaths et K argv s) = Inr () \<longleftrightarrow>
    (\<forall>p\<in>set argv. \<exists>st. L p = Inr st \<and> is_dir st)
    \<and> distinct (map (\<lambda>p. (st_ino (projr (L p)), st_dev (projr (L p)))) argv)"
proof (cases "\<forall>p\<in>set argv. \<exists>st. L p = Inr st \<and> is_dir st")
  case True
  let ?s1 = "s\<lparr>rootDirPaths := replicate (length argv) None, rootDirStat := []\<rparr>"
  have "forEach argv (count_root K) s = (Inr (), s)"
    using count_roots_iff[of K L argv s] True assms(1) by simp
  then have "copyRootDirPaths et K argv s =
      andThen (forEach [0..<length argv] (copy_root et K True argv)) (\<lambda>_. modify (\<lambda>s. s\<lparr>ignoreRootDirs := 0\<rparr>)) ?s1"
    using assms(2) by (simp add: copyRootDirPaths_def)
  moreover have "fst (andThen m (\<lambda>_. modify f) t) = Inr () \<longleftrightarrow> fst (m t) = Inr ()" for m f and t :: "'a dtree"
    by (auto simp: andThen_run split: prod.splits sum.splits)
  moreover have "fst (forEach [0..<length argv] (copy_root et K True argv) ?s1) = Inr () \<longleftrightarrow>
      distinct (map file_id (rootDirStat ?s1 @ map (\<lambda>p. projr (L p)) (drop 0 argv)))"
  proof (rule copy_roots_iff)
    show "dk_lstat K p w = (Inr (projr (L p)), w) \<or> p \<notin> set argv" for p w
      using True assms(1) by (cases "p \<in> set argv") auto
  qed (use assms(2) in simp_all)
  ultimately show ?thesis using True by (simp add: file_id_def comp_def)
next
  case False
  have "\<exists>h s'. forEach argv (count_root K) s = (Inl h, s')"
    using count_roots_iff[of K L argv s] assms(1) unfolding if_not_P[OF False] by blast
  then obtain h s' where "forEach argv (count_root K) s = (Inl h, s')" by blast
  then show ?thesis using False by (simp add: copyRootDirPaths_def)
qed

text \<open>A file system in which the inode of a directory is the length of its name.\<close>

definition length_fs :: "demo_fs dkernel" where
  "length_fs = demo_dkernel\<lparr>dk_lstat := \<lambda>p w. (Inr \<lparr>is_dir = True, st_ino = length p, st_dev = 0\<rparr>, w),
     dk_add_watch := \<lambda>fd p fl w. (Inl ENOENT, w)\<rparr>"

theorem copyRootDirPaths_accepts_iff_witness:
  "fst (copyRootDirPaths \<lparr>ename = [], strerror = (\<lambda>_. [])\<rparr> length_fs [''/a'', ''/bb''] (demo_state [] [] [])) = Inr ()
   \<and> fst (copyRootDirPaths \<lparr>ename = [], strerror = (\<lambda>_. [])\<rparr> length_fs [''/a'', ''/b''] (demo_state [] [] [])) \<noteq> Inr ()"
proof -
  let ?L = "\<lambda>p :: string. Inr \<lparr>is_dir = True, st_ino = length p, st_dev = 0\<rparr> :: errno + stat"
  have K: "\<forall>p w. dk_lstat length_fs p w = (?L p, w)" "\<forall>w n. dk_alloc_ok length_fs w n"
    by (simp_all add: length_fs_def demo_dkernel_def)
  show ?thesis
    unfolding copyRootDirPaths_accepts_iff[of length_fs ?L, OF K] by simp
qed

definition length_ck :: "demo_fs ckernel" where
  "length_ck = \<lparr>ck_events = \<lparr>ek_base = length_fs, ek_read = (\<lambda>fd k w. (Inl EINTR, w)), ek_sigaction = (\<lambda>w. (Inr (), w)),
      ek_ualarm = (\<lambda>n w. w)\<rparr>, ck_fopen = (\<lambda>f w. (Inr 5, w)), ck_fclose = (\<lambda>fp ms w. w),
    ck_read_stdin = (\<lambda>n w. (Inr (''x'' @ [NL]), w)), ck_select = (\<lambda>fds w. (Inr [0], w))\<rparr>"

theorem monitor_invariant_witness:
  "\<exists>s. at_loop_head \<lparr>ename = [], strerror = (\<lambda>_. [])\<rparr> length_ck [''m'', ''-x'', ''/r''] (demo_state [] [] []) 4 s
    \<and> cache_wf (wlCache s) \<and> rootDirPaths s = [Some ''/r''] \<and> checkCache s"
proof -
  let ?et = "\<lparr>ename = [], strerror = (\<lambda>_. [])\<rparr>" and ?s0 = "demo_state [] [] []"
  have K: "sane_watches (ek_base (ck_events length_ck))" by (simp add: length_ck_def length_fs_def sane_watches_def)
  have o: "getopt ''a:dxl:v:b:'' [''-x'', ''/r''] = ([(CHR ''x'', [])], [''/r''])" by code_simp
  obtain s where s: "main_setup ?et length_ck [''m'', ''-x'', ''/r''] ?s0 = (Inr 4, s)" and c: "checkCache s"
    by (simp add: main_setup_def o copyRootDirPaths_def count_root_def copy_root_def reinitialize_def announce_rebuild_def
        or_die_def freeCache_def watch_root_def watchSubtree_def watchDir_def prompt_def length_ck_def length_fs_def
        demo_dkernel_def demo_state_def syscall_def andThen_run fflush_stdout_def printf_def flushed_def)
  have h: "at_loop_head ?et length_ck [''m'', ''-x'', ''/r''] ?s0 4 s" by (rule at_loop_head.start[OF s])
  have "wlCache ?s0 = []" by (simp add: demo_state_def)
  from monitor_invariant[OF K this h] have "cache_wf (wlCache s) \<and> rootDirPaths s = [Some ''/r'']"
    by (auto simp: o list_all2_Cons1)
  with h c show ?thesis by blast
qed

text \<open>The command that writes the list of directories: \<open>w\<close> with a file name stores the paths of the
  used slots in their order, one per line, and changes nothing else. A file that cannot be opened is
  reported and then used all the same, and \<open>a\<close>, \<open>w\<close> and \<open>z\<close> without an argument use an unset
  array: both are undefined behaviour.\<close>
theorem executeCommand_write:
  assumes "f \<noteq> []" and "\<forall>c\<in>set f. \<not> isspace c \<and> c \<noteq> NUL"
    and "ck_read_stdin M MAX_LINE (world s) = (Inr (''w '' @ f @ [NL]), w)"
  shows "executeCommand et M fd s = (case ck_fopen M f w of
       (Inr fp, w') \<Rightarrow> (Inr fd, s\<lparr>world := ck_fclose M fp
           (map (\<lambda>e. (''%s\<newline>'', [FStr (path e)])) (filter (\<lambda>e. wd e \<ge> 0) (wlCache s))) w'\<rparr>)
     | (Inl e, w') \<Rightarrow> (Inl Undefined, s\<lparr>p_errno := e, world := w',
           written := written s @ [(2, ''%s: %s\<newline>'', [FStr ''fopen'', FStr (strerror et (errnum e))])]\<rparr>))
    \<and> (\<forall>cmd \<in> {CHR ''a'', CHR ''w'', CHR ''z''}. run_command et M fd cmd None s = (Inl Undefined, s))"
proof -
  have "dropWhile isspace f = f" using assms(1,2) by (cases f) auto
  moreover have "isspace (CHR '' '')" by (simp add: isspace_def)
  ultimately have scan: "scan_command (''w '' @ f) = (CHR ''w'', Some f)"
    using assms(1,2) by (simp add: scan_command_def Let_def takeWhile_eq_all_conv)
  have line: "takeWhile (\<lambda>c. c \<noteq> NUL) f = f" using assms(2) by (simp add: takeWhile_eq_all_conv)
  have "executeCommand et M fd s = run_command et M fd (CHR ''w'') (Some f) (s\<lparr>world := w\<rparr>)"
    using assms(3) scan by (simp add: line executeCommand_def syscall_def andThen_run Let_def butlast_append)
  moreover have "run_command et M fd (CHR ''w'') (Some f) (s\<lparr>world := w\<rparr>) = (case ck_fopen M f w of
       (Inr fp, w') \<Rightarrow> (Inr fd, s\<lparr>world := ck_fclose M fp
           (map (\<lambda>e. (''%s\<newline>'', [FStr (path e)])) (filter (\<lambda>e. wd e \<ge> 0) (wlCache s))) w'\<rparr>)
     | (Inl e, w') \<Rightarrow> (Inl Undefined, s\<lparr>p_errno := e, world := w',
           written := written s @ [(2, ''%s: %s\<newline>'', [FStr ''fopen'', FStr (strerror et (errnum e))])]\<rparr>))"
    by (simp add: run_command_def with_arg_def command_write_def syscall_def perror_run andThen_run
        split: prod.split sum.split)
  moreover have "run_command et M fd cmd None s = (Inl Undefined, s)" if "cmd \<in> {CHR ''a'', CHR ''w'', CHR ''z''}" for cmd
    using that by (auto simp: run_command_def with_arg_def andThen_run)
  ultimately show ?thesis by simp
qed

theorem executeCommand_write_witness:
  "executeCommand \<lparr>ename = [], strerror = (\<lambda>_. [])\<rparr>
      (length_ck\<lparr>ck_read_stdin := (\<lambda>n w. (Inr (''w out'' @ [NL]), w)), ck_fclose := (\<lambda>fp ms w. (map (\<lambda>m. ''line'') ms, int (length ms)))\<rparr>) 4
      (demo_state [\<lparr>wd = 1, path = ''/r''\<rparr>, \<lparr>wd = - 1, path = []\<rparr>] [] [])
   = (Inr 4, (demo_state [\<lparr>wd = 1, path = ''/r''\<rparr>, \<lparr>wd = - 1, path = []\<rparr>] [] [])\<lparr>world := ([''line''], 1)\<rparr>)"
proof -
  let ?M = "length_ck\<lparr>ck_read_stdin := (\<lambda>n w. (Inr (''w out'' @ [NL]), w)), ck_fclose := (\<lambda>fp ms w. (map (\<lambda>m. ''line'') ms, int (length ms)))\<rparr>"
  let ?s = "demo_state [\<lparr>wd = 1, path = ''/r''\<rparr>, \<lparr>wd = - 1, path = []\<rparr>] [] []"
  have "\<forall>c\<in>set ''out''. \<not> isspace c \<and> c \<noteq> NUL" by (simp add: isspace_def)
  from executeCommand_write[where f = "''out''" and M = ?M and s = ?s and w = "world ?s" and fd = 4
      and et = "\<lparr>ename = [], strerror = (\<lambda>_. [])\<rparr>", OF _ this]
  show ?thesis by (simp add: length_ck_def demo_state_def)
qed
end
