(* ===== verification/Shm_Transfer.thy ===== *)
theory Shm_Transfer
  imports C_Prelude
begin

text \<open>
  \<open>svsem/binary_sems.c\<close> and the two programs that hand a stream of data through shared memory with
  it, \<open>svshm/svshm_xfr_writer.c\<close> and \<open>svshm/svshm_xfr_reader.c\<close>.

  The two processes run interleaved: a step is one system call of one of them, or the test of
  \<open>shmp->cnt\<close> after the writer has given its turn away. \<open>read\<close> may return fewer bytes than asked for.
  With \<open>faults\<close> any system call may fail, which ends the process that made it. The counters of bytes
  and transfers do not overflow in the model.
\<close>

section \<open>Binary semaphores\<close>

text \<open>A semaphore set that exists is the list of the values.\<close>

type_synonym semset = "nat list option"

datatype semop_result = SemDone semset | SemBlocks | SemFails

definition semop1 :: "nat \<Rightarrow> int \<Rightarrow> semset \<Rightarrow> semop_result" where
  "semop1 semNum sem_op ss = (case ss of
     None \<Rightarrow> SemFails
   | Some vs \<Rightarrow>
       if \<not> semNum < length vs then SemFails
       else if int (vs ! semNum) + sem_op < 0 then SemBlocks
       else SemDone (Some (vs[semNum := nat (int (vs ! semNum) + sem_op)])))"

definition semctl_setval :: "nat \<Rightarrow> nat \<Rightarrow> semset \<Rightarrow> semop_result" where
  "semctl_setval semNum v ss = (case ss of
     None \<Rightarrow> SemFails
   | Some vs \<Rightarrow> if semNum < length vs then SemDone (Some (vs[semNum := v])) else SemFails)"

definition initSemAvailable :: "nat \<Rightarrow> semset \<Rightarrow> semop_result" where
  "initSemAvailable semNum ss = semctl_setval semNum 1 ss"

definition initSemInUse :: "nat \<Rightarrow> semset \<Rightarrow> semop_result" where
  "initSemInUse semNum ss = semctl_setval semNum 0 ss"

text \<open>One return of \<open>semop\<close> inside \<open>reserveSem\<close>; an interrupted call is made again if \<open>bsRetryOnEintr\<close>
  holds, which leaves the caller where it is.\<close>

definition reserveSem :: "bool \<Rightarrow> bool \<Rightarrow> nat \<Rightarrow> semset \<Rightarrow> semop_result" where
  "reserveSem bsRetryOnEintr interrupted semNum ss =
     (if interrupted then (if bsRetryOnEintr then SemBlocks else SemFails) else semop1 semNum (- 1) ss)"

definition releaseSem :: "nat \<Rightarrow> semset \<Rightarrow> semop_result" where
  "releaseSem semNum ss = semop1 semNum 1 ss"

section \<open>The two programs\<close>

abbreviation (input) WRITE_SEM :: nat where "WRITE_SEM \<equiv> 0"
abbreviation (input) READ_SEM :: nat where "READ_SEM \<equiv> 1"

definition XFR_BUF_SIZE :: nat where "XFR_BUF_SIZE = 1024"

record shmseg =
  cnt :: int
  buf :: string

datatype wpoint = W_semget | W_initw | W_initr | W_shmget | W_shmat
  | W_reserve | W_read | W_release | W_test | W_last | W_rmsem | W_detach | W_rmshm | W_done | W_failed

datatype rpoint = R_semget | R_shmget | R_shmat
  | R_reserve | R_test | R_write | R_release | R_detach | R_last | R_done | R_failed

record xfr =
  sems :: semset
  shm :: "shmseg option"
  x_in :: string
  x_out :: string
  wpc :: wpoint
  rpc :: rpoint
  w_bytes :: nat
  w_xfrs :: nat
  r_bytes :: nat
  r_xfrs :: nat

definition xfr_start :: "string \<Rightarrow> xfr" where
  "xfr_start data = \<lparr>sems = None, shm = None, x_in = data, x_out = [], wpc = W_semget, rpc = R_semget,
     w_bytes = 0, w_xfrs = 0, r_bytes = 0, r_xfrs = 0\<rparr>"

text \<open>A call on the semaphores from one program point to the next; a failure ends in \<open>errExit\<close>, and a
  call that blocks is no step.\<close>

definition w_sem :: "semop_result \<Rightarrow> wpoint \<Rightarrow> xfr \<Rightarrow> xfr option" where
  "w_sem r nxt s = (case r of
     SemDone ss \<Rightarrow> Some (s\<lparr>sems := ss, wpc := nxt\<rparr>)
   | SemFails \<Rightarrow> Some (s\<lparr>wpc := W_failed\<rparr>)
   | SemBlocks \<Rightarrow> None)"

definition r_sem :: "semop_result \<Rightarrow> rpoint \<Rightarrow> xfr \<Rightarrow> xfr option" where
  "r_sem r nxt s = (case r of
     SemDone ss \<Rightarrow> Some (s\<lparr>sems := ss, rpc := nxt\<rparr>)
   | SemFails \<Rightarrow> Some (s\<lparr>rpc := R_failed\<rparr>)
   | SemBlocks \<Rightarrow> None)"

text \<open>The result of \<open>read\<close>, when \<open>chunk\<close> is what it would like to return.\<close>

definition read_len :: "nat \<Rightarrow> nat \<Rightarrow> nat" where
  "read_len chunk avail = min (min (max 1 chunk) XFR_BUF_SIZE) avail"

text \<open>A step of the writer, \<open>None\<close> if it has to wait.\<close>

definition writer_step :: "nat \<Rightarrow> xfr \<Rightarrow> xfr option" where
  "writer_step chunk s = (case wpc s of
     W_semget \<Rightarrow> Some (s\<lparr>sems := Some (case sems s of None \<Rightarrow> [0, 0] | Some vs \<Rightarrow> vs), wpc := W_initw\<rparr>)
   | W_initw \<Rightarrow> w_sem (initSemAvailable WRITE_SEM (sems s)) W_initr s
   | W_initr \<Rightarrow> w_sem (initSemInUse READ_SEM (sems s)) W_shmget s
   | W_shmget \<Rightarrow> Some (s\<lparr>shm := Some (case shm s of None \<Rightarrow> \<lparr>cnt = 0, buf = []\<rparr> | Some m \<Rightarrow> m), wpc := W_shmat\<rparr>)
   | W_shmat \<Rightarrow> Some (s\<lparr>wpc := W_reserve\<rparr>)
   | W_reserve \<Rightarrow> w_sem (reserveSem True False WRITE_SEM (sems s)) W_read s
   | W_read \<Rightarrow>
       (let n = read_len chunk (length (x_in s)) in
        Some (s\<lparr>shm := Some \<lparr>cnt = int n, buf = take n (x_in s)\<rparr>, x_in := drop n (x_in s), wpc := W_release\<rparr>))
   | W_release \<Rightarrow> w_sem (releaseSem READ_SEM (sems s)) W_test s
   | W_test \<Rightarrow>
       (case shm s of None \<Rightarrow> None | Some m \<Rightarrow>
          if cnt m = 0 then Some (s\<lparr>wpc := W_last\<rparr>)
          else Some (s\<lparr>wpc := W_reserve, w_xfrs := Suc (w_xfrs s), w_bytes := w_bytes s + nat (cnt m)\<rparr>))
   | W_last \<Rightarrow> w_sem (reserveSem True False WRITE_SEM (sems s)) W_rmsem s
   | W_rmsem \<Rightarrow> Some (if sems s = None then s\<lparr>wpc := W_failed\<rparr> else s\<lparr>sems := None, wpc := W_detach\<rparr>)
   | W_detach \<Rightarrow> Some (s\<lparr>wpc := W_rmshm\<rparr>)
   | W_rmshm \<Rightarrow> Some (if shm s = None then s\<lparr>wpc := W_failed\<rparr> else s\<lparr>shm := None, wpc := W_done\<rparr>)
   | W_done \<Rightarrow> None
   | W_failed \<Rightarrow> None)"

definition reader_step :: "xfr \<Rightarrow> xfr option" where
  "reader_step s = (case rpc s of
     R_semget \<Rightarrow> Some (s\<lparr>rpc := (if sems s = None then R_failed else R_shmget)\<rparr>)
   | R_shmget \<Rightarrow> Some (s\<lparr>rpc := (if shm s = None then R_failed else R_shmat)\<rparr>)
   | R_shmat \<Rightarrow> Some (s\<lparr>rpc := R_reserve\<rparr>)
   | R_reserve \<Rightarrow> r_sem (reserveSem True False READ_SEM (sems s)) R_test s
   | R_test \<Rightarrow>
       (case shm s of None \<Rightarrow> None | Some m \<Rightarrow>
          if cnt m = 0 then Some (s\<lparr>rpc := R_detach\<rparr>)
          else Some (s\<lparr>rpc := R_write, r_bytes := r_bytes s + nat (cnt m)\<rparr>))
   | R_write \<Rightarrow>
       (case shm s of None \<Rightarrow> None | Some m \<Rightarrow>
          Some (s\<lparr>rpc := R_release, x_out := x_out s @ take (nat (cnt m)) (buf m)\<rparr>))
   | R_release \<Rightarrow>
       (case releaseSem WRITE_SEM (sems s) of
          SemDone ss \<Rightarrow> Some (s\<lparr>sems := ss, rpc := R_reserve, r_xfrs := Suc (r_xfrs s)\<rparr>)
        | SemFails \<Rightarrow> Some (s\<lparr>rpc := R_failed\<rparr>)
        | SemBlocks \<Rightarrow> None)
   | R_detach \<Rightarrow> Some (s\<lparr>rpc := R_last\<rparr>)
   | R_last \<Rightarrow> r_sem (releaseSem WRITE_SEM (sems s)) R_done s
   | R_done \<Rightarrow> None
   | R_failed \<Rightarrow> None)"

text \<open>The interleaving.\<close>

inductive xstep :: "xfr \<Rightarrow> xfr \<Rightarrow> bool" where
  writer: "writer_step chunk s = Some s' \<Longrightarrow> xstep s s'"
| reader: "reader_step s = Some s' \<Longrightarrow> xstep s s'"

section \<open>The configurations that occur\<close>

definition idle :: "rpoint \<Rightarrow> bool" where
  "idle p = (p \<in> {R_semget, R_shmget, R_shmat, R_reserve, R_failed})"

text \<open>No block is on its way, and the block in the segment is.\<close>

definition clean :: "string \<Rightarrow> xfr \<Rightarrow> bool" where
  "clean data s = (x_out s @ x_in s = data \<and> r_bytes s = length (x_out s))"

definition loaded :: "string \<Rightarrow> shmseg \<Rightarrow> xfr \<Rightarrow> bool" where
  "loaded data m s = (shm s = Some m \<and> x_out s @ buf m @ x_in s = data \<and> cnt m = int (length (buf m))
     \<and> (buf m = [] \<longrightarrow> x_in s = []))"

text \<open>What the writer has counted; \<open>late\<close> is the block that it counts only after its turn.\<close>

definition counted :: "string \<Rightarrow> shmseg \<Rightarrow> xfr \<Rightarrow> bool" where
  "counted data m s = (w_bytes s + (if wpc s \<in> {W_release, W_test} then nat (cnt m) else 0) + length (x_in s) = length data)"

text \<open>Where the writer can be while the reader has the turn: it has not yet looked at the count of the
  block, or it has and waits for its next turn, or for its last one.\<close>

definition waiting :: "wpoint \<Rightarrow> shmseg \<Rightarrow> bool" where
  "waiting p m = (p = W_test \<or> p = W_reserve \<and> 0 < cnt m \<or> p = W_last \<and> cnt m = 0)"

inductive conf :: "string \<Rightarrow> xfr \<Rightarrow> bool" for data s where
  c_start: "wpc s = W_semget \<Longrightarrow> rpc s \<in> {R_semget, R_failed} \<Longrightarrow> sems s = None \<Longrightarrow> shm s = None
    \<Longrightarrow> clean data s \<Longrightarrow> w_bytes s + length (x_in s) = length data \<Longrightarrow> conf data s"
| c_init: "wpc s \<in> {W_initw, W_initr, W_shmget} \<Longrightarrow> rpc s \<in> {R_semget, R_shmget, R_failed}
    \<Longrightarrow> sems s = Some [if wpc s = W_initw then 0 else 1, 0] \<Longrightarrow> shm s = None
    \<Longrightarrow> clean data s \<Longrightarrow> w_bytes s + length (x_in s) = length data \<Longrightarrow> conf data s"
| c_wturn: "sems s = Some [1, 0] \<Longrightarrow> shm s = Some m \<Longrightarrow> wpc s \<in> {W_shmat, W_reserve} \<or> wpc s = W_test \<and> 0 < cnt m
    \<Longrightarrow> idle (rpc s) \<Longrightarrow> clean data s \<Longrightarrow> counted data m s \<Longrightarrow> conf data s"
| c_wread: "sems s = Some [0, 0] \<Longrightarrow> shm s = Some m \<Longrightarrow> wpc s = W_read
    \<Longrightarrow> idle (rpc s) \<Longrightarrow> clean data s \<Longrightarrow> counted data m s \<Longrightarrow> conf data s"
| c_wrel: "sems s = Some [0, 0] \<Longrightarrow> loaded data m s \<Longrightarrow> wpc s = W_release
    \<Longrightarrow> idle (rpc s) \<Longrightarrow> r_bytes s = length (x_out s) \<Longrightarrow> counted data m s \<Longrightarrow> conf data s"
| c_rturn: "sems s = Some [0, 1] \<Longrightarrow> loaded data m s \<Longrightarrow> waiting (wpc s) m
    \<Longrightarrow> idle (rpc s) \<Longrightarrow> r_bytes s = length (x_out s) \<Longrightarrow> counted data m s \<Longrightarrow> conf data s"
| c_rtest: "sems s = Some [0, 0] \<Longrightarrow> loaded data m s \<Longrightarrow> waiting (wpc s) m
    \<Longrightarrow> rpc s = R_test \<Longrightarrow> r_bytes s = length (x_out s) \<Longrightarrow> counted data m s \<Longrightarrow> conf data s"
| c_rwrite: "sems s = Some [0, 0] \<Longrightarrow> loaded data m s \<Longrightarrow> waiting (wpc s) m \<Longrightarrow> 0 < cnt m
    \<Longrightarrow> rpc s = R_write \<Longrightarrow> r_bytes s = length (x_out s) + length (buf m) \<Longrightarrow> counted data m s \<Longrightarrow> conf data s"
| c_rrel: "sems s = Some [0, 0] \<Longrightarrow> shm s = Some m \<Longrightarrow> waiting (wpc s) m \<Longrightarrow> 0 < cnt m
    \<Longrightarrow> rpc s = R_release \<Longrightarrow> clean data s \<Longrightarrow> counted data m s \<Longrightarrow> conf data s"
| c_rend: "sems s = Some [0, 0] \<Longrightarrow> shm s = Some m \<Longrightarrow> wpc s \<in> {W_test, W_last} \<Longrightarrow> cnt m = 0
    \<Longrightarrow> rpc s \<in> {R_detach, R_last} \<Longrightarrow> clean data s \<Longrightarrow> x_in s = [] \<Longrightarrow> counted data m s \<Longrightarrow> conf data s"
| c_rdone: "sems s = Some [1, 0] \<Longrightarrow> shm s = Some m \<Longrightarrow> wpc s \<in> {W_test, W_last} \<Longrightarrow> cnt m = 0
    \<Longrightarrow> rpc s = R_done \<Longrightarrow> clean data s \<Longrightarrow> x_in s = [] \<Longrightarrow> counted data m s \<Longrightarrow> conf data s"
| c_wend: "sems s = (if wpc s = W_rmsem then Some [0, 0] else None) \<Longrightarrow> (shm s = None \<longleftrightarrow> wpc s = W_done)
    \<Longrightarrow> wpc s \<in> {W_rmsem, W_detach, W_rmshm, W_done} \<Longrightarrow> rpc s = R_done \<Longrightarrow> clean data s \<Longrightarrow> x_in s = []
    \<Longrightarrow> w_bytes s = length data \<Longrightarrow> conf data s"

lemma conf_start: "conf data (xfr_start data)"
  by (rule c_start) (simp_all add: xfr_start_def clean_def)

lemmas sem_ops = initSemAvailable_def initSemInUse_def reserveSem_def releaseSem_def semop1_def semctl_setval_def w_sem_def r_sem_def
lemmas conf_defs = clean_def loaded_def counted_def waiting_def idle_def

lemma read_chunk: "n = read_len chunk (length xs) \<Longrightarrow> n \<le> length xs \<and> (n = 0 \<longleftrightarrow> xs = [])"
  by (auto simp: read_len_def XFR_BUF_SIZE_def min_def)

text \<open>While it is not its turn, the writer can only look at the count.\<close>

lemma waiting_step:
  assumes "sems s = Some [0, b]" and "shm s = Some m" and "waiting (wpc s) m" and "counted data m s" and "0 \<le> cnt m"
    and "writer_step chunk s = Some s'"
  shows "sems s' = sems s \<and> shm s' = shm s \<and> x_in s' = x_in s \<and> x_out s' = x_out s \<and> rpc s' = rpc s
    \<and> r_bytes s' = r_bytes s \<and> waiting (wpc s') m \<and> counted data m s'"
proof -
  have w: "wpc s = W_test" using assms by (auto simp: waiting_def writer_step_def sem_ops)
  show ?thesis
  proof (cases "cnt m = 0")
    case True
    with assms w show ?thesis by (auto simp: writer_step_def waiting_def counted_def)
  next
    case False
    with assms w show ?thesis by (auto simp: writer_step_def waiting_def counted_def)
  qed
qed

lemma conf_writer:
  assumes "conf data s" and "writer_step chunk s = Some s'"
  shows "conf data s'"
  using assms(1)
proof (cases rule: conf.cases)
  case c_start
  with assms(2) show ?thesis by (intro c_init) (auto simp: writer_step_def clean_def)
next
  case c_init
  consider "wpc s = W_initw" | "wpc s = W_initr" | "wpc s = W_shmget" using c_init(1) by blast
  then show ?thesis
  proof cases
    case 3
    with c_init assms(2) show ?thesis
      by (intro c_wturn[where m = "\<lparr>cnt = 0, buf = []\<rparr>"]) (auto simp: writer_step_def conf_defs)
  qed (use c_init assms(2) in \<open>intro conf.c_init; auto simp: writer_step_def sem_ops clean_def\<close>)+
next
  case (c_wturn m)
  consider "wpc s = W_shmat" | "wpc s = W_reserve" | "wpc s = W_test" "0 < cnt m" using c_wturn(3) by blast
  then show ?thesis
  proof cases
    case 2
    with c_wturn assms(2) show ?thesis by (intro c_wread[where m = m]) (auto simp: writer_step_def sem_ops conf_defs)
  qed (use c_wturn assms(2) in \<open>intro conf.c_wturn[where m = m]; auto simp: writer_step_def conf_defs\<close>)+
next
  case (c_wread m)
  define n where "n = read_len chunk (length (x_in s))"
  have n: "n \<le> length (x_in s)" "n = 0 \<longleftrightarrow> x_in s = []" using read_chunk[OF n_def] by auto
  have s': "s' = s\<lparr>shm := Some \<lparr>cnt = int n, buf = take n (x_in s)\<rparr>, x_in := drop n (x_in s), wpc := W_release\<rparr>"
    using assms(2) c_wread by (simp add: writer_step_def n_def Let_def)
  have c: "x_out s @ x_in s = data" "r_bytes s = length (x_out s)" "w_bytes s + length (x_in s) = length data"
    using c_wread by (simp_all add: clean_def counted_def)
  have len: "length (x_in s) = n + (length (x_in s) - n)" using n(1) by simp
  have l: "loaded data \<lparr>cnt = int n, buf = take n (x_in s)\<rparr> s'" using n c(1) by (simp add: s' loaded_def)
  have k: "counted data \<lparr>cnt = int n, buf = take n (x_in s)\<rparr> s'" using n(1) c(3) by (simp add: s' counted_def)
  show ?thesis
    by (rule c_wrel[OF _ l _ _ _ k]) (use c_wread(1,4) c(2) in \<open>simp_all add: s'\<close>)
next
  case (c_wrel m)
  with assms(2) show ?thesis by (intro c_rturn[where m = m]) (auto simp: writer_step_def sem_ops conf_defs)
next
  case (c_rturn m)
  then have m: "shm s = Some m" "0 \<le> cnt m" by (simp_all add: loaded_def)
  note w = waiting_step[OF c_rturn(1) m(1) c_rturn(3) _ m(2) assms(2), of data]
  from c_rturn w show ?thesis by (intro conf.c_rturn[where m = m]) (simp_all add: loaded_def clean_def)
next
  case (c_rtest m)
  then have m: "shm s = Some m" "0 \<le> cnt m" by (simp_all add: loaded_def)
  note w = waiting_step[OF c_rtest(1) m(1) c_rtest(3) _ m(2) assms(2), of data]
  from c_rtest w show ?thesis by (intro conf.c_rtest[where m = m]) (simp_all add: loaded_def clean_def)
next
  case (c_rwrite m)
  then have m: "shm s = Some m" "0 \<le> cnt m" by (simp_all add: loaded_def)
  note w = waiting_step[OF c_rwrite(1) m(1) c_rwrite(3) _ m(2) assms(2), of data]
  from c_rwrite w show ?thesis by (intro conf.c_rwrite[where m = m]) (simp_all add: loaded_def clean_def)
next
  case (c_rrel m)
  then have m: "shm s = Some m" "0 \<le> cnt m" by (simp_all add: loaded_def)
  note w = waiting_step[OF c_rrel(1) m(1) c_rrel(3) _ m(2) assms(2), of data]
  from c_rrel w show ?thesis by (intro conf.c_rrel[where m = m]) (simp_all add: loaded_def clean_def)
next
  case (c_rend m)
  with assms(2) show ?thesis by (intro conf.c_rend[where m = m]) (auto simp: writer_step_def sem_ops conf_defs split: if_splits)
next
  case (c_rdone m)
  show ?thesis
  proof (cases "wpc s = W_test")
    case True
    with c_rdone assms(2) show ?thesis by (intro conf.c_rdone[where m = m]) (auto simp: writer_step_def conf_defs)
  next
    case False
    with c_rdone assms(2) show ?thesis by (intro c_wend) (auto simp: writer_step_def sem_ops conf_defs)
  qed
next
  case c_wend
  with assms(2) show ?thesis by (intro conf.c_wend) (auto simp: writer_step_def clean_def split: if_splits)
qed

lemma conf_reader:
  assumes "conf data s" and "reader_step s = Some s'"
  shows "conf data s'"
  using assms(1)
proof (cases rule: conf.cases)
  case c_start
  with assms(2) show ?thesis by (intro conf.c_start) (auto simp: reader_step_def clean_def)
next
  case c_init
  with assms(2) show ?thesis by (intro conf.c_init) (auto simp: reader_step_def clean_def)
next
  case (c_wturn m)
  with assms(2) show ?thesis by (intro conf.c_wturn[where m = m]) (auto simp: reader_step_def sem_ops conf_defs)
next
  case (c_wread m)
  with assms(2) show ?thesis by (intro conf.c_wread[where m = m]) (auto simp: reader_step_def sem_ops conf_defs)
next
  case (c_wrel m)
  with assms(2) show ?thesis by (intro conf.c_wrel[where m = m]) (auto simp: reader_step_def sem_ops conf_defs)
next
  case (c_rturn m)
  show ?thesis
  proof (cases "rpc s = R_reserve")
    case True
    with c_rturn assms(2) show ?thesis by (intro c_rtest[where m = m]) (auto simp: reader_step_def sem_ops conf_defs)
  next
    case False
    with c_rturn assms(2) show ?thesis by (intro conf.c_rturn[where m = m]) (auto simp: reader_step_def conf_defs)
  qed
next
  case (c_rtest m)
  show ?thesis
  proof (cases "cnt m = 0")
    case True
    with c_rtest assms(2) show ?thesis by (intro c_rend[where m = m]) (auto simp: reader_step_def conf_defs)
  next
    case False
    with c_rtest assms(2) show ?thesis by (intro c_rwrite[where m = m]) (auto simp: reader_step_def conf_defs)
  qed
next
  case (c_rwrite m)
  with assms(2) show ?thesis by (intro c_rrel[where m = m]) (auto simp: reader_step_def conf_defs)
next
  case (c_rrel m)
  with assms(2) show ?thesis by (intro c_wturn[where m = m]) (auto simp: reader_step_def sem_ops conf_defs)
next
  case (c_rend m)
  show ?thesis
  proof (cases "rpc s = R_detach")
    case True
    with c_rend assms(2) show ?thesis by (intro conf.c_rend[where m = m]) (auto simp: reader_step_def conf_defs)
  next
    case False
    with c_rend assms(2) show ?thesis by (intro c_rdone[where m = m]) (auto simp: reader_step_def sem_ops conf_defs)
  qed
qed (use assms(2) in \<open>simp_all add: reader_step_def\<close>)


section \<open>Runs\<close>

inductive xreach :: "string \<Rightarrow> xfr \<Rightarrow> bool" for data where
  start: "xreach data (xfr_start data)"
| step: "xreach data s \<Longrightarrow> xstep s s' \<Longrightarrow> xreach data s'"

lemma conf_step: "conf data s \<Longrightarrow> xstep s s' \<Longrightarrow> conf data s'"
  by (erule xstep.cases) (auto intro: conf_writer conf_reader)

lemma conf_reach: "xreach data s \<Longrightarrow> conf data s"
  by (induction rule: xreach.induct) (auto intro: conf_start conf_step)

lemma loaded_shm: "loaded data m s \<Longrightarrow> shm s = Some m"
  by (simp add: loaded_def)

text \<open>A reader that gave up has done so before its first turn.\<close>

definition r_early :: "xfr \<Rightarrow> bool" where
  "r_early s = (rpc s \<in> {R_semget, R_shmget, R_shmat, R_failed} \<longrightarrow> x_out s = [])"

lemma r_early_step:
  assumes "conf data s" and "r_early s" and "xstep s s'"
  shows "r_early s'"
  using assms(3)
proof cases
  case (writer chunk)
  then have "rpc s' = rpc s \<and> x_out s' = x_out s"
    by (auto simp: writer_step_def w_sem_def Let_def split: wpoint.splits semop_result.splits option.splits if_splits)
  with assms(2) show ?thesis by (simp add: r_early_def)
next
  case reader
  have "rpc s' \<noteq> R_failed" if "rpc s \<in> {R_reserve, R_test, R_write, R_release, R_detach, R_last}"
    using assms(1) reader that by (cases rule: conf.cases) (auto simp: reader_step_def sem_ops idle_def dest!: loaded_shm split: if_splits)
  with assms(2) reader show ?thesis
    by (cases "rpc s") (auto simp: r_early_def reader_step_def r_sem_def split: semop_result.splits option.splits if_splits)
qed

text \<open>What a step of the writer reads and changes; the reader likewise.\<close>

lemma writer_frame:
  assumes "writer_step chunk s = Some s'" and "wpc t = wpc s" "shm t = shm s" "sems t = sems s" "x_in t = x_in s"
  shows "rpc s' = rpc s \<and> x_out s' = x_out s \<and> (\<exists>t'. writer_step chunk t = Some t' \<and> wpc t' = wpc s' \<and> shm t' = shm s' \<and>
     sems t' = sems s' \<and> x_in t' = x_in s' \<and> rpc t' = rpc t \<and> x_out t' = x_out t)"
  using assms
  by (cases "wpc s") (auto simp: writer_step_def w_sem_def Let_def split: semop_result.splits option.splits if_splits)

lemma reader_frame:
  assumes "reader_step s = Some s'" and "rpc t = rpc s" "sems t = sems s" "x_out t = x_out s"
    and "shm t = shm s \<or> idle (rpc s) \<and> shm s \<noteq> None \<and> shm t \<noteq> None"
  shows "wpc s' = wpc s \<and> shm s' = shm s \<and> x_in s' = x_in s \<and> (\<exists>t'. reader_step t = Some t' \<and> rpc t' = rpc s' \<and>
     sems t' = sems s' \<and> x_out t' = x_out s' \<and> wpc t' = wpc t \<and> shm t' = shm t \<and> x_in t' = x_in t)"
  using assms
  by (cases "rpc s") (auto simp: reader_step_def r_sem_def idle_def split: semop_result.splits option.splits if_splits)

text \<open>A bound on the number of steps that are left.\<close>

definition w_rank :: "xfr \<Rightarrow> nat" where
  "w_rank s = (case wpc s of
     W_semget \<Rightarrow> 17 | W_initw \<Rightarrow> 16 | W_initr \<Rightarrow> 15 | W_shmget \<Rightarrow> 14 | W_shmat \<Rightarrow> 13 | W_reserve \<Rightarrow> 12 | W_read \<Rightarrow> 11
   | W_release \<Rightarrow> if map_option cnt (shm s) = Some 0 then 10 else 18
   | W_test \<Rightarrow> if map_option cnt (shm s) = Some 0 then 5 else 13
   | W_last \<Rightarrow> 4 | W_rmsem \<Rightarrow> 3 | W_detach \<Rightarrow> 2 | W_rmshm \<Rightarrow> 1 | W_done \<Rightarrow> 0 | W_failed \<Rightarrow> 0)"

definition r_rank :: "xfr \<Rightarrow> nat" where
  "r_rank s = (case rpc s of
     R_semget \<Rightarrow> 13 | R_shmget \<Rightarrow> 12 | R_shmat \<Rightarrow> 11 | R_reserve \<Rightarrow> 10 | R_test \<Rightarrow> 13 | R_write \<Rightarrow> 12 | R_release \<Rightarrow> 11
   | R_detach \<Rightarrow> 9 | R_last \<Rightarrow> 8 | R_done \<Rightarrow> 7 | R_failed \<Rightarrow> 0)"

definition xrank :: "xfr \<Rightarrow> nat" where
  "xrank s = 8 * length (x_in s) + w_rank s + r_rank s + 4 * (case sems s of None \<Rightarrow> 0 | Some vs \<Rightarrow> vs ! READ_SEM)"

lemmas rank_defs = xrank_def w_rank_def r_rank_def

lemma rank_writer:
  assumes "conf data s" and "writer_step chunk s = Some s'"
  shows "xrank s' < xrank s"
proof (cases "wpc s = W_read")
  case True
  define n where "n = read_len chunk (length (x_in s))"
  have n: "n \<le> length (x_in s)" "n = 0 \<longleftrightarrow> x_in s = []" using read_chunk[OF n_def] by auto
  have s': "s' = s\<lparr>shm := Some \<lparr>cnt = int n, buf = take n (x_in s)\<rparr>, x_in := drop n (x_in s), wpc := W_release\<rparr>"
    using assms(2) True by (simp add: writer_step_def n_def Let_def)
  show ?thesis using n True by (cases "n = 0") (simp_all add: s' rank_defs)
next
  case False
  with assms(2) show ?thesis
    by (cases "wpc s") (auto simp: writer_step_def w_sem_def rank_defs sem_ops split: if_splits option.splits)
qed

lemma rank_reader:
  assumes "conf data s" and "reader_step s = Some s'"
  shows "xrank s' < xrank s"
proof -
  have "wpc s' = wpc s" "shm s' = shm s" "x_in s' = x_in s" using reader_frame[OF assms(2) refl refl refl disjI1[OF refl]] by simp_all
  then have "w_rank s' = w_rank s" "length (x_in s') = length (x_in s)" unfolding w_rank_def by (simp_all only:)
  moreover have "r_rank s' + 4 * (case sems s' of None \<Rightarrow> 0 | Some vs \<Rightarrow> vs ! READ_SEM) <
      r_rank s + 4 * (case sems s of None \<Rightarrow> 0 | Some vs \<Rightarrow> vs ! READ_SEM)"
    using assms(2) by (cases "rpc s") (auto simp: reader_step_def r_sem_def r_rank_def sem_ops split: if_splits option.splits)
  ultimately show ?thesis unfolding xrank_def by linarith
qed


section \<open>Systems that run to an end\<close>

text \<open>A system with an invariant under which every step lowers a rank and only final states have no
  step: it cannot run for ever, and where it stops is final.\<close>

locale terminating =
  fixes step :: "'s \<Rightarrow> 's \<Rightarrow> bool" and I :: "'s \<Rightarrow> bool" and rank :: "'s \<Rightarrow> nat" and final :: "'s \<Rightarrow> bool"
  assumes keep: "I s \<Longrightarrow> step s t \<Longrightarrow> I t"
    and lower: "I s \<Longrightarrow> step s t \<Longrightarrow> rank t < rank s"
    and go_on: "I s \<Longrightarrow> \<not> final s \<Longrightarrow> \<exists>t. step s t"
begin

lemma keep_run: "step\<^sup>*\<^sup>* s t \<Longrightarrow> I s \<Longrightarrow> I t"
  by (induction rule: rtranclp_induct) (auto intro: keep)

lemma run_bounded: "(step ^^ n) s t \<Longrightarrow> I s \<Longrightarrow> n + rank t \<le> rank s"
proof (induction n arbitrary: t)
  case (Suc n)
  then obtain u where u: "(step ^^ n) s u" "step u t" by auto
  have "I u" using keep_run[OF _ Suc.prems(2)] u(1) by (metis relpowp_imp_rtranclp)
  from lower[OF this u(2)] Suc.IH[OF u(1) Suc.prems(2)] show ?case by simp
qed simp

lemma ends_final: "I s \<Longrightarrow> step\<^sup>*\<^sup>* s t \<Longrightarrow> (\<nexists>u. step t u) \<Longrightarrow> final t"
  using keep_run go_on by blast

lemma reaches_final: "I s \<Longrightarrow> \<exists>t. step\<^sup>*\<^sup>* s t \<and> final t"
proof (induction "rank s" arbitrary: s rule: less_induct)
  case less
  show ?case
  proof (cases "final s")
    case False
    then obtain u where u: "step s u" using go_on less.prems by blast
    then obtain t where "step\<^sup>*\<^sup>* u t" "final t" using less.hyps lower keep less.prems by blast
    with u show ?thesis by (meson converse_rtranclp_into_rtranclp)
  qed blast
qed

end

definition xfinal :: "xfr \<Rightarrow> bool" where
  "xfinal s = (wpc s = W_done \<and> rpc s = R_done
     \<or> rpc s = R_failed \<and> wpc s \<in> {W_reserve, W_last} \<and> sems s = Some [0, 1])"

lemma xstep_exists: "conf data s \<Longrightarrow> \<not> xfinal s \<Longrightarrow> \<exists>t. xstep s t"
proof -
  assume c: "conf data s" and nf: "\<not> xfinal s"
  have "writer_step 1 s \<noteq> None \<or> reader_step s \<noteq> None"
    using c
    by (cases rule: conf.cases)
      (use nf in \<open>auto simp: writer_step_def reader_step_def sem_ops idle_def waiting_def xfinal_def Let_def dest!: loaded_shm\<close>)
  then show ?thesis by (auto intro: xstep.intros)
qed

interpretation xfer: terminating xstep "conf data" xrank xfinal for data
proof
  show "conf data s \<Longrightarrow> xstep s t \<Longrightarrow> conf data t" for s t by (rule conf_step)
  show "conf data s \<Longrightarrow> xstep s t \<Longrightarrow> xrank t < xrank s" for s t
    by (erule xstep.cases) (auto intro: rank_writer rank_reader)
  show "conf data s \<Longrightarrow> \<not> xfinal s \<Longrightarrow> \<exists>t. xstep s t" for s by (rule xstep_exists)
qed

lemma reach_run: "xreach data s \<longleftrightarrow> xstep\<^sup>*\<^sup>* (xfr_start data) s"
proof
  show "xreach data s \<Longrightarrow> xstep\<^sup>*\<^sup>* (xfr_start data) s"
    by (induction rule: xreach.induct) auto
  show "xstep\<^sup>*\<^sup>* (xfr_start data) s \<Longrightarrow> xreach data s"
    by (induction rule: rtranclp_induct) (auto intro: xreach.intros)
qed

lemma reach_early: "xreach data s \<Longrightarrow> r_early s"
proof (induction rule: xreach.induct)
  case start
  show ?case by (simp add: r_early_def xfr_start_def)
next
  case (step s s')
  then show ?case using r_early_step conf_reach by blast
qed

text \<open>One schedule: the writer runs until it has to wait.\<close>

fun run_xfr :: "nat \<Rightarrow> xfr \<Rightarrow> xfr" where
  "run_xfr 0 s = s"
| "run_xfr (Suc n) s = (case writer_step XFR_BUF_SIZE s of
     Some s' \<Rightarrow> run_xfr n s'
   | None \<Rightarrow> (case reader_step s of Some s' \<Rightarrow> run_xfr n s' | None \<Rightarrow> s))"

lemma run_xfr_reach: "xreach data s \<Longrightarrow> xreach data (run_xfr n s)"
  by (induction n arbitrary: s) (auto split: option.split; blast intro: xreach.step xstep.intros)+

lemma run_xfr_ab:
  "wpc (run_xfr 40 (xfr_start ''ab'')) = W_done" "rpc (run_xfr 40 (xfr_start ''ab'')) = R_done"
  by code_simp+

section \<open>Failing system calls\<close>

text \<open>Any system call may also fail for reasons outside the model (limits, input and output errors, a
  partial \<open>write\<close>), which ends its process; a failing \<open>read\<close> leaves its \<open>-1\<close> in the segment.\<close>

inductive fstep :: "xfr \<Rightarrow> xfr \<Rightarrow> bool" where
  f_step: "xstep s s' \<Longrightarrow> fstep s s'"
| f_writer: "wpc s \<notin> {W_read, W_test, W_done} \<Longrightarrow> fstep s (s\<lparr>wpc := W_failed\<rparr>)"
| f_read: "wpc s = W_read \<Longrightarrow> shm s = Some m \<Longrightarrow> fstep s (s\<lparr>shm := Some (m\<lparr>cnt := - 1\<rparr>), wpc := W_failed\<rparr>)"
| f_reader: "rpc s \<notin> {R_test, R_done} \<Longrightarrow> fstep s (s\<lparr>rpc := R_failed\<rparr>)"
| f_write: "rpc s = R_write \<Longrightarrow> shm s = Some m \<Longrightarrow> int n < cnt m
    \<Longrightarrow> fstep s (s\<lparr>rpc := R_failed, x_out := x_out s @ take n (buf m)\<rparr>)"

inductive freach :: "string \<Rightarrow> xfr \<Rightarrow> bool" for data where
  f_start: "freach data (xfr_start data)"
| f_more: "freach data s \<Longrightarrow> fstep s s' \<Longrightarrow> freach data s'"

text \<open>A process that has failed is one that is never scheduled again: what the other one sees is a
  state of a run without failures.\<close>

definition starts_with :: "string \<Rightarrow> string \<Rightarrow> bool" where
  "starts_with data xs = (\<exists>rest. data = xs @ rest)"

definition shadows :: "string \<Rightarrow> xfr \<Rightarrow> xfr \<Rightarrow> bool" where
  "shadows data t s = (sems s = sems t \<and> x_in s = x_in t
     \<and> (wpc s = wpc t \<and> shm s = shm t \<or> wpc s = W_failed \<and> (shm s = shm t \<or> wpc t = W_read \<and> shm s \<noteq> None \<and> shm t \<noteq> None))
     \<and> (rpc s = rpc t \<and> x_out s = x_out t \<or> rpc s = R_failed \<and> rpc t \<noteq> R_done \<and> starts_with data (x_out s)))"

lemma shadows_writer:
  assumes "shadows data t s" and "writer_step chunk s = Some s'"
  shows "\<exists>t'. writer_step chunk t = Some t' \<and> shadows data t' s'"
proof -
  have "wpc s \<noteq> W_failed" using assms(2) by (auto simp: writer_step_def)
  then have w: "wpc t = wpc s" "shm t = shm s" "sems t = sems s" "x_in t = x_in s"
    using assms(1) by (auto simp: shadows_def)
  with writer_frame[OF assms(2) w] assms(1) show ?thesis by (auto simp: shadows_def)
qed

lemma shadows_reader:
  assumes "conf data t" and "shadows data t s" and "reader_step s = Some s'"
  shows "\<exists>t'. reader_step t = Some t' \<and> shadows data t' s'"
proof -
  have "rpc s \<noteq> R_failed" using assms(3) by (auto simp: reader_step_def)
  then have r: "rpc t = rpc s" "sems t = sems s" "x_out t = x_out s" "x_in t = x_in s"
    using assms(2) by (auto simp: shadows_def)
  have "shm s = shm t \<or> wpc s = W_failed \<and> wpc t = W_read \<and> idle (rpc t) \<and> shm s \<noteq> None \<and> shm t \<noteq> None"
    using assms(1,2) by (cases rule: conf.cases) (auto simp: shadows_def waiting_def)
  then have m: "shm t = shm s \<or> idle (rpc s) \<and> shm s \<noteq> None \<and> shm t \<noteq> None" using r(1) by auto
  from reader_frame[OF assms(3) r(1-3) m] obtain t' where f: "wpc s' = wpc s" "shm s' = shm s" "x_in s' = x_in s"
    "reader_step t = Some t'" "rpc t' = rpc s'" "sems t' = sems s'" "x_out t' = x_out s'" "wpc t' = wpc t" "shm t' = shm t" "x_in t' = x_in t"
    by blast
  with assms(2) show ?thesis by (auto simp: shadows_def)
qed

lemma shadows_fault:
  assumes "conf data t" and "shadows data t s" and "fstep s s'"
  shows "\<exists>t'. (t' = t \<or> xstep t t') \<and> shadows data t' s'"
  using assms(3)
proof cases
  case f_step
  then show ?thesis
  proof cases
    case (writer chunk)
    then obtain t' where "writer_step chunk t = Some t'" "shadows data t' s'" using shadows_writer[OF assms(2)] by blast
    then show ?thesis by (intro exI[of _ t']) (auto intro: xstep.writer)
  next
    case reader
    then obtain t' where "reader_step t = Some t'" "shadows data t' s'" using shadows_reader[OF assms(1,2)] by blast
    then show ?thesis by (intro exI[of _ t']) (auto intro: xstep.reader)
  qed
next
  case f_writer
  with assms(2) have "shadows data t s'" by (auto simp: shadows_def)
  then show ?thesis by blast
next
  case (f_read m)
  with assms(2) have "shadows data t s'" by (auto simp: shadows_def)
  then show ?thesis by blast
next
  case f_reader
  moreover have "starts_with data (x_out t)" unfolding starts_with_def
    using assms(1) by (cases rule: conf.cases) (auto simp: clean_def loaded_def)
  ultimately have "shadows data t s'" using assms(2) by (auto simp: shadows_def)
  then show ?thesis by blast
next
  case (f_write m n)
  then have t: "rpc t = R_write" "x_out s = x_out t" using assms(2) by (auto simp: shadows_def)
  have "loaded data m t" using assms(1) t(1)
  proof (cases rule: conf.cases)
    case (c_rwrite m')
    have "wpc t \<noteq> W_read" using c_rwrite(3) by (auto simp: waiting_def)
    then have "shm s = shm t" using assms(2) by (auto simp: shadows_def)
    then have "m' = m" using f_write(3) loaded_shm[OF c_rwrite(2)] by simp
    with c_rwrite(2) show ?thesis by simp
  qed (auto simp: idle_def)
  then have "data = (x_out t @ take n (buf m)) @ drop n (buf m) @ x_in t" by (auto simp: loaded_def)
  then have "starts_with data (x_out t @ take n (buf m))" unfolding starts_with_def by blast
  then have "shadows data t s'" using f_write t assms(2) by (auto simp: shadows_def)
  then show ?thesis by blast
qed

lemma freach_shadows: "freach data s \<Longrightarrow> \<exists>t. xreach data t \<and> shadows data t s"
proof (induction rule: freach.induct)
  case f_start
  then show ?case by (intro exI[of _ "xfr_start data"]) (auto simp: shadows_def intro: xreach.start)
next
  case (f_more s s')
  then obtain t where t: "xreach data t" "shadows data t s" by blast
  then obtain t' where "t' = t \<or> xstep t t'" "shadows data t' s'"
    using shadows_fault[OF conf_reach _ f_more.hyps(2)] by blast
  with t(1) show ?case using xreach.step by blast
qed

lemma xreach_freach: "xreach data s \<Longrightarrow> freach data s"
  by (induction rule: xreach.induct) (auto intro: freach.intros fstep.f_step)

section \<open>Properties\<close>

text \<open>C10: The transfer is safe under every interleaving of the two programs, every size of the reads and
  every failure of a system call: what the reader has written is a prefix of the writer's input;
  the two are never both in their critical sections; and when the writer ends successfully, so has
  the reader, and everything has been copied. If no call fails from outside, none fails at all,
  except that a reader started before the writer has set up may give up, having written nothing; and
  at the end both have counted all the bytes and the semaphores and the segment are gone.\<close>
theorem xfr_safe:
  assumes "freach data s"
  shows "(\<exists>rest. data = x_out s @ rest)
    \<and> \<not> (wpc s \<in> {W_read, W_release} \<and> rpc s \<in> {R_test, R_write, R_release})
    \<and> (wpc s = W_done \<longrightarrow> rpc s = R_done \<and> x_out s = data)
    \<and> (xreach data s \<longrightarrow> wpc s \<noteq> W_failed \<and> (rpc s = R_failed \<longrightarrow> x_out s = [])
         \<and> (wpc s = W_done \<longrightarrow> w_bytes s = length data \<and> r_bytes s = length data \<and> sems s = None \<and> shm s = None))"
proof -
  obtain t where t: "xreach data t" "shadows data t s" using freach_shadows[OF assms] by blast
  have c: "conf data t" by (rule conf_reach[OF t(1)])
  have p: "\<exists>rest. data = x_out t @ rest" using c by (cases rule: conf.cases) (auto simp: clean_def loaded_def)
  have excl: "\<not> (wpc t \<in> {W_read, W_release} \<and> rpc t \<in> {R_test, R_write, R_release})"
    using c by (cases rule: conf.cases; auto simp: idle_def waiting_def)+
  have fin: "rpc t = R_done \<and> x_out t = data" if "wpc t = W_done"
    using c that by (cases rule: conf.cases) (auto simp: waiting_def clean_def)
  have s: "(\<exists>rest. data = x_out s @ rest) \<and> \<not> (wpc s \<in> {W_read, W_release} \<and> rpc s \<in> {R_test, R_write, R_release})
      \<and> (wpc s = W_done \<longrightarrow> rpc s = R_done \<and> x_out s = data)"
    using t(2) p excl fin unfolding shadows_def starts_with_def by auto
  have "wpc s \<noteq> W_failed \<and> (wpc s = W_done \<longrightarrow> w_bytes s = length data \<and> r_bytes s = length data \<and> sems s = None \<and> shm s = None)"
    if "xreach data s"
    using conf_reach[OF that] by (cases rule: conf.cases) (auto simp: waiting_def clean_def)
  with s reach_early[of data s] show ?thesis by (simp add: r_early_def)
qed

theorem xfr_safe_witness: "\<exists>s. xreach ''ab'' s \<and> wpc s = W_done \<and> x_out s = ''ab'' \<and> sems s = None"
proof -
  have r: "xreach ''ab'' (run_xfr 40 (xfr_start ''ab''))" by (rule run_xfr_reach[OF xreach.start])
  from xfr_safe[OF xreach_freach[OF r]] show ?thesis using r run_xfr_ab by blast
qed

text \<open>C11: The transfer comes to an end: the two programs together make at most \<open>8 * n + 30\<close> steps for \<open>n\<close>
  bytes of input, and where neither can go on, either both are done and everything has been copied,
  or the reader gave up at its start and the writer waits for ever with its first block.\<close>
theorem xfr_ends:
  "(\<forall>n t. (xstep ^^ n) (xfr_start data) t \<longrightarrow> n \<le> 8 * length data + 30)
   \<and> (\<forall>t. xreach data t \<and> (\<nexists>u. xstep t u) \<longrightarrow>
        wpc t = W_done \<and> rpc t = R_done \<and> x_out t = data
        \<or> rpc t = R_failed \<and> x_out t = [] \<and> wpc t \<in> {W_reserve, W_last})"
proof (intro conjI allI impI)
  fix n t assume "(xstep ^^ n) (xfr_start data) t"
  from xfer.run_bounded[OF this conf_start] show "n \<le> 8 * length data + 30"
    by (simp add: xrank_def w_rank_def r_rank_def xfr_start_def)
next
  fix t assume t: "xreach data t \<and> (\<nexists>u. xstep t u)"
  then have "xfinal t" using xfer.ends_final[OF conf_start] reach_run by blast
  moreover have "x_out t = data" if "wpc t = W_done"
    using conf_reach[of data t] t that by (auto elim!: conf.cases simp: waiting_def clean_def)
  ultimately show "wpc t = W_done \<and> rpc t = R_done \<and> x_out t = data
        \<or> rpc t = R_failed \<and> x_out t = [] \<and> wpc t \<in> {W_reserve, W_last}"
    using reach_early[of data t] t by (auto simp: xfinal_def r_early_def)
qed

theorem xfr_ends_witness:
  "\<exists>t. xreach ''ab'' t \<and> (\<nexists>u. xstep t u) \<and> x_out t = ''ab''"
proof -
  let ?t = "run_xfr 40 (xfr_start ''ab'')"
  have r: "xreach ''ab'' ?t" by (rule run_xfr_reach[OF xreach.start])
  have n: "\<nexists>u. xstep ?t u"
    by (auto elim!: xstep.cases simp: writer_step_def reader_step_def run_xfr_ab simp del: run_xfr.simps)
  have "x_out ?t = ''ab''"
    using conjunct2[OF xfr_ends[of "''ab''"], rule_format, OF conjI[OF r n]] run_xfr_ab by simp
  with r n show ?thesis by blast
qed

end
