(* ===== verification/Prod_Condvar.thy ===== *)
theory Prod_Condvar
  imports Num_Args
begin

text \<open>
  \<open>threads/prod_condvar.c\<close>: threads that produce units and a main thread that consumes them, with a mutex and
  a condition variable. A thread takes one step from one of its program points to the next, and the threads are
  interleaved arbitrarily; each access to shared variables and each call of the threads library is a step.
\<close>

section \<open>The state\<close>

text \<open>The points of a producer: the head of its loop, in \<open>sleep\<close>, before \<open>lock\<close>, before the addition, before
  \<open>unlock\<close>, before \<open>signal\<close>, and its end.\<close>

datatype producer_pc = PLoop | PSleep | PLock | PAdd | PUnlock | PSignal | PReturned

record producer =
  p_pc :: producer_pc
  p_j :: int
  p_cnt :: int

text \<open>The points of the main thread: the loop that creates threads, before \<open>lock\<close>, the test of the inner loop, inside
  \<open>wait\<close> until it is woken, inside \<open>wait\<close> until it has the mutex again, the loop that consumes, before \<open>unlock\<close>, the
  test of \<open>done\<close>, and its end.\<close>

datatype main_pc = MCreate | MLock | MTest | MWaiting | MRelock | MConsume | MUnlock | MDone | MEnded

datatype thread = Main | Producer nat

datatype ending_kind = Running | Success | Failure | Overflow

record cv_state =
  mtx :: "thread option"
  avail :: int
  totRequired :: int
  numConsumed :: int
  printed :: "int list"
  is_done :: bool
  m_pc :: main_pc
  m_args :: "string list"
  producers :: "producer list"
  ended :: ending_kind

definition start :: "string list \<Rightarrow> cv_state" where
  "start args = \<lparr>mtx = None, avail = 0, totRequired = 0, numConsumed = 0, printed = [], is_done = False,
     m_pc = MCreate, m_args = args, producers = [], ended = Running\<rparr>"

section \<open>The steps\<close>

definition set_producer :: "nat \<Rightarrow> producer \<Rightarrow> cv_state \<Rightarrow> cv_state" where
  "set_producer i p s = s\<lparr>producers := (producers s)[i := p]\<rparr>"

text \<open>The step of a producer, \<open>None\<close> while it is blocked and at its end. A signal wakes the main thread if it waits.\<close>

definition producer_step :: "nat \<Rightarrow> cv_state \<Rightarrow> cv_state option" where
  "producer_step i s = (let p = producers s ! i in case p_pc p of
       PLoop \<Rightarrow> Some (set_producer i (p\<lparr>p_pc := if p_j p < p_cnt p then PSleep else PReturned\<rparr>) s)
     | PSleep \<Rightarrow> Some (set_producer i (p\<lparr>p_pc := PLock\<rparr>) s)
     | PLock \<Rightarrow> if mtx s = None then Some (set_producer i (p\<lparr>p_pc := PAdd\<rparr>) (s\<lparr>mtx := Some (Producer i)\<rparr>)) else None
     | PAdd \<Rightarrow>
         if avail s = INT_MAX then Some (s\<lparr>ended := Overflow\<rparr>)
         else Some (set_producer i (p\<lparr>p_pc := PUnlock\<rparr>) (s\<lparr>avail := avail s + 1\<rparr>))
     | PUnlock \<Rightarrow> Some (set_producer i (p\<lparr>p_pc := PSignal\<rparr>) (s\<lparr>mtx := None\<rparr>))
     | PSignal \<Rightarrow> Some (set_producer i (p\<lparr>p_pc := PLoop, p_j := p_j p + 1\<rparr>)
         (s\<lparr>m_pc := if m_pc s = MWaiting then MRelock else m_pc s\<rparr>))
     | PReturned \<Rightarrow> None)"

text \<open>The step of the main thread. \<open>wait\<close> releases the mutex and begins to wait in one step.\<close>

definition main_step :: "cv_state \<Rightarrow> cv_state option" where
  "main_step s = (case m_pc s of
       MCreate \<Rightarrow> (case m_args s of
           [] \<Rightarrow> Some (s\<lparr>m_pc := MLock\<rparr>)
         | a # as \<Rightarrow>
             if totRequired s + atoi a \<notin> {INT_MIN..INT_MAX} then Some (s\<lparr>ended := Overflow\<rparr>)
             else Some (s\<lparr>totRequired := totRequired s + atoi a, m_args := as,
                    producers := producers s @ [\<lparr>p_pc = PLoop, p_j = 0, p_cnt = atoi a\<rparr>]\<rparr>))
     | MLock \<Rightarrow> if mtx s = None then Some (s\<lparr>mtx := Some Main, m_pc := MTest\<rparr>) else None
     | MTest \<Rightarrow> Some (if avail s = 0 then s\<lparr>mtx := None, m_pc := MWaiting\<rparr> else s\<lparr>m_pc := MConsume\<rparr>)
     | MWaiting \<Rightarrow> None
     | MRelock \<Rightarrow> if mtx s = None then Some (s\<lparr>mtx := Some Main, m_pc := MTest\<rparr>) else None
     | MConsume \<Rightarrow>
         if avail s > 0
         then if numConsumed s = INT_MAX then Some (s\<lparr>ended := Overflow\<rparr>)
              else Some (s\<lparr>numConsumed := numConsumed s + 1, avail := avail s - 1, printed := printed s @ [numConsumed s + 1],
                     is_done := (numConsumed s + 1 \<ge> totRequired s)\<rparr>)
         else Some (s\<lparr>m_pc := MUnlock\<rparr>)
     | MUnlock \<Rightarrow> Some (s\<lparr>mtx := None, m_pc := MDone\<rparr>)
     | MDone \<Rightarrow> Some (if is_done s then s\<lparr>ended := Success, m_pc := MEnded\<rparr> else s\<lparr>m_pc := MLock\<rparr>)
     | MEnded \<Rightarrow> None)"

text \<open>A step of the program while it runs.\<close>

inductive step :: "cv_state \<Rightarrow> cv_state \<Rightarrow> bool" where
  main: "ended s = Running \<Longrightarrow> main_step s = Some s' \<Longrightarrow> step s s'"
| producer: "ended s = Running \<Longrightarrow> i < length (producers s) \<Longrightarrow> producer_step i s = Some s' \<Longrightarrow> step s s'"

text \<open>What else may happen: a wait that ends without a signal, and a call of the threads library that fails, after
  which \<open>errExitEN\<close> ends the process.\<close>

definition calls_library :: "cv_state \<Rightarrow> bool" where
  "calls_library s =
     (m_pc s \<in> {MLock, MWaiting, MRelock, MUnlock} \<or> m_pc s = MCreate \<and> m_args s \<noteq> []
      \<or> (\<exists>p \<in> set (producers s). p_pc p \<in> {PLock, PUnlock, PSignal}))"

inductive disturbance :: "cv_state \<Rightarrow> cv_state \<Rightarrow> bool" where
  spurious: "ended s = Running \<Longrightarrow> m_pc s = MWaiting \<Longrightarrow> disturbance s (s\<lparr>m_pc := MRelock\<rparr>)"
| failed_call: "ended s = Running \<Longrightarrow> calls_library s \<Longrightarrow> disturbance s (s\<lparr>ended := Failure\<rparr>)"

inductive reachable :: "string list \<Rightarrow> cv_state \<Rightarrow> bool" for args where
  start: "reachable args (start args)"
| step: "reachable args s \<Longrightarrow> step s s' \<Longrightarrow> reachable args s'"
| disturbance: "reachable args s \<Longrightarrow> disturbance s s' \<Longrightarrow> reachable args s'"

section \<open>The invariant\<close>

text \<open>The units a producer has added, and those that it is asked for.\<close>

definition made :: "producer \<Rightarrow> int" where
  "made p = p_j p + (if p_pc p \<in> {PUnlock, PSignal} then 1 else 0)"

definition total :: "(producer \<Rightarrow> int) \<Rightarrow> cv_state \<Rightarrow> int" where
  "total f s = sum_list (map f (producers s))"

text \<open>Where the threads hold the mutex.\<close>

definition mutex_ok :: "cv_state \<Rightarrow> bool" where
  "mutex_ok s =
     ((mtx s = Some Main \<longleftrightarrow> m_pc s \<in> {MTest, MConsume, MUnlock})
    \<and> (\<forall>i < length (producers s). mtx s = Some (Producer i) \<longleftrightarrow> p_pc (producers s ! i) \<in> {PAdd, PUnlock})
    \<and> (\<forall>i. mtx s = Some (Producer i) \<longrightarrow> i < length (producers s)))"

definition producer_ok :: "producer \<Rightarrow> bool" where
  "producer_ok p =
     (0 \<le> p_j p \<and> p_j p \<le> p_cnt p
    \<and> (p_pc p = PReturned \<longrightarrow> p_j p = p_cnt p) \<and> (p_pc p \<notin> {PLoop, PReturned} \<longrightarrow> p_j p < p_cnt p))"

text \<open>The units: none is lost, none counted twice. No signal is missed: if there are units while the main thread waits,
  a producer is about to send a signal.\<close>

definition units_ok :: "cv_state \<Rightarrow> bool" where
  "units_ok s =
     (0 \<le> avail s \<and> 0 \<le> numConsumed s \<and> numConsumed s + avail s = total made s
    \<and> printed s = map int [1..<Suc (nat (numConsumed s))]
    \<and> (m_pc s = MWaiting \<longrightarrow> 0 < avail s \<longrightarrow> (\<exists>p \<in> set (producers s). p_pc p \<in> {PUnlock, PSignal})))"

definition counts_ok :: "int \<Rightarrow> cv_state \<Rightarrow> bool" where
  "counts_ok n s =
     (totRequired s = total p_cnt s \<and> totRequired s + sum_list (map atoi (m_args s)) = n
    \<and> (m_pc s \<noteq> MCreate \<longrightarrow> m_args s = []) \<and> (m_pc s = MCreate \<longrightarrow> numConsumed s = 0)
    \<and> is_done s = (0 < numConsumed s \<and> totRequired s \<le> numConsumed s)
    \<and> (m_pc s \<in> {MLock, MTest, MWaiting, MRelock} \<longrightarrow> \<not> is_done s)
    \<and> (m_pc s = MEnded \<longleftrightarrow> ended s = Success) \<and> (m_pc s = MEnded \<longrightarrow> is_done s))"

definition inv :: "int \<Rightarrow> cv_state \<Rightarrow> bool" where
  "inv n s = (mutex_ok s \<and> list_all producer_ok (producers s) \<and> units_ok s \<and> counts_ok n s
     \<and> list_all (\<lambda>a. 0 \<le> atoi a) (m_args s) \<and> ended s \<noteq> Overflow)"

lemma total_update: "i < length (producers s) \<Longrightarrow> total f (set_producer i p s) = total f s + f p - f (producers s ! i)"
proof -
  have "i < length ps \<Longrightarrow> sum_list (map f (ps[i := p])) = sum_list (map f ps) + f p - f (ps ! i)" for ps :: "producer list"
    by (induction ps arbitrary: i) (auto split: nat.split)
  then show "i < length (producers s) \<Longrightarrow> total f (set_producer i p s) = total f s + f p - f (producers s ! i)"
    by (simp add: total_def set_producer_def)
qed

lemma made_le: "producer_ok p \<Longrightarrow> made p \<le> p_cnt p"
  by (auto simp: producer_ok_def made_def)

lemma made_nonneg: "producer_ok p \<Longrightarrow> 0 \<le> made p"
  by (auto simp: producer_ok_def made_def)

lemma total_made_le:
  assumes "list_all producer_ok (producers s)"
  shows "total made s \<le> total p_cnt s" and "p \<in> set (producers s) \<Longrightarrow> made p < p_cnt p \<Longrightarrow> total made s < total p_cnt s"
proof -
  have le: "list_all producer_ok ps \<Longrightarrow> sum_list (map made ps) \<le> sum_list (map p_cnt ps)" for ps
    by (induction ps) (auto dest: made_le intro: add_mono)
  then show "total made s \<le> total p_cnt s" using assms by (simp add: total_def)
  have "list_all producer_ok ps \<Longrightarrow> p \<in> set ps \<Longrightarrow> made p < p_cnt p \<Longrightarrow> sum_list (map made ps) < sum_list (map p_cnt ps)" for ps
    by (induction ps) (auto dest: made_le le intro: add_less_le_mono add_le_less_mono)
  then show "p \<in> set (producers s) \<Longrightarrow> made p < p_cnt p \<Longrightarrow> total made s < total p_cnt s" using assms by (simp add: total_def)
qed


lemma set_producer_sel [simp]:
  "mtx (set_producer i p s) = mtx s" "avail (set_producer i p s) = avail s" "totRequired (set_producer i p s) = totRequired s"
  "numConsumed (set_producer i p s) = numConsumed s" "printed (set_producer i p s) = printed s" "is_done (set_producer i p s) = is_done s"
  "m_pc (set_producer i p s) = m_pc s" "m_args (set_producer i p s) = m_args s" "ended (set_producer i p s) = ended s"
  "producers (set_producer i p s) = (producers s)[i := p]"
  by (simp_all add: set_producer_def)

lemma total_cong [simp]:
  "total f (s\<lparr>mtx := a\<rparr>) = total f s" "total f (s\<lparr>avail := b\<rparr>) = total f s" "total f (s\<lparr>m_pc := c\<rparr>) = total f s"
  "total f (s\<lparr>numConsumed := d\<rparr>) = total f s" "total f (s\<lparr>printed := e\<rparr>) = total f s" "total f (s\<lparr>is_done := g\<rparr>) = total f s"
  "total f (s\<lparr>ended := h\<rparr>) = total f s"
  by (simp_all add: total_def)

text \<open>What a step of a producer does to each part of the invariant.\<close>

lemma producer_update:
  assumes I: "inv n s" and i: "i < length (producers s)" and p: "p = producers s ! i"
    and q: "producer_ok q" "p_cnt q = p_cnt p" "made q = made p + d"
    and t: "producers t = producers s" "avail t = avail s + d" "numConsumed t = numConsumed s" "totRequired t = totRequired s"
      "printed t = printed s" "is_done t = is_done s" "m_args t = m_args s" "ended t = ended s" "0 \<le> d"
    and m: "m_pc t = m_pc s \<or> m_pc s = MWaiting \<and> m_pc t = MRelock"
    and mu: "mutex_ok (set_producer i q t)"
    and wake: "m_pc t = MWaiting \<Longrightarrow> 0 < avail t \<Longrightarrow> p_pc p \<in> {PUnlock, PSignal} \<or> 0 < d \<Longrightarrow> p_pc q \<in> {PUnlock, PSignal}"
  shows "inv n (set_producer i q t)"
proof -
  have ti: "i < length (producers t)" using i t by simp
  have tot: "total made (set_producer i q t) = total made s + d" "total p_cnt (set_producer i q t) = total p_cnt s"
    using total_update[OF ti] q p t by (simp_all add: total_def)
  have "list_all producer_ok ((producers s)[i := q])"
    using I q by (auto simp: inv_def list_all_iff dest!: set_update_subset_insert[THEN subsetD])
  moreover have "units_ok (set_producer i q t)"
  proof -
    have "\<exists>r \<in> set ((producers s)[i := q]). p_pc r \<in> {PUnlock, PSignal}" if w: "m_pc t = MWaiting" "0 < avail t"
    proof (cases "p_pc q \<in> {PUnlock, PSignal}")
      case True
      then show ?thesis using i by (auto intro: set_update_memI)
    next
      case False
      then have "\<not> 0 < d" and no: "p_pc p \<notin> {PUnlock, PSignal}" using wake[OF w] by blast+
      then have "d = 0" using t(9) by simp
      then obtain j where j: "j < length (producers s)" "p_pc (producers s ! j) \<in> {PUnlock, PSignal}"
        using I w t(2) m \<open>d = 0\<close> unfolding inv_def units_ok_def by (auto simp: in_set_conv_nth)
      then have "j \<noteq> i" using no p by auto
      then show ?thesis using j by (metis nth_list_update_neq length_list_update nth_mem)
    qed
    then show ?thesis using I tot t by (auto simp: inv_def units_ok_def)
  qed
  moreover have "counts_ok n s" using I by (simp add: inv_def)
  then have "counts_ok n (set_producer i q t)" using m unfolding counts_ok_def
    by (elim disjE conjE) (simp_all add: t(2-8) tot(2))
  ultimately show ?thesis using I mu t by (simp add: inv_def)
qed

lemma producer_step_inv:
  assumes I: "inv n s" and run: "ended s = Running" and i: "i < length (producers s)" and st: "producer_step i s = Some s'" and n: "n \<le> INT_MAX"
  shows "inv n s'"
proof -
  let ?p = "producers s ! i"
  have ok: "producer_ok ?p" and mu: "mutex_ok s" using I i by (auto simp: inv_def list_all_length)
  note facts = I i refl
  show ?thesis
  proof (cases "p_pc ?p")
    case PLoop
    have "inv n (set_producer i (?p\<lparr>p_pc := if p_j ?p < p_cnt ?p then PSleep else PReturned\<rparr>) s)"
      by (rule producer_update[OF facts, where d = 0])
        (use ok mu i PLoop in \<open>auto simp: producer_ok_def made_def mutex_ok_def nth_list_update\<close>)
    then show ?thesis using st PLoop by (simp add: producer_step_def Let_def)
  next
    case PSleep
    have "inv n (set_producer i (?p\<lparr>p_pc := PLock\<rparr>) s)"
      by (rule producer_update[OF facts, where d = 0])
        (use ok mu i PSleep in \<open>auto simp: producer_ok_def made_def mutex_ok_def nth_list_update\<close>)
    then show ?thesis using st PSleep by (simp add: producer_step_def)
  next
    case PLock
    have free: "mtx s = None" using st PLock by (simp add: producer_step_def split: if_splits)
    have "inv n (set_producer i (?p\<lparr>p_pc := PAdd\<rparr>) (s\<lparr>mtx := Some (Producer i)\<rparr>))"
      by (rule producer_update[OF facts, where d = 0])
        (use ok mu i PLock free in \<open>auto simp: producer_ok_def made_def mutex_ok_def nth_list_update\<close>)
    then show ?thesis using st PLock free by (simp add: producer_step_def)
  next
    case PAdd
    have less: "made ?p < p_cnt ?p" using ok PAdd by (simp add: producer_ok_def made_def)
    have "avail s < n"
    proof -
      have "total made s < total p_cnt s" using total_made_le(2)[OF _ nth_mem[OF i] less] I by (simp add: inv_def)
      moreover have "0 \<le> sum_list (map atoi (m_args s))" using I by (intro sum_list_nonneg) (auto simp: inv_def list_all_iff)
      ultimately show ?thesis using I by (simp add: inv_def units_ok_def counts_ok_def)
    qed
    then have max: "avail s \<noteq> INT_MAX" using n by simp
    have "inv n (set_producer i (?p\<lparr>p_pc := PUnlock\<rparr>) (s\<lparr>avail := avail s + 1\<rparr>))"
      by (rule producer_update[OF facts, where d = 1])
        (use ok mu i PAdd in \<open>auto simp: producer_ok_def made_def mutex_ok_def nth_list_update\<close>)
    then show ?thesis using st PAdd max by (simp add: producer_step_def Let_def)
  next
    case PUnlock
    then have "mtx s = Some (Producer i)" using mu i by (auto simp: mutex_ok_def)
    then have other: "p_pc (producers s ! j) \<notin> {PAdd, PUnlock}" if "j < length (producers s)" "j \<noteq> i" for j
      using mu that by (auto simp: mutex_ok_def)
    let ?t = "set_producer i (?p\<lparr>p_pc := PSignal\<rparr>) (s\<lparr>mtx := None\<rparr>)"
    have "p_pc (producers ?t ! j) \<notin> {PAdd, PUnlock}" if "j < length (producers ?t)" for j
      using other that by (cases "j = i") (simp_all add: nth_list_update)
    moreover have "m_pc s \<notin> {MTest, MConsume, MUnlock}" using mu \<open>mtx s = Some (Producer i)\<close> by (simp add: mutex_ok_def)
    ultimately have "mutex_ok ?t" by (simp add: mutex_ok_def)
    then have "inv n ?t"
      by (intro producer_update[OF facts, where d = 0])
        (use ok PUnlock in \<open>auto simp: producer_ok_def made_def\<close>)
    then show ?thesis using st PUnlock by (simp add: producer_step_def)
  next
    case PSignal
    have "inv n (set_producer i (?p\<lparr>p_pc := PLoop, p_j := p_j ?p + 1\<rparr>) (s\<lparr>m_pc := if m_pc s = MWaiting then MRelock else m_pc s\<rparr>))"
      by (rule producer_update[OF facts, where d = 0])
        (use ok mu i PSignal in \<open>auto simp: producer_ok_def made_def mutex_ok_def nth_list_update split: if_splits\<close>)
    then show ?thesis using st PSignal by (simp add: producer_step_def Let_def)
  next
    case PReturned
    then show ?thesis using st by (simp add: producer_step_def)
  qed
qed

lemma consumed_less:
  assumes I: "inv n s" and "0 < avail s" and "m_pc s \<noteq> MCreate"
  shows "numConsumed s < n"
proof -
  have "numConsumed s + avail s \<le> totRequired s" "totRequired s = n"
    using I assms(3) total_made_le(1)[of s] by (auto simp: inv_def units_ok_def counts_ok_def)
  then show ?thesis using assms(2) by simp
qed

lemma create_inv:
  assumes I: "inv n s" and run: "ended s = Running" and n: "n \<le> INT_MAX" and pc: "m_pc s = MCreate" and a: "m_args s = a # as"
  shows "INT_MIN \<le> totRequired s + atoi a \<and> totRequired s + atoi a \<le> INT_MAX
    \<and> inv n (s\<lparr>totRequired := totRequired s + atoi a, m_args := as, producers := producers s @ [\<lparr>p_pc = PLoop, p_j = 0, p_cnt = atoi a\<rparr>]\<rparr>)"
proof -
  let ?t = "s\<lparr>totRequired := totRequired s + atoi a, m_args := as, producers := producers s @ [\<lparr>p_pc = PLoop, p_j = 0, p_cnt = atoi a\<rparr>]\<rparr>"
  have pos: "0 \<le> atoi a" "0 \<le> sum_list (map atoi as)" "0 \<le> totRequired s"
    using I a total_made_le(1)[of s] by (auto simp: inv_def list_all_iff counts_ok_def units_ok_def intro!: sum_list_nonneg)
  have sum: "totRequired s + atoi a + sum_list (map atoi as) = n" using I a by (simp add: inv_def counts_ok_def)
  have mu: "mutex_ok s" using I by (simp add: inv_def)
  have "mutex_ok ?t" unfolding mutex_ok_def
  proof (intro conjI allI impI, goal_cases)
    case (2 i)
    have "mtx s \<noteq> Some (Producer (length (producers s)))" using mu by (auto simp: mutex_ok_def)
    then show ?case using 2 mu by (cases "i = length (producers s)") (auto simp: mutex_ok_def nth_append)
  qed (use mu in \<open>auto simp: mutex_ok_def intro: less_SucI\<close>)
  moreover have "units_ok ?t" using I pc by (auto simp: inv_def units_ok_def total_def made_def)
  moreover have "counts_ok n ?t" using I pc run sum by (simp add: inv_def counts_ok_def total_def)
  ultimately show ?thesis using I a pos sum n by (auto simp: inv_def producer_ok_def)
qed

text \<open>The steps of the main thread after that touch no producer.\<close>

lemma main_update:
  assumes "inv n s" and "producers t = producers s" and "m_args t = m_args s" and "ended t \<noteq> Overflow"
    and "mutex_ok t" and "units_ok t" and "counts_ok n t"
  shows "inv n t"
  using assms by (simp add: inv_def)

text \<open>The invariant without the parts that speak about each producer.\<close>

lemmas main_parts = mutex_ok_def units_ok_def counts_ok_def

lemma main_step_inv:
  assumes I: "inv n s" and run: "ended s = Running" and st: "main_step s = Some s'" and n: "n \<le> INT_MAX"
  shows "inv n s'"
proof -
  have parts: "mutex_ok s" "units_ok s" "counts_ok n s" using I by (simp_all add: inv_def)
  show ?thesis
  proof (cases "m_pc s")
    case MCreate
    show ?thesis
    proof (cases "m_args s")
      case Nil
      then have s': "s' = s\<lparr>m_pc := MLock\<rparr>" using st MCreate by (simp add: main_step_def)
      show ?thesis unfolding s' by (rule main_update[OF I]) (use parts MCreate run Nil in \<open>auto simp: main_parts simp del: upt_Suc\<close>)
    next
      case (Cons a as)
      then show ?thesis using st MCreate create_inv[OF I run n MCreate Cons] by (simp add: main_step_def)
    qed
  next
    case MConsume
    show ?thesis
    proof (cases "0 < avail s")
      case True
      have "numConsumed s \<noteq> INT_MAX" using consumed_less[OF I True] MConsume n by simp
      then have s': "s' = s\<lparr>numConsumed := numConsumed s + 1, avail := avail s - 1, printed := printed s @ [numConsumed s + 1],
          is_done := (numConsumed s + 1 \<ge> totRequired s)\<rparr>" using st True MConsume by (simp add: main_step_def)
      have nn: "0 \<le> numConsumed s" using parts(2) by (simp add: units_ok_def)
      then have "map int [1..<Suc (nat (numConsumed s + 1))] = map int [1..<Suc (nat (numConsumed s))] @ [numConsumed s + 1]"
        by (simp add: nat_add_distrib)
      then show ?thesis unfolding s'
        by (intro main_update[OF I]) (use parts MConsume run True nn in \<open>auto simp: main_parts simp del: upt_Suc\<close>)
    next
      case False
      then have s': "s' = s\<lparr>m_pc := MUnlock\<rparr>" using st MConsume by (simp add: main_step_def)
      show ?thesis unfolding s' by (rule main_update[OF I]) (use parts MConsume run in \<open>auto simp: main_parts simp del: upt_Suc\<close>)
    qed
  next
    case MTest
    show ?thesis
    proof (cases "avail s = 0")
      case True
      then have s': "s' = s\<lparr>mtx := None, m_pc := MWaiting\<rparr>" using st MTest by (simp add: main_step_def)
      show ?thesis unfolding s' by (rule main_update[OF I]) (use parts MTest run True in \<open>auto simp: main_parts simp del: upt_Suc\<close>)
    next
      case False
      then have s': "s' = s\<lparr>m_pc := MConsume\<rparr>" using st MTest by (simp add: main_step_def)
      show ?thesis unfolding s' by (rule main_update[OF I]) (use parts MTest run in \<open>auto simp: main_parts simp del: upt_Suc\<close>)
    qed
  next
    case MLock
    then have s': "s' = s\<lparr>mtx := Some Main, m_pc := MTest\<rparr>" and free: "mtx s = None"
      using st by (simp_all add: main_step_def split: if_splits)
    show ?thesis unfolding s' by (rule main_update[OF I]) (use parts MLock run free in \<open>auto simp: main_parts simp del: upt_Suc\<close>)
  next
    case MRelock
    then have s': "s' = s\<lparr>mtx := Some Main, m_pc := MTest\<rparr>" and free: "mtx s = None"
      using st by (simp_all add: main_step_def split: if_splits)
    show ?thesis unfolding s' by (rule main_update[OF I]) (use parts MRelock run free in \<open>auto simp: main_parts simp del: upt_Suc\<close>)
  next
    case MUnlock
    then have s': "s' = s\<lparr>mtx := None, m_pc := MDone\<rparr>" using st by (simp add: main_step_def)
    show ?thesis unfolding s' by (rule main_update[OF I]) (use parts MUnlock run in \<open>auto simp: main_parts simp del: upt_Suc\<close>)
  next
    case MDone
    show ?thesis
    proof (cases "is_done s")
      case True
      then have s': "s' = s\<lparr>ended := Success, m_pc := MEnded\<rparr>" using st MDone by (simp add: main_step_def)
      show ?thesis unfolding s' by (rule main_update[OF I]) (use parts MDone run True in \<open>auto simp: main_parts simp del: upt_Suc\<close>)
    next
      case False
      then have s': "s' = s\<lparr>m_pc := MLock\<rparr>" using st MDone by (simp add: main_step_def)
      show ?thesis unfolding s' by (rule main_update[OF I]) (use parts MDone run False in \<open>auto simp: main_parts simp del: upt_Suc\<close>)
    qed
  qed (use st in \<open>simp_all add: main_step_def\<close>)
qed

lemma disturbance_inv:
  assumes "disturbance s s'" and I: "inv n s"
  shows "inv n s'"
  using assms(1)
proof cases
  case spurious
  have "mutex_ok s" "units_ok s" "counts_ok n s" using I by (simp_all add: inv_def)
  then show ?thesis unfolding spurious(1)
    by (intro main_update[OF I]) (use spurious in \<open>auto simp: main_parts simp del: upt_Suc\<close>)
next
  case failed_call
  have "mutex_ok (s\<lparr>ended := Failure\<rparr>) = mutex_ok s" "units_ok (s\<lparr>ended := Failure\<rparr>) = units_ok s"
    by (simp_all add: mutex_ok_def units_ok_def)
  moreover have "counts_ok n s" "mutex_ok s" "units_ok s" using I by (simp_all add: inv_def)
  moreover have "m_pc s \<noteq> MEnded" using \<open>counts_ok n s\<close> failed_call(2) by (simp add: counts_ok_def)
  then have "counts_ok n (s\<lparr>ended := Failure\<rparr>)" using \<open>counts_ok n s\<close> unfolding counts_ok_def
    by (elim conjE, intro conjI) simp_all
  ultimately show ?thesis unfolding failed_call(1) by (intro main_update[OF I]) simp_all
qed

lemma step_inv: "step s s' \<Longrightarrow> inv n s \<Longrightarrow> n \<le> INT_MAX \<Longrightarrow> inv n s'"
  by (induction rule: step.induct) (auto intro: main_step_inv producer_step_inv)

lemma reachable_inv:
  assumes "reachable args s" and "list_all (\<lambda>a. 0 \<le> atoi a) args" and "sum_list (map atoi args) \<le> INT_MAX"
  shows "inv (sum_list (map atoi args)) s"
  using assms(1)
proof (induction rule: reachable.induct)
  case start
  show ?case using assms(2) by (simp add: inv_def start_def mutex_ok_def units_ok_def counts_ok_def total_def)
qed (use step_inv disturbance_inv assms(3) in blast)+

section \<open>Progress\<close>






section \<open>The end\<close>



















text \<open>Without arguments, or with zeros only, the main thread waits for ever: it never ends successfully.\<close>

lemma nothing_to_consume:
  assumes "reachable args s" and "list_all (\<lambda>a. 0 \<le> atoi a) args" and "sum_list (map atoi args) = 0"
  shows "ended s \<noteq> Success"
proof
  assume "ended s = Success"
  moreover have "inv 0 s" using reachable_inv[OF assms(1,2)] assms(3) by simp
  moreover have "total made s \<le> total p_cnt s" using \<open>inv 0 s\<close> total_made_le(1) by (simp add: inv_def)
  ultimately show False by (auto simp: inv_def counts_ok_def units_ok_def)
qed
end
