(* ===== verification/Sem_Init.thy ===== *)
theory Sem_Init
  imports C_Prelude "HOL-Library.Word"
begin

text \<open>
  Two ways of initialising a System V semaphore that several processes share: \<open>svsem/svsem_good_init.c\<close> and
  \<open>svsem/svsem_bad_init.c\<close>. Any number of processes runs the program, interleaved: a step is one system call of one of
  them with the code up to the next one. With \<open>fault\<close> the call fails (or \<open>getInt\<close> rejects the argument), which ends
  the process. Nobody removes the set. The value of a new semaphore is not specified: it is the parameter \<open>garbage\<close>.
\<close>

section \<open>The semaphore\<close>

abbreviation (input) SEMVMX :: int where "SEMVMX \<equiv> 32767"

text \<open>The value, and whether \<open>sem_otime\<close> differs from 0.\<close>

type_synonym one_sem = "int \<times> bool"

datatype op_result = OpDone one_sem | OpBlocks | OpFails

definition semop_one :: "int \<Rightarrow> one_sem \<Rightarrow> op_result" where
  "semop_one opv sem = (case sem of (v, _) \<Rightarrow>
     if opv = 0 then (if v = 0 then OpDone (v, True) else OpBlocks)
     else if v + opv < 0 then OpBlocks
     else if SEMVMX < v + opv then OpFails
     else OpDone (v + opv, True))"

section \<open>\<open>svsem_good_init.c\<close>\<close>

definition MAX_TRIES :: nat where "MAX_TRIES = 10"

text \<open>Where a process is: the system call it makes next. \<open>G_try j\<close> is \<open>IPC_STAT\<close> in the round \<open>j\<close>.\<close>

datatype gpoint = G_semget | G_setval | G_dummy | G_lookup | G_try nat | G_op | G_done | G_failed

record gworld =
  sset :: "one_sem option"
  gpc :: "nat \<Rightarrow> gpoint"
  performed :: "nat list"
  said :: "(nat \<times> message) list"

definition good_start :: gworld where
  "good_start = \<lparr>sset = None, gpc = (\<lambda>_. G_semget), performed = [], said = []\<rparr>"

definition goto :: "nat \<Rightarrow> gpoint \<Rightarrow> gworld \<Rightarrow> gworld" where
  "goto p pc s = s\<lparr>gpc := (gpc s)(p := pc)\<rparr>"

definition prints :: "nat \<Rightarrow> string \<Rightarrow> fmt_arg list \<Rightarrow> gworld \<Rightarrow> gworld" where
  "prints p f as s = s\<lparr>said := said s @ [(p, (f, as))]\<rparr>"

text \<open>\<open>semop\<close> by the process \<open>p\<close>; a call that blocks is no step.\<close>

definition g_semop :: "nat \<Rightarrow> int \<Rightarrow> (gworld \<Rightarrow> gworld) \<Rightarrow> gworld \<Rightarrow> gworld option" where
  "g_semop p opv cont s = (case sset s of
     None \<Rightarrow> Some (goto p G_failed s)
   | Some sem \<Rightarrow> (case semop_one opv sem of
       OpDone sem' \<Rightarrow> Some (cont (s\<lparr>sset := Some sem'\<rparr>))
     | OpBlocks \<Rightarrow> None
     | OpFails \<Rightarrow> Some (goto p G_failed s)))"

text \<open>The argument of the process \<open>p\<close> is \<open>ops p\<close>, after its conversion to \<open>short\<close>.\<close>

definition good_step :: "int \<Rightarrow> (nat \<Rightarrow> 16 word) \<Rightarrow> nat \<Rightarrow> bool \<Rightarrow> gworld \<Rightarrow> gworld option" where
  "good_step garbage ops p fault s = (case gpc s p of
     G_semget \<Rightarrow>
       if fault then Some (goto p G_failed s)
       else (case sset s of
         None \<Rightarrow> Some (goto p G_setval (prints p ''%ld: created semaphore\<newline>'' [FInt (int p)] (s\<lparr>sset := Some (garbage, False)\<rparr>)))
       | Some sem \<Rightarrow> Some (goto p G_lookup s))
   | G_setval \<Rightarrow>
       (case sset s of
         None \<Rightarrow> Some (goto p G_failed s)
       | Some (v, ot) \<Rightarrow>
           if fault then Some (goto p G_failed s)
           else Some (goto p G_dummy (prints p ''%ld: initialized semaphore\<newline>'' [FInt (int p)] (s\<lparr>sset := Some (0, ot)\<rparr>))))
   | G_dummy \<Rightarrow>
       if fault then Some (goto p G_failed s)
       else g_semop p 0 (\<lambda>s1. goto p G_op (prints p ''%ld: completed dummy semop()\<newline>'' [FInt (int p)] s1)) s
   | G_lookup \<Rightarrow>
       if fault \<or> sset s = None then Some (goto p G_failed s)
       else Some (goto p (G_try 0) (prints p ''%ld: got semaphore key\<newline>'' [FInt (int p)] s))
   | G_try j \<Rightarrow>
       (let s1 = prints p ''Try %d\<newline>'' [FInt (int j)] s in
        case sset s of
          None \<Rightarrow> Some (goto p G_failed s1)
        | Some (v, ot) \<Rightarrow>
            if fault then Some (goto p G_failed s1)
            else if ot then Some (goto p G_op s1)
            else if Suc j < MAX_TRIES then Some (goto p (G_try (Suc j)) s1)
            else Some (goto p G_failed s1))
   | G_op \<Rightarrow>
       if fault then Some (goto p G_failed s)
       else g_semop p (sint (ops p)) (\<lambda>s1. goto p G_done (s1\<lparr>performed := performed s1 @ [p]\<rparr>)) s
   | G_done \<Rightarrow> None
   | G_failed \<Rightarrow> None)"



section \<open>\<open>svsem_bad_init.c\<close>\<close>

text \<open>The same, without a wait for the initialisation; the operation adds 1.\<close>

definition bad_step :: "int \<Rightarrow> nat \<Rightarrow> bool \<Rightarrow> gworld \<Rightarrow> gworld option" where
  "bad_step garbage p fault s = (case gpc s p of
     G_semget \<Rightarrow>
       if fault then Some (goto p G_failed s)
       else (case sset s of
         None \<Rightarrow> Some (goto p G_setval (s\<lparr>sset := Some (garbage, False)\<rparr>))
       | Some sem \<Rightarrow> Some (goto p G_lookup s))
   | G_setval \<Rightarrow>
       (case sset s of
         None \<Rightarrow> Some (goto p G_failed s)
       | Some (v, ot) \<Rightarrow>
           if fault then Some (goto p G_failed s) else Some (goto p G_op (s\<lparr>sset := Some (0, ot)\<rparr>)))
   | G_lookup \<Rightarrow> if fault \<or> sset s = None then Some (goto p G_failed s) else Some (goto p G_op s)
   | G_op \<Rightarrow>
       if fault then Some (goto p G_failed s)
       else g_semop p 1 (\<lambda>s1. goto p G_done (s1\<lparr>performed := performed s1 @ [p]\<rparr>)) s
   | _ \<Rightarrow> None)"

inductive bstep :: "int \<Rightarrow> gworld \<Rightarrow> gworld \<Rightarrow> bool" for garbage where
  move: "bad_step garbage p fault s = Some s' \<Longrightarrow> bstep garbage s s'"

section \<open>The invariant\<close>





lemma goto_sel [simp]:
  "sset (goto p pc s) = sset s" "gpc (goto p pc s) = (gpc s)(p := pc)" "performed (goto p pc s) = performed s"
  "sset (prints p f as s) = sset s" "gpc (prints p f as s) = gpc s" "performed (prints p f as s) = performed s"
  by (simp_all add: goto_def prints_def)

lemma semop_one_done:
  "semop_one opv (v, b) = OpDone sem' \<longleftrightarrow> sem' = (v + opv, True) \<and>
     (if opv = 0 then v = 0 else 0 \<le> v + opv \<and> v + opv \<le> SEMVMX)"
  by (auto simp: semop_one_def)

lemma g_semop_cases:
  assumes "g_semop p opv cont s = Some s'"
  obtains (failed) "s' = goto p G_failed s"
    | (success) v b where "sset s = Some (v, b)" and "if opv = 0 then v = 0 else 0 \<le> v + opv \<and> v + opv \<le> SEMVMX"
        and "s' = cont (s\<lparr>sset := Some (v + opv, True)\<rparr>)"
  using assms by (auto simp: g_semop_def semop_one_done split: option.splits op_result.splits)





section \<open>The steps of a process are bounded\<close>

fun gleft :: "gpoint \<Rightarrow> nat" where
  "gleft G_semget = 14" | "gleft G_setval = 3" | "gleft G_dummy = 2" | "gleft G_lookup = 13"
| "gleft (G_try j) = 2 + (MAX_TRIES - j)" | "gleft G_op = 1" | "gleft G_done = 0" | "gleft G_failed = 0"

lemma good_step_left:
  assumes "good_step garbage ops p fault s = Some s'"
  shows "gleft (gpc s' p) < gleft (gpc s p) \<and> (\<forall>q. q \<noteq> p \<longrightarrow> gpc s' q = gpc s q)"
  using assms
  by (cases "gpc s p")
    (auto simp: good_step_def MAX_TRIES_def Let_def split: option.splits if_splits elim!: g_semop_cases)

text \<open>Following a schedule of the processes, without faults.\<close>

fun in_turn :: "(nat \<Rightarrow> gworld \<Rightarrow> gworld option) \<Rightarrow> nat list \<Rightarrow> gworld \<Rightarrow> gworld option" where
  "in_turn stp [] s = Some s"
| "in_turn stp (p # ps) s = (case stp p s of None \<Rightarrow> None | Some s1 \<Rightarrow> in_turn stp ps s1)"

lemma in_turn_reach:
  assumes "\<And>p s s'. stp p s = Some s' \<Longrightarrow> R s s'" and "in_turn stp ps s = Some s'"
  shows "R\<^sup>*\<^sup>* s s'"
  using assms(2)
proof (induction ps arbitrary: s)
  case (Cons p ps)
  then obtain s1 where "stp p s = Some s1" "in_turn stp ps s1 = Some s'" by (auto split: option.splits)
  with Cons.IH assms(1) show ?case by (meson converse_rtranclp_into_rtranclp)
qed simp

section \<open>Properties\<close>

text \<open>The bad program: a process that finds the semaphore adds to it before the creator has initialised it, and its
  operation is lost.\<close>

theorem bad_init_loses_operation:
  assumes "0 \<le> garbage" and "garbage < SEMVMX"
  shows "\<exists>s. (bstep garbage)\<^sup>*\<^sup>* good_start s \<and> set (performed s) = {0, 1} \<and> distinct (performed s) \<and> sset s = Some (1, True)"
proof -
  have "\<exists>s. in_turn (\<lambda>p. bad_step garbage p False) [0, 1, 1, 1, 0, 0] good_start = Some s \<and>
      performed s = [1, 0] \<and> sset s = Some (1, True)"
    using assms by (simp add: bad_step_def good_start_def goto_def g_semop_def semop_one_def)
  then obtain s where s: "in_turn (\<lambda>p. bad_step garbage p False) [0, 1, 1, 1, 0, 0] good_start = Some s"
    "performed s = [1, 0]" "sset s = Some (1, True)" by blast
  have "(bstep garbage)\<^sup>*\<^sup>* good_start s" by (rule in_turn_reach[OF _ s(1)]) (rule bstep.move)
  with s(2,3) show ?thesis by (intro exI[of _ s]) auto
qed




end
