(* ===== verification/Wp.thy ===== *)
theory Wp
  imports Diag
begin

text \<open>
  Weakest preconditions of programs: \<open>wp m Q E s\<close> says that \<open>m\<close>, run from \<open>s\<close>, returns with \<open>Q\<close> or
  ends the process with \<open>E\<close>. The rules for the constructs of programs are equations, those for calls
  of the kernel split into success and failure.
\<close>

named_theorems wp \<open>weakest preconditions of the constructs of programs\<close>

definition wp :: "('s, 'a) program \<Rightarrow> ('a \<Rightarrow> 's \<Rightarrow> bool) \<Rightarrow> (halt \<Rightarrow> 's \<Rightarrow> bool) \<Rightarrow> 's \<Rightarrow> bool" where
  "wp m Q E s = (case m s of (Inl h, s') \<Rightarrow> E h s' | (Inr a, s') \<Rightarrow> Q a s')"

lemma wp_ret [wp]: "wp (ret a) Q E s = Q a s"
  by (simp add: wp_def)

lemma wp_halts [wp]: "wp (halts h) Q E s = E h s"
  by (simp add: wp_def)

lemma wp_modify [wp]: "wp (modify f) Q E s = Q () (f s)"
  by (simp add: wp_def)

lemma wp_query [wp]: "wp (query g) Q E s = Q (g s) s"
  by (simp add: wp_def)

lemma wp_andThen [wp]: "wp (andThen m f) Q E s = wp m (\<lambda>a. wp (f a) Q E) E s"
  by (auto simp: wp_def andThen_def split: prod.split sum.split)

lemma wp_seqs [wp]: "wp (seqs []) Q E s = Q () s" "wp (seqs (m # ms)) Q E s = wp m (\<lambda>_. wp (seqs ms) Q E) E s"
  by (simp_all add: wp)

lemma wp_if [wp]: "wp (if b then m else n) Q E s = (if b then wp m Q E s else wp n Q E s)"
  by simp

lemma wp_option: "wp (case x of None \<Rightarrow> m | Some a \<Rightarrow> f a) Q E s = (case x of None \<Rightarrow> wp m Q E s | Some a \<Rightarrow> wp (f a) Q E s)"
  by (cases x) simp_all

lemma wp_output [wp]:
  "wp (printf f as) Q E s = Q () (s\<lparr>pending := pending s @ [(f, as)]\<rparr>)"
  "wp (eprintf f as) Q E s = Q () (s\<lparr>written := written s @ [(2, (f, as))]\<rparr>)"
  "wp (exit_process n) Q' E s = E (Exit n) (flushed s)"
  by (simp_all add: wp_def)

text \<open>A call of the kernel: one case for its failure and one for its success.\<close>

lemma wp_syscall:
  assumes "\<And>e w. k (world s) = (Inl e, w) \<Longrightarrow> Q None (s\<lparr>p_errno := e, world := w\<rparr>)"
    and "\<And>a w. k (world s) = (Inr a, w) \<Longrightarrow> Q (Some a) (s\<lparr>world := w\<rparr>)"
  shows "wp (syscall k) Q E s"
  by (cases rule: syscall_cases[of k s]) (use assms in \<open>simp_all add: wp_def\<close>)

lemma wp_syscall_ok: "k (world s) = (Inr a, w) \<Longrightarrow> wp (syscall k) Q E s = Q (Some a) (s\<lparr>world := w\<rparr>)"
  by (simp add: wp_def)

lemma wp_or_die:
  assumes "\<And>e w. k (world s) = (Inl e, w) \<Longrightarrow> wp die Q E (s\<lparr>p_errno := e, world := w\<rparr>)"
    and "\<And>a w. k (world s) = (Inr a, w) \<Longrightarrow> Q a (s\<lparr>world := w\<rparr>)"
  shows "wp (or_die (syscall k) die) Q E s"
  unfolding or_die_def wp_andThen by (rule wp_syscall) (simp_all add: wp assms)

lemma wp_mono:
  assumes "wp m Q E s" and "\<And>a s'. Q a s' \<Longrightarrow> Q' a s'" and "\<And>h s'. E h s' \<Longrightarrow> E' h s'"
  shows "wp m Q' E' s"
  using assms by (auto simp: wp_def split: prod.splits sum.splits)

text \<open>A postcondition of the ways the process ends that only speaks about success.\<close>

definition on_success :: "('s \<Rightarrow> bool) \<Rightarrow> halt \<Rightarrow> 's \<Rightarrow> bool" where
  "on_success F h s = (h = Exit 0 \<longrightarrow> F s)"

lemma on_success_simps [simp]:
  "on_success F (Exit 0) s = F s" "n \<noteq> 0 \<Longrightarrow> on_success F (Exit n) s" "on_success F Undefined s" "on_success F Abort s"
  by (simp_all add: on_success_def)

lemma ending_not_success [simp]: "on_success F (ending b e) s"
  by (auto simp: on_success_def ending_def)

lemma wp_fails [simp]:
  "wp (errExit_macro et m) Q (on_success F) s" "wp (errExit et f as) Q (on_success F) s" "wp (fatal et f as) Q (on_success F) s"
  "wp (usageErr f as) Q (on_success F) s" "wp (err_exit et f as) Q (on_success F) s" "wp (cmdLineErr f as) Q (on_success F) s"
  by (simp_all add: wp_def errExit_macro_run errExit_run fatal_run usageErr_run err_exit_run cmdLineErr_run)

lemma wp_run:
  "wp m (\<lambda>_ _. False) E s \<longleftrightarrow> (\<exists>h s'. m s = (Inl h, s') \<and> E h s')"
  by (cases "m s"; cases "fst (m s)") (auto simp: wp_def)

text \<open>A process that reports a fatal error ends with status 1 or aborts.\<close>

abbreviation (input) failed :: "halt \<Rightarrow> 's \<Rightarrow> bool" where
  "failed \<equiv> \<lambda>h _. h = Exit 1 \<or> h = Abort"

lemma reported_world [simp]: "world (reported t s) = world s"
  by (simp add: reported_def)

lemma wp_reports:
  assumes "\<And>h s'. h = Exit 1 \<or> h = Abort \<Longrightarrow> world s' = world s \<Longrightarrow> E h s'"
  shows "wp (errExit et f as) Q E s" "wp (fatal et f as) Q' E s"
  by (auto simp: wp_def errExit_run fatal_run ending_def intro!: assms)

lemma wp_call:
  assumes "\<And>a w. k (world s) = (Inr a, w) \<Longrightarrow> Q a (s\<lparr>world := w\<rparr>)"
  shows "wp (or_die (syscall k) (errExit et f as)) Q failed s"
  by (rule wp_or_die) (auto intro: wp_reports assms)

lemma wp_errExit_macro: "(\<And>s'. E (Exit 1) s') \<Longrightarrow> wp (errExit_macro et m) Q E s"
  by (simp add: wp_def errExit_macro_run)

lemma wp_call_macro:
  "(\<And>a w. k (world s) = (Inr a, w) \<Longrightarrow> Q a (s\<lparr>world := w\<rparr>)) \<Longrightarrow> (\<And>s'. E (Exit 1) s') \<Longrightarrow>
   wp (or_die (syscall k) (errExit_macro et m)) Q E s"
  by (rule wp_or_die) (auto intro: wp_errExit_macro)

section \<open>Handlers at the end of a process\<close>

text \<open>A function registered with \<open>atexit\<close> runs when the process ends with \<open>exit\<close>. If it calls \<open>exit\<close> itself,
  the behaviour is undefined.\<close>

definition at_exit :: "('s, unit) program \<Rightarrow> ('s, 'a) program \<Rightarrow> ('s, 'a) program" where
  "at_exit handler m = (\<lambda>s. case m s of
     (Inl (Exit n), s') \<Rightarrow> (case handler s' of (Inl h, s'') \<Rightarrow> (Inl Undefined, s'') | (Inr _, s'') \<Rightarrow> (Inl (Exit n), s''))
   | r \<Rightarrow> r)"

lemma at_exit_runs: "at_exit h m s = (Inl (Exit n), s') \<Longrightarrow> \<exists>s1. m s = (Inl (Exit n), s1) \<and> s' = snd (h s1)"
  by (auto simp: at_exit_def split: prod.splits sum.splits halt.splits)

lemma wp_at_exit: "wp m Q (\<lambda>h s. case h of Exit n \<Rightarrow> wp handler (\<lambda>_. E h) (\<lambda>_. E Undefined) s | _ \<Rightarrow> E h s) s \<Longrightarrow> wp (at_exit handler m) Q E s"
  by (auto simp: wp_def at_exit_def split: prod.splits sum.splits halt.splits)

end
