(* ===== verification/Locks.thy ===== *)
theory Locks
  imports Wp Num_Args
begin

text \<open>
  \<open>filelock/region_locking.c\<close> with \<open>filelock/create_pid_file.c\<close>, by which a program makes sure that only
  one instance of it runs, and \<open>svsem/event_flags.c\<close>. The kernel is a parameter. What is assumed of it
  leaves room for the steps of other processes between and during the calls.
\<close>

unbundle bit_operations_syntax

section \<open>\<open>region_locking.c\<close>\<close>

datatype lock_cmd = F_SETLK | F_SETLKW | F_GETLK

datatype lock_type = F_RDLCK | F_WRLCK | F_UNLCK

datatype whence = SEEK_SET | SEEK_CUR | SEEK_END

record flock =
  l_type :: lock_type
  l_whence :: whence
  l_start :: int
  l_len :: int
  l_pid :: int

text \<open>\<open>fcntl\<close> returns the structure as it leaves it.\<close>

type_synonym 'w fcntl = "int \<Rightarrow> lock_cmd \<Rightarrow> flock \<Rightarrow> ('w, flock) kcall"

text \<open>The field \<open>l_pid\<close> is not initialised; here it is 0.\<close>

definition lockReg :: "'w fcntl \<Rightarrow> int \<Rightarrow> lock_cmd \<Rightarrow> lock_type \<Rightarrow> whence \<Rightarrow> int \<Rightarrow> int \<Rightarrow> ('w process, int) program" where
  "lockReg fcntl fd cmd type whence start len =
     andThen (syscall (fcntl fd cmd \<lparr>l_type = type, l_whence = whence, l_start = start, l_len = len, l_pid = 0\<rparr>)) (\<lambda>r.
     ret (if r = None then - 1 else 0))"


definition lockRegionWait :: "'w fcntl \<Rightarrow> int \<Rightarrow> lock_type \<Rightarrow> whence \<Rightarrow> int \<Rightarrow> int \<Rightarrow> ('w process, int) program" where
  "lockRegionWait fcntl fd type whence start len = lockReg fcntl fd F_SETLKW type whence start len"

definition regionIsLocked :: "'w fcntl \<Rightarrow> int \<Rightarrow> lock_type \<Rightarrow> whence \<Rightarrow> int \<Rightarrow> int \<Rightarrow> ('w process, int) program" where
  "regionIsLocked fcntl fd type whence start len =
     andThen (syscall (fcntl fd F_GETLK \<lparr>l_type = type, l_whence = whence, l_start = start, l_len = len, l_pid = 0\<rparr>)) (\<lambda>r. case r of
       None \<Rightarrow> ret (- 1)
     | Some fl \<Rightarrow> ret (if l_type fl = F_UNLCK then 0 else l_pid fl))"

section \<open>\<open>create_pid_file.c\<close>\<close>








section \<open>\<open>event_flags.c\<close>\<close>

record 'w semkernel =
  ek_wait_zero :: "int \<Rightarrow> nat \<Rightarrow> ('w, unit) kcall"
  ek_setval :: "int \<Rightarrow> nat \<Rightarrow> int \<Rightarrow> ('w, int) kcall"
  ek_getval :: "int \<Rightarrow> nat \<Rightarrow> ('w, int) kcall"

text \<open>\<open>ek_wait_zero\<close> is \<open>semop\<close> with the operation 0: it returns when the semaphore is 0. \<open>None\<close> is a loop
  that has used up its fuel.\<close>

fun waitForEventFlag :: "'w semkernel \<Rightarrow> nat \<Rightarrow> int \<Rightarrow> nat \<Rightarrow> ('w process, int option) program" where
  "waitForEventFlag K 0 semId semNum = ret None"
| "waitForEventFlag K (Suc fuel) semId semNum =
     andThen (syscall (ek_wait_zero K semId semNum)) (\<lambda>r.
     if r = None
     then andThen (query p_errno) (\<lambda>e. if e \<noteq> EINTR then ret (Some (- 1)) else waitForEventFlag K fuel semId semNum)
     else ret (Some 0))"

definition clearEventFlag :: "'w semkernel \<Rightarrow> int \<Rightarrow> nat \<Rightarrow> ('w process, int) program" where
  "clearEventFlag K semId semNum = andThen (syscall (ek_setval K semId semNum 1)) (\<lambda>r. ret (case r of None \<Rightarrow> - 1 | Some v \<Rightarrow> v))"

definition setEventFlag :: "'w semkernel \<Rightarrow> int \<Rightarrow> nat \<Rightarrow> ('w process, int) program" where
  "setEventFlag K semId semNum = andThen (syscall (ek_setval K semId semNum 0)) (\<lambda>r. ret (case r of None \<Rightarrow> - 1 | Some v \<Rightarrow> v))"

text \<open>The second component of the result is what is stored in \<open>*isSet\<close>, if anything.\<close>

definition getFlagState :: "'w semkernel \<Rightarrow> int \<Rightarrow> nat \<Rightarrow> ('w process, int \<times> bool option) program" where
  "getFlagState K semId semNum = andThen (syscall (ek_getval K semId semNum)) (\<lambda>r. case r of
       None \<Rightarrow> ret (- 1, None)
     | Some v \<Rightarrow> ret (0, Some (v = 0)))"

section \<open>One instance\<close>











section \<open>Properties\<close>







section \<open>Event flags\<close>

text \<open>What is documented of the calls on semaphores: \<open>semop\<close> with 0 returns when the semaphore is 0, and is
  interrupted at most \<open>n\<close> times.\<close>

definition event_laws :: "('w \<Rightarrow> int \<times> nat \<Rightarrow> int) \<Rightarrow> ('w \<Rightarrow> nat) \<Rightarrow> nat \<Rightarrow> 'w semkernel \<Rightarrow> bool" where
  "event_laws val eintrs n K = (
     (\<forall>i k w u w'. ek_wait_zero K i k w = (Inr u, w') \<longrightarrow> val w' (i, k) = 0)
   \<and> (\<forall>i k w w'. ek_wait_zero K i k w = (Inl EINTR, w') \<longrightarrow> eintrs w' < eintrs w) \<and> (\<forall>w. eintrs w \<le> n)
   \<and> (\<forall>i k v w r w'. ek_setval K i k v w = (Inr r, w') \<longrightarrow> r = 0 \<and> val w' = (val w)((i, k) := v))
   \<and> (\<forall>i k w v w'. ek_getval K i k w = (Inr v, w') \<longrightarrow> v = val w (i, k) \<and> val w' = val w))"

lemma wp_waitForEventFlag:
  assumes L: "event_laws val eintrs n K" and "eintrs (world s) < fuel"
    and "\<And>s'. val (world s') (i, k) = 0 \<Longrightarrow> Q (Some 0) s'" "\<And>s'. Q (Some (- 1)) s'"
  shows "wp (waitForEventFlag K fuel i k) Q E s"
  using assms(2)
proof (induction fuel arbitrary: s)
  case (Suc fuel)
  show ?case unfolding waitForEventFlag.simps wp_andThen
  proof (rule wp_syscall, goal_cases)
    case (1 e w)
    show ?case
    proof (cases "e = EINTR")
      case True
      then have "eintrs w < eintrs (world s)" using L 1 by (auto simp: event_laws_def)
      then show ?thesis using True Suc by (simp add: wp)
    qed (simp add: wp assms(4))
  next
    case (2 u w)
    then have "val w (i, k) = 0" using L by (auto simp: event_laws_def)
    then show ?case by (simp add: wp assms(3))
  qed
qed simp

text \<open>The protocol of event flags: a wait ends, and without an error it ends with the flag set; the state of
  a flag that was set or cleared without an error is read as such.\<close>

theorem event_flags_protocol:
  assumes L: "event_laws val eintrs n K" and "n < fuel"
  shows "\<exists>r s'. waitForEventFlag K fuel i k s = (Inr (Some r), s') \<and> (r = 0 \<and> val (world s') (i, k) = 0 \<or> r = - 1)"
    and "setEventFlag K i k s = (Inr 0, s1) \<Longrightarrow> getFlagState K i k s1 = (Inr (0, x), s2) \<Longrightarrow> x = Some True"
    and "clearEventFlag K i k s = (Inr 0, s1) \<Longrightarrow> getFlagState K i k s1 = (Inr (0, x), s2) \<Longrightarrow> x = Some False"
proof -
  have "eintrs (world s) < fuel" using L assms(2) by (auto simp: event_laws_def intro: le_less_trans)
  then have "wp (waitForEventFlag K fuel i k) (\<lambda>r s'. r = Some 0 \<and> val (world s') (i, k) = 0 \<or> r = Some (- 1)) (\<lambda>_ _. False) s"
    by (rule wp_waitForEventFlag[OF L]) auto
  then show "\<exists>r s'. waitForEventFlag K fuel i k s = (Inr (Some r), s') \<and> (r = 0 \<and> val (world s') (i, k) = 0 \<or> r = - 1)"
    by (auto simp: wp_def split: prod.splits sum.splits)
  have set: "val (world s1) (i, k) = v" if "andThen (syscall (ek_setval K i k v)) (\<lambda>r. ret (case r of None \<Rightarrow> - 1 | Some x \<Rightarrow> x)) s = (Inr 0, s1)" for v
    using that L by (cases rule: syscall_cases[of "ek_setval K i k v" s]) (auto simp: event_laws_def)
  have get: "x = Some (val (world s1) (i, k) = 0)" if "getFlagState K i k s1 = (Inr (0, x), s2)"
    using that L by (cases rule: syscall_cases[of "ek_getval K i k" s1]) (auto simp: event_laws_def getFlagState_def)
  show "setEventFlag K i k s = (Inr 0, s1) \<Longrightarrow> getFlagState K i k s1 = (Inr (0, x), s2) \<Longrightarrow> x = Some True"
    using set[of 0] get by (auto simp: setEventFlag_def)
  show "clearEventFlag K i k s = (Inr 0, s1) \<Longrightarrow> getFlagState K i k s1 = (Inr (0, x), s2) \<Longrightarrow> x = Some False"
    using set[of 1] get by (auto simp: clearEventFlag_def)
qed
end
