(* ===== verification/Sockets.thy ===== *)
theory Sockets
  imports Diag
begin

text \<open>
  \<open>sockets/inet_sockets.c\<close> and \<open>sockets/unix_sockets.c\<close>: making sockets that are connected or bound.

  The kernel and the resolver are parameters. A socket address is the string of its bytes; the list
  that \<open>getaddrinfo\<close> returns is a list, so that \<open>rp == NULL\<close> is the end of it.
\<close>

section \<open>The calls\<close>

record addrinfo =
  ai_family :: int
  ai_socktype :: int
  ai_protocol :: int
  ai_addr :: string
  ai_addrlen :: nat

record hints =
  h_family :: int
  h_socktype :: int
  h_flags :: int

abbreviation (input) AF_UNSPEC :: int where "AF_UNSPEC \<equiv> 0"
abbreviation (input) AF_UNIX :: int where "AF_UNIX \<equiv> 1"
abbreviation (input) SOCK_STREAM :: int where "SOCK_STREAM \<equiv> 1"
abbreviation (input) AI_PASSIVE :: int where "AI_PASSIVE \<equiv> 1"
abbreviation (input) AI_NUMERICSERV :: int where "AI_NUMERICSERV \<equiv> 0x400"
abbreviation (input) NI_NUMERICSERV :: int where "NI_NUMERICSERV \<equiv> 2"

text \<open>\<open>getaddrinfo\<close> and \<open>getnameinfo\<close> return an error number of their own, \<open>None\<close> here.\<close>

record 'w netkernel =
  nk_getaddrinfo :: "string option \<Rightarrow> string option \<Rightarrow> hints \<Rightarrow> 'w \<Rightarrow> addrinfo list option \<times> 'w"
  nk_getnameinfo :: "string \<Rightarrow> nat \<Rightarrow> int \<Rightarrow> 'w \<Rightarrow> (string \<times> string) option"
  nk_socket :: "int \<Rightarrow> int \<Rightarrow> int \<Rightarrow> ('w, int) kcall"
  nk_reuseaddr :: "int \<Rightarrow> ('w, unit) kcall"
  nk_bind :: "int \<Rightarrow> string \<Rightarrow> nat \<Rightarrow> ('w, unit) kcall"
  nk_connect :: "int \<Rightarrow> string \<Rightarrow> nat \<Rightarrow> ('w, unit) kcall"
  nk_listen :: "int \<Rightarrow> int \<Rightarrow> ('w, unit) kcall"
  nk_close :: "int \<Rightarrow> ('w, unit) kcall"

definition resolve :: "'w netkernel \<Rightarrow> string option \<Rightarrow> string option \<Rightarrow> hints \<Rightarrow> ('w process, addrinfo list option) program" where
  "resolve N host service h = (\<lambda>s. case nk_getaddrinfo N host service h (world s) of (r, w) \<Rightarrow> (Inr r, s\<lparr>world := w\<rparr>))"

section \<open>\<open>inet_sockets.c\<close>\<close>

text \<open>The walk through the list: the socket that could be connected, if any.\<close>

fun connect_first :: "'w netkernel \<Rightarrow> addrinfo list \<Rightarrow> ('w process, int option) program" where
  "connect_first N [] = ret None"
| "connect_first N (rp # rps) =
     andThen (syscall (nk_socket N (ai_family rp) (ai_socktype rp) (ai_protocol rp))) (\<lambda>r. case r of
       None \<Rightarrow> connect_first N rps
     | Some sfd \<Rightarrow>
         andThen (syscall (nk_connect N sfd (ai_addr rp) (ai_addrlen rp))) (\<lambda>c.
         if c \<noteq> None then ret (Some sfd)
         else andThen (syscall (nk_close N sfd)) (\<lambda>_. connect_first N rps)))"

definition inetConnect :: "'w netkernel \<Rightarrow> string option \<Rightarrow> string option \<Rightarrow> int \<Rightarrow> ('w process, int) program" where
  "inetConnect N host service type =
     andThen (resolve N host service \<lparr>h_family = AF_UNSPEC, h_socktype = type, h_flags = 0\<rparr>) (\<lambda>r. case r of
       None \<Rightarrow> andThen (modify (\<lambda>s. s\<lparr>p_errno := ENOSYS\<rparr>)) (\<lambda>_. ret (- 1))
     | Some result \<Rightarrow>
         andThen (connect_first N result) (\<lambda>c. ret (case c of None \<Rightarrow> - 1 | Some sfd \<Rightarrow> sfd)))"

text \<open>The walk of a passive socket: given up at once when \<open>setsockopt\<close> fails.\<close>

datatype bound = GaveUp | NoAddress | Bound int nat

fun bind_first :: "'w netkernel \<Rightarrow> bool \<Rightarrow> addrinfo list \<Rightarrow> ('w process, bound) program" where
  "bind_first N doListen [] = ret NoAddress"
| "bind_first N doListen (rp # rps) =
     andThen (syscall (nk_socket N (ai_family rp) (ai_socktype rp) (ai_protocol rp))) (\<lambda>r. case r of
       None \<Rightarrow> bind_first N doListen rps
     | Some sfd \<Rightarrow>
         andThen (if doListen then syscall (nk_reuseaddr N sfd) else ret (Some ())) (\<lambda>o1.
         if o1 = None then andThen (syscall (nk_close N sfd)) (\<lambda>_. ret GaveUp)
         else
         andThen (syscall (nk_bind N sfd (ai_addr rp) (ai_addrlen rp))) (\<lambda>b.
         if b \<noteq> None then ret (Bound sfd (ai_addrlen rp))
         else andThen (syscall (nk_close N sfd)) (\<lambda>_. bind_first N doListen rps))))"

text \<open>The value is the descriptor and what is stored through \<open>addrlen\<close>, if that is not a null pointer.\<close>

definition inetPassiveSocket ::
  "'w netkernel \<Rightarrow> string option \<Rightarrow> int \<Rightarrow> bool \<Rightarrow> bool \<Rightarrow> int \<Rightarrow> ('w process, int \<times> nat option) program" where
  "inetPassiveSocket N service type addrlen doListen backlog =
     andThen (resolve N None service \<lparr>h_family = AF_UNSPEC, h_socktype = type, h_flags = AI_PASSIVE\<rparr>) (\<lambda>r. case r of
       None \<Rightarrow> ret (- 1, None)
     | Some result \<Rightarrow>
         andThen (bind_first N doListen result) (\<lambda>b. case b of
           GaveUp \<Rightarrow> ret (- 1, None)
         | NoAddress \<Rightarrow> ret (- 1, None)
         | Bound sfd alen \<Rightarrow>
             andThen (if doListen then syscall (nk_listen N sfd backlog) else ret (Some ())) (\<lambda>l.
             if l = None then ret (- 1, None)
             else ret (sfd, if addrlen then Some alen else None))))"

definition inetListen :: "'w netkernel \<Rightarrow> string option \<Rightarrow> int \<Rightarrow> bool \<Rightarrow> ('w process, int \<times> nat option) program" where
  "inetListen N service backlog addrlen = inetPassiveSocket N service SOCK_STREAM addrlen True backlog"

definition inetBind :: "'w netkernel \<Rightarrow> string option \<Rightarrow> int \<Rightarrow> bool \<Rightarrow> ('w process, int \<times> nat option) program" where
  "inetBind N service type addrlen = inetPassiveSocket N service type addrlen False 0"

definition inetAddressStr :: "'w netkernel \<Rightarrow> string \<Rightarrow> nat \<Rightarrow> nat \<Rightarrow> ('w process, string) program" where
  "inetAddressStr N addr addrlen addrStrLen =
     andThen (query (\<lambda>s. nk_getnameinfo N addr addrlen NI_NUMERICSERV (world s))) (\<lambda>r.
     ret (snprintf_buf addrStrLen (case r of
       Some (host, service) \<Rightarrow> ''('' @ host @ '', '' @ service @ '')''
     | None \<Rightarrow> ''(?UNKNOWN?)'')))"

section \<open>\<open>unix_sockets.c\<close>\<close>

abbreviation (input) SUN_PATH_LEN :: nat where "SUN_PATH_LEN \<equiv> 108"

record sockaddr_un =
  sun_family :: int
  sun_path :: string

text \<open>The address is an output parameter: the new contents, if there is somewhere to store them.\<close>

definition unixBuildAddress :: "string option \<Rightarrow> sockaddr_un option \<Rightarrow> ('w process, int \<times> sockaddr_un option) program" where
  "unixBuildAddress path addr =
     (if addr = None \<or> path = None
      then andThen (modify (\<lambda>s. s\<lparr>p_errno := EINVAL\<rparr>)) (\<lambda>_. ret (- 1, addr))
      else if length (the path) < SUN_PATH_LEN
      then ret (0, Some \<lparr>sun_family = AF_UNIX,
             sun_path = take (SUN_PATH_LEN - 1) (the path) @ replicate (SUN_PATH_LEN - min (SUN_PATH_LEN - 1) (length (the path))) NUL\<rparr>)
      else andThen (modify (\<lambda>s. s\<lparr>p_errno := ENAMETOOLONG\<rparr>))
             (\<lambda>_. ret (- 1, Some \<lparr>sun_family = AF_UNIX, sun_path = replicate SUN_PATH_LEN NUL\<rparr>)))"

definition close_keeping_errno :: "'w netkernel \<Rightarrow> int \<Rightarrow> ('w process, unit) program" where
  "close_keeping_errno N sd =
     andThen (query p_errno) (\<lambda>savedErrno.
     andThen (syscall (nk_close N sd)) (\<lambda>_.
     modify (\<lambda>s. s\<lparr>p_errno := savedErrno\<rparr>)))"

text \<open>The bytes of the address the kernel sees: here only its path.\<close>

definition unix_socket ::
  "'w netkernel \<Rightarrow> (int \<Rightarrow> string \<Rightarrow> nat \<Rightarrow> ('w, unit) kcall) \<Rightarrow> string option \<Rightarrow> int \<Rightarrow> ('w process, int) program" where
  "unix_socket N attach path type =
     andThen (unixBuildAddress path (Some \<lparr>sun_family = 0, sun_path = []\<rparr>)) (\<lambda>(r, addr).
     if r = - 1 then ret (- 1)
     else
     andThen (syscall (nk_socket N AF_UNIX type 0)) (\<lambda>q. case q of
       None \<Rightarrow> ret (- 1)
     | Some sd \<Rightarrow>
         andThen (syscall (attach sd (sun_path (the addr)) (SUN_PATH_LEN + 2))) (\<lambda>c.
         if c = None then andThen (close_keeping_errno N sd) (\<lambda>_. ret (- 1)) else ret sd)))"

definition unixConnect :: "'w netkernel \<Rightarrow> string option \<Rightarrow> int \<Rightarrow> ('w process, int) program" where
  "unixConnect N = unix_socket N (nk_connect N)"

definition unixBind :: "'w netkernel \<Rightarrow> string option \<Rightarrow> int \<Rightarrow> ('w process, int) program" where
  "unixBind N = unix_socket N (nk_bind N)"

section \<open>Descriptors\<close>

text \<open>What is documented of the calls: \<open>socket\<close> opens a new descriptor, \<open>close\<close> closes the one it is
  given even if it reports an error, and the other calls open and close none.\<close>

definition descriptor_laws :: "('w \<Rightarrow> int set) \<Rightarrow> 'w netkernel \<Rightarrow> bool" where
  "descriptor_laws opens N = (
     (\<forall>f t p w fd w'. nk_socket N f t p w = (Inr fd, w') \<longrightarrow> 0 \<le> fd \<and> fd \<notin> opens w \<and> opens w' = insert fd (opens w))
   \<and> (\<forall>f t p w e w'. nk_socket N f t p w = (Inl e, w') \<longrightarrow> opens w' = opens w)
   \<and> (\<forall>fd w. opens (snd (nk_close N fd w)) = opens w - {fd})
   \<and> (\<forall>fd a l w. opens (snd (nk_connect N fd a l w)) = opens w)
   \<and> (\<forall>fd a l w. opens (snd (nk_bind N fd a l w)) = opens w)
   \<and> (\<forall>fd w. opens (snd (nk_reuseaddr N fd w)) = opens w)
   \<and> (\<forall>fd n w. opens (snd (nk_listen N fd n w)) = opens w)
   \<and> (\<forall>h sv hi w. opens (snd (nk_getaddrinfo N h sv hi w)) = opens w))"

text \<open>A function that returns a descriptor has opened exactly that one, and one that returns \<open>-1\<close> none.\<close>

definition balanced :: "('w \<Rightarrow> int set) \<Rightarrow> 'w process \<Rightarrow> int \<Rightarrow> 'w process \<Rightarrow> bool" where
  "balanced opens s fd s' =
     (if fd = - 1 then opens (world s') = opens (world s)
      else 0 \<le> fd \<and> fd \<notin> opens (world s) \<and> opens (world s') = insert fd (opens (world s)))"

section \<open>Lemmas\<close>

text \<open>What the laws say of a system call as a program.\<close>

lemma call_socket:
  assumes "descriptor_laws opens N"
  obtains (fail) s1 where "syscall (nk_socket N f t p) s = (Inr None, s1)" and "opens (world s1) = opens (world s)"
  | (ok) fd s1 where "syscall (nk_socket N f t p) s = (Inr (Some fd), s1)" and "0 \<le> fd" and "fd \<notin> opens (world s)"
      and "opens (world s1) = insert fd (opens (world s))"
proof (cases rule: syscall_cases[of "nk_socket N f t p" s])
  case (fail e w)
  then show thesis using assms that(1)[of "s\<lparr>p_errno := e, world := w\<rparr>"] by (simp add: descriptor_laws_def)
next
  case (ok fd w)
  then show thesis using assms that(2)[of fd "s\<lparr>world := w\<rparr>"] by (simp add: descriptor_laws_def)
qed

lemma call_neutral:
  assumes "\<And>w. opens (snd (kc w)) = g (opens w)"
  obtains c s1 where "syscall kc s = (Inr c, s1)" and "opens (world s1) = g (opens (world s))"
proof (cases rule: syscall_cases[of kc s])
  case (fail e w)
  then show thesis using that[of None "s\<lparr>p_errno := e, world := w\<rparr>"] assms[of "world s"] by simp
next
  case (ok a w)
  then show thesis using that[of "Some a" "s\<lparr>world := w\<rparr>"] assms[of "world s"] by simp
qed

lemma law_calls:
  assumes "descriptor_laws opens N"
  shows "opens (snd (nk_close N fd w)) = opens w - {fd}" "opens (snd (nk_connect N fd a l w)) = opens w"
    "opens (snd (nk_bind N fd a l w)) = opens w" "opens (snd (nk_reuseaddr N fd w)) = opens w"
    "opens (snd (nk_listen N fd n w)) = opens w" "opens (snd (nk_getaddrinfo N h sv hi w)) = opens w"
  using assms by (simp_all add: descriptor_laws_def)

lemma balanced_from: "opens (world t) = opens (world s) \<Longrightarrow> balanced opens t fd s' = balanced opens s fd s'"
  by (simp add: balanced_def)

lemma connect_first_balanced:
  assumes L: "descriptor_laws opens N"
  shows "\<exists>c s'. connect_first N rps s = (Inr c, s') \<and> (c \<noteq> Some (- 1)) \<and> balanced opens s (case c of None \<Rightarrow> - 1 | Some fd \<Rightarrow> fd) s'"
proof (induction rps arbitrary: s)
  case Nil
  then show ?case by (simp add: balanced_def)
next
  case (Cons rp rps)
  show ?case
  proof (cases rule: call_socket[OF L, of "ai_family rp" "ai_socktype rp" "ai_protocol rp" s, case_names fail ok])
    case (fail s1)
    with Cons.IH[of s1] show ?thesis by (simp add: balanced_from[OF fail(2)])
  next
    case (ok fd s1)
    obtain c s2 where c: "syscall (nk_connect N fd (ai_addr rp) (ai_addrlen rp)) s1 = (Inr c, s2)" "opens (world s2) = opens (world s1)"
      by (rule call_neutral[of opens "nk_connect N fd (ai_addr rp) (ai_addrlen rp)" id s1]) (simp_all add: law_calls[OF L])
    obtain d s3 where d: "syscall (nk_close N fd) s2 = (Inr d, s3)" "opens (world s3) = opens (world s2) - {fd}"
      by (rule call_neutral[of opens "nk_close N fd" "\<lambda>X. X - {fd}" s2]) (simp_all add: law_calls[OF L])
    show ?thesis
    proof (cases "c = None")
      case True
      have restored: "opens (world s3) = opens (world s)" using ok c d by auto
      from True ok c d Cons.IH[of s3] show ?thesis by (simp add: balanced_from[OF restored])
    next
      case False
      with ok c show ?thesis by (auto simp: balanced_def)
    qed
  qed
qed

lemma bind_first_balanced:
  assumes L: "descriptor_laws opens N"
  shows "\<exists>b s'. bind_first N doListen rps s = (Inr b, s')
    \<and> balanced opens s (case b of Bound fd l \<Rightarrow> fd | _ \<Rightarrow> - 1) s' \<and> (\<forall>l. b \<noteq> Bound (- 1) l)"
proof (induction rps arbitrary: s)
  case Nil
  then show ?case by (simp add: balanced_def)
next
  case (Cons rp rps)
  show ?case
  proof (cases rule: call_socket[OF L, of "ai_family rp" "ai_socktype rp" "ai_protocol rp" s, case_names fail ok])
    case (fail s1)
    with Cons.IH[of s1] show ?thesis by (simp add: balanced_from[OF fail(2)])
  next
    case (ok fd s1)
    obtain o1 s2 where o1: "(if doListen then syscall (nk_reuseaddr N fd) else ret (Some ())) s1 = (Inr o1, s2)"
      "opens (world s2) = opens (world s1)"
    proof (cases doListen)
      case True
      with that show thesis
        by (rule_tac call_neutral[of opens "nk_reuseaddr N fd" id s1]) (simp_all add: law_calls[OF L])
    qed (use that in auto)
    obtain c s3 where c: "syscall (nk_bind N fd (ai_addr rp) (ai_addrlen rp)) s2 = (Inr c, s3)" "opens (world s3) = opens (world s2)"
      by (rule call_neutral[of opens "nk_bind N fd (ai_addr rp) (ai_addrlen rp)" id s2]) (simp_all add: law_calls[OF L])
    have close: "\<exists>d t'. syscall (nk_close N fd) t = (Inr d, t') \<and> opens (world t') = opens (world t) - {fd}" for t
      by (rule call_neutral[of opens "nk_close N fd" "\<lambda>X. X - {fd}" t]) (auto simp: law_calls[OF L])
    show ?thesis
    proof (cases "o1 = None")
      case True
      obtain d t where d: "syscall (nk_close N fd) s2 = (Inr d, t)" "opens (world t) = opens (world s2) - {fd}" using close by blast
      have "opens (world t) = opens (world s)" using ok o1 d by auto
      with True ok o1 d show ?thesis by (auto simp: balanced_def)
    next
      case o1_ok: False
      show ?thesis
      proof (cases "c = None")
        case True
        obtain d t where d: "syscall (nk_close N fd) s3 = (Inr d, t)" "opens (world t) = opens (world s3) - {fd}" using close by blast
        have restored: "opens (world t) = opens (world s)" using ok o1 c d by auto
        from True o1_ok ok o1 c d Cons.IH[of t] show ?thesis by (simp add: balanced_from[OF restored])
      next
        case False
        with o1_ok ok o1 c show ?thesis by (auto simp: balanced_def)
      qed
    qed
  qed
qed

lemma resolve_run:
  assumes "descriptor_laws opens N"
  obtains r s1 where "resolve N h sv hi s = (Inr r, s1)" and "opens (world s1) = opens (world s)"
  using assms law_calls(6)[OF assms, of h sv hi "world s"]
  by (cases "nk_getaddrinfo N h sv hi (world s)") (auto simp: resolve_def)

lemma unix_socket_balanced:
  assumes L: "descriptor_laws opens N" and A: "\<And>fd a l w. opens (snd (attach fd a l w)) = opens w"
  shows "\<exists>fd s'. unix_socket N attach path type s = (Inr fd, s') \<and> balanced opens s fd s'"
proof (cases "\<exists>p. path = Some p \<and> length p < SUN_PATH_LEN")
  case False
  then show ?thesis by (cases path) (auto simp: unix_socket_def unixBuildAddress_def balanced_def)
next
  case True
  then obtain p where p: "path = Some p" "length p < SUN_PATH_LEN" by blast
  let ?a = "take (SUN_PATH_LEN - 1) p @ replicate (SUN_PATH_LEN - min (SUN_PATH_LEN - 1) (length p)) NUL"
  show ?thesis
  proof (cases rule: call_socket[OF L, of AF_UNIX type 0 s, case_names fail ok])
    case (fail s1)
    with p show ?thesis by (simp add: unix_socket_def unixBuildAddress_def balanced_def)
  next
    case (ok fd s1)
    obtain c s2 where c: "syscall (attach fd ?a (SUN_PATH_LEN + 2)) s1 = (Inr c, s2)" "opens (world s2) = opens (world s1)"
      by (rule call_neutral[of opens "attach fd ?a (SUN_PATH_LEN + 2)" id s1]) (simp_all add: A)
    obtain d s3 where d: "syscall (nk_close N fd) s2 = (Inr d, s3)" "opens (world s3) = opens (world s2) - {fd}"
      by (rule call_neutral[of opens "nk_close N fd" "\<lambda>X. X - {fd}" s2]) (simp_all add: law_calls[OF L])
    have restored: "opens (world s3) = opens (world s)" using ok c d by auto
    show ?thesis
    proof (cases "c = None")
      case True
      with p ok c d restored show ?thesis by (simp add: unix_socket_def unixBuildAddress_def close_keeping_errno_def balanced_def)
    next
      case False
      with p ok c show ?thesis by (simp add: unix_socket_def unixBuildAddress_def balanced_def)
    qed
  qed
qed

lemma inetPassiveSocket_balanced:
  assumes L: "descriptor_laws opens N"
  shows "\<exists>fd l s'. inetPassiveSocket N service type addrlen doListen backlog s = (Inr (fd, l), s')
    \<and> (balanced opens s fd s'
       \<or> doListen \<and> fd = - 1 \<and> (\<exists>sfd w. sfd \<notin> opens (world s) \<and> opens (world s') = insert sfd (opens (world s))
            \<and> isl (fst (nk_listen N sfd backlog w))))"
proof -
  obtain r s1 where r: "resolve N None service \<lparr>h_family = AF_UNSPEC, h_socktype = type, h_flags = AI_PASSIVE\<rparr> s = (Inr r, s1)"
    "opens (world s1) = opens (world s)" by (rule resolve_run[OF L])
  show ?thesis
  proof (cases r)
    case None
    with r show ?thesis by (simp add: inetPassiveSocket_def balanced_def)
  next
    case (Some result)
    obtain b s2 where b: "bind_first N doListen result s1 = (Inr b, s2)"
      "balanced opens s1 (case b of Bound fd l \<Rightarrow> fd | _ \<Rightarrow> - 1) s2" "\<And>l. b \<noteq> Bound (- 1) l"
      using bind_first_balanced[OF L, of doListen result s1] by auto
    note bal = b(2)[unfolded balanced_from[OF r(2)]]
    show ?thesis
    proof (cases b)
      case (Bound fd l)
      have fd: "0 \<le> fd" "fd \<notin> opens (world s)" "opens (world s2) = insert fd (opens (world s))"
        using bal b(3)[of l] Bound by (auto simp: balanced_def split: if_splits)
      show ?thesis
      proof (cases doListen)
        case True
        show ?thesis
        proof (cases rule: syscall_cases[of "nk_listen N fd backlog" s2])
          case (fail e w)
          have "isl (fst (nk_listen N fd backlog (world s2)))" "opens w = opens (world s2)"
            using fail law_calls(5)[OF L, of fd backlog "world s2"] by auto
          with True r Some b Bound fail fd show ?thesis
            by (auto simp: inetPassiveSocket_def intro!: exI[of _ fd] exI[of _ "world s2"])
        next
          case (ok a w)
          have "opens w = opens (world s2)" using ok law_calls(5)[OF L, of fd backlog "world s2"] by auto
          with True r Some b Bound ok fd show ?thesis by (auto simp: inetPassiveSocket_def balanced_def)
        qed
      next
        case False
        with r Some b Bound fd show ?thesis by (simp add: inetPassiveSocket_def balanced_def)
      qed
    qed (use r Some b bal in \<open>simp_all add: inetPassiveSocket_def\<close>)
  qed
qed

section \<open>Properties\<close>

text \<open>C25: No descriptor is leaked or lost: whatever the kernel answers, \<open>inetConnect\<close>, \<open>inetBind\<close>,
  \<open>unixConnect\<close> and \<open>unixBind\<close> return, with a descriptor that they have opened, and then nothing else is
  open that was not before, or with \<open>-1\<close>, and then the open descriptors are those of before.
  \<open>inetListen\<close> keeps to that too, except when \<open>listen\<close> fails: then the bound socket stays open.\<close>
theorem sockets_balanced:
  assumes "descriptor_laws opens N"
  shows "(\<exists>fd s'. inetConnect N host service type s = (Inr fd, s') \<and> balanced opens s fd s')
    \<and> (\<exists>fd l s'. inetBind N service type addrlen s = (Inr (fd, l), s') \<and> balanced opens s fd s')
    \<and> (\<exists>fd s'. unixConnect N path type s = (Inr fd, s') \<and> balanced opens s fd s')
    \<and> (\<exists>fd s'. unixBind N path type s = (Inr fd, s') \<and> balanced opens s fd s')
    \<and> (\<exists>fd l s'. inetListen N service backlog addrlen s = (Inr (fd, l), s')
         \<and> (balanced opens s fd s'
            \<or> fd = - 1 \<and> (\<exists>sfd w. sfd \<notin> opens (world s) \<and> opens (world s') = insert sfd (opens (world s))
                 \<and> isl (fst (nk_listen N sfd backlog w)))))"
proof (intro conjI)
  obtain r s1 where r: "resolve N host service \<lparr>h_family = AF_UNSPEC, h_socktype = type, h_flags = 0\<rparr> s = (Inr r, s1)"
    "opens (world s1) = opens (world s)" by (rule resolve_run[OF assms])
  show "\<exists>fd s'. inetConnect N host service type s = (Inr fd, s') \<and> balanced opens s fd s'"
  proof (cases r)
    case None
    with r show ?thesis by (simp add: inetConnect_def balanced_def)
  next
    case (Some result)
    with r connect_first_balanced[OF assms, of result s1] show ?thesis
      by (auto simp: inetConnect_def balanced_from[OF r(2)])
  qed
  show "\<exists>fd l s'. inetBind N service type addrlen s = (Inr (fd, l), s') \<and> balanced opens s fd s'"
    using inetPassiveSocket_balanced[OF assms, of service type addrlen False 0 s] by (simp add: inetBind_def)
  show "\<exists>fd s'. unixConnect N path type s = (Inr fd, s') \<and> balanced opens s fd s'"
    unfolding unixConnect_def by (rule unix_socket_balanced[OF assms]) (rule law_calls[OF assms])
  show "\<exists>fd s'. unixBind N path type s = (Inr fd, s') \<and> balanced opens s fd s'"
    unfolding unixBind_def by (rule unix_socket_balanced[OF assms]) (rule law_calls[OF assms])
  show "\<exists>fd l s'. inetListen N service backlog addrlen s = (Inr (fd, l), s')
         \<and> (balanced opens s fd s'
            \<or> fd = - 1 \<and> (\<exists>sfd w. sfd \<notin> opens (world s) \<and> opens (world s') = insert sfd (opens (world s))
                 \<and> isl (fst (nk_listen N sfd backlog w))))"
    using inetPassiveSocket_balanced[OF assms, of service SOCK_STREAM addrlen True backlog s] by (simp add: inetListen_def)
qed

text \<open>A kernel that counts: descriptor \<open>n\<close> is the next free one; the port is in use, so that \<open>listen\<close> fails.\<close>

definition busy_net :: "int set netkernel" where
  "busy_net = \<lparr>
     nk_getaddrinfo = (\<lambda>h sv hi w. (Some [\<lparr>ai_family = 10, ai_socktype = 1, ai_protocol = 6, ai_addr = ''a'', ai_addrlen = 28\<rparr>], w)),
     nk_getnameinfo = (\<lambda>a l f w. None),
     nk_socket = (\<lambda>f t p w. if 7 \<in> w then (Inl ENOMEM, w) else (Inr 7, insert 7 w)),
     nk_reuseaddr = (\<lambda>fd w. (Inr (), w)), nk_bind = (\<lambda>fd a l w. (Inr (), w)), nk_connect = (\<lambda>fd a l w. (Inl EACCES, w)),
     nk_listen = (\<lambda>fd n w. (Inl EACCES, w)), nk_close = (\<lambda>fd w. (Inr (), w - {fd}))\<rparr>"

theorem sockets_balanced_witness:
  "(\<exists>s'. inetConnect busy_net (Some ''h'') (Some ''80'') 1
      \<lparr>environment = [], p_errno = E_OK, pending = [], written = [], world = {0, 1, 2}\<rparr> = (Inr (- 1), s') \<and> world s' = {0, 1, 2})
   \<and> (\<exists>s'. inetListen busy_net (Some ''80'') 5 True
      \<lparr>environment = [], p_errno = E_OK, pending = [], written = [], world = {0, 1, 2}\<rparr> = (Inr (- 1, None), s') \<and> world s' = {7, 0, 1, 2})"
proof -
  let ?s = "\<lparr>environment = [], p_errno = E_OK, pending = [], written = [], world = {0, 1, 2}\<rparr> :: int set process"
  have L: "descriptor_laws id busy_net" by (simp add: descriptor_laws_def busy_net_def)
  have c: "fst (inetConnect busy_net (Some ''h'') (Some ''80'') 1 ?s) = Inr (- 1)"
    by (simp add: inetConnect_def resolve_def busy_net_def syscall_def andThen_run)
  have l: "\<exists>s'. inetListen busy_net (Some ''80'') 5 True ?s = (Inr (- 1, None), s') \<and> world s' = {7, 0, 1, 2}"
    by (simp add: inetListen_def inetPassiveSocket_def resolve_def busy_net_def syscall_def andThen_run)
  obtain fd s' where "inetConnect busy_net (Some ''h'') (Some ''80'') 1 ?s = (Inr fd, s')" "balanced id ?s fd s'"
    using sockets_balanced[OF L] by blast
  with c l show ?thesis by (auto simp: balanced_def)
qed

text \<open>\<open>unixBuildAddress\<close>: a path that fits with its null byte is stored so that it reads back as a C
  string and the rest of the array is null; a longer one is refused with \<open>ENAMETOOLONG\<close> and leaves an
  empty path; null pointers are refused.\<close>
theorem unixBuildAddress_path:
  assumes "NUL \<notin> set p"
  shows "unixBuildAddress (Some p) (Some a) s =
    (if length p < 108
     then (Inr (0, Some \<lparr>sun_family = AF_UNIX, sun_path = p @ replicate (108 - length p) NUL\<rparr>), s)
     else (Inr (- 1, Some \<lparr>sun_family = AF_UNIX, sun_path = replicate 108 NUL\<rparr>), s\<lparr>p_errno := ENAMETOOLONG\<rparr>))
    \<and> takeWhile (\<lambda>c. c \<noteq> NUL) (p @ replicate (108 - length p) NUL) = p"
proof -
  have "takeWhile (\<lambda>c. c \<noteq> NUL) (p @ replicate n NUL) = p" for n
    using assms by (cases n) (auto simp: takeWhile_append)
  moreover have "min 107 (length p) = length p \<and> take 107 p = p" if "length p < 108" using that by simp
  ultimately show ?thesis by (simp add: unixBuildAddress_def)
qed
end
