(* ===== verification/Seqnum.thy ===== *)
theory Seqnum
  imports Sockets Num_Args Byte_IO Wp
begin

text \<open>
  The sequence number services: \<open>sockets/is_seqnum_sv.c\<close> and \<open>is_seqnum_cl.c\<close>, their second versions
  \<open>is_seqnum_v2_sv.c\<close> and \<open>is_seqnum_v2_cl.c\<close>, and \<open>pipes/fifo_seqnum_server.c\<close> and
  \<open>fifo_seqnum_client.c\<close>.

  A server is a round that is repeated for ever: it takes the next number and gives the new one. The
  result \<open>None\<close> of a round says that the fuel of \<open>readLine\<close> was too small. The interface
  \<open>number_service\<close> states what a round promises, and its lemmas are about any sequence of rounds.
\<close>

section \<open>The calls\<close>

record 'w svkernel =
  sv_net :: "'w netkernel"
  sv_ignore_sigpipe :: "('w, unit) kcall"
  sv_accept :: "int \<Rightarrow> nat \<Rightarrow> ('w, int \<times> string \<times> nat) kcall"
  sv_read :: "int \<Rightarrow> 'w sys_read"
  sv_write :: "int \<Rightarrow> string \<Rightarrow> ('w, nat) kcall"
  sv_malloc_ok :: "'w \<Rightarrow> nat \<Rightarrow> bool"

definition INT_LEN :: nat where "INT_LEN = 30"

abbreviation (input) ADDRSTRLEN :: nat where "ADDRSTRLEN \<equiv> 1067"
abbreviation (input) IS_ADDR_STR_LEN :: nat where "IS_ADDR_STR_LEN \<equiv> 4096"
abbreviation (input) SOCKADDR_STORAGE_SIZE :: nat where "SOCKADDR_STORAGE_SIZE \<equiv> 128"

text \<open>\<open>readLine\<close> on a descriptor: its return value and the contents of the buffer.\<close>

definition read_line_of :: "nat \<Rightarrow> 'w sys_read \<Rightarrow> nat \<Rightarrow> ('w process, (int \<times> string) option) program" where
  "read_line_of fuel rd n = (\<lambda>s. case readLine fuel rd False n (world s) of
       None \<Rightarrow> (Inr None, s)
     | Some (Inl e, l, w) \<Rightarrow> (Inr (Some (- 1, l)), s\<lparr>p_errno := e, world := w\<rparr>)
     | Some (Inr m, l, w) \<Rightarrow> (Inr (Some (int m, l)), s\<lparr>world := w\<rparr>))"

text \<open>\<open>getInt\<close> in a program: it prints what is wrong and exits.\<close>

definition get_int :: "string \<Rightarrow> 32 word \<Rightarrow> string \<Rightarrow> ('w process, int) program" where
  "get_int arg flags name = (case getInt (Some arg) flags (Some name) of
     Inl t \<Rightarrow> andThen (eprintf ''%s'' [FStr t]) (\<lambda>_. exit_process EXIT_FAILURE)
   | Inr n \<Rightarrow> ret n)"

section \<open>\<open>is_seqnum_sv.c\<close>\<close>

definition INIT_SEQ_USAGE :: string where "INIT_SEQ_USAGE = ''%s [init-seq-num]\<newline>''"

text \<open>The number is an \<open>uint32_t\<close>; \<open>%d\<close> prints it as a signed one.\<close>

definition seqNumStr :: "32 word \<Rightarrow> string" where
  "seqNumStr seqNum = snprintf_buf INT_LEN (show_int (sint seqNum) @ [NL])"

text \<open>From the request of a client to the close of the connection.\<close>

definition serve_request :: "err_texts \<Rightarrow> 'w svkernel \<Rightarrow> nat \<Rightarrow> int \<Rightarrow> 32 word \<Rightarrow> ('w process, 32 word option) program" where
  "serve_request et K fuel cfd seqNum =
     andThen (read_line_of fuel (sv_read K cfd) INT_LEN) (\<lambda>r. case r of
       None \<Rightarrow> ret None
     | Some (numRead, reqLenStr) \<Rightarrow>
         if numRead \<le> 0 then andThen (syscall (nk_close (sv_net K) cfd)) (\<lambda>_. ret (Some seqNum))
         else let reqLen = atoi (c_string reqLenStr) in
         if reqLen \<le> 0 then andThen (syscall (nk_close (sv_net K) cfd)) (\<lambda>_. ret (Some seqNum))
         else
         andThen (syscall (sv_write K cfd (seqNumStr seqNum))) (\<lambda>wr.
         andThen (if wr \<noteq> Some (length (seqNumStr seqNum)) then eprintf ''Error on write'' [] else ret ()) (\<lambda>_.
         andThen (syscall (nk_close (sv_net K) cfd)) (\<lambda>c.
         andThen (if c = None then errMsg et ''close'' [] else ret ()) (\<lambda>_.
         ret (Some (seqNum + word_of_int reqLen)))))))"

definition server_round ::
  "err_texts \<Rightarrow> 'w svkernel \<Rightarrow> (string \<Rightarrow> nat \<Rightarrow> ('w process, string) program) \<Rightarrow> nat \<Rightarrow> nat \<Rightarrow> int \<Rightarrow> 32 word
    \<Rightarrow> ('w process, 32 word option) program" where
  "server_round et K addressStr addrlen fuel lfd seqNum =
     andThen (syscall (sv_accept K lfd addrlen)) (\<lambda>a. case a of
       None \<Rightarrow> andThen (errMsg et ''accept'' []) (\<lambda>_. ret (Some seqNum))
     | Some (cfd, claddr, alen) \<Rightarrow>
         andThen (addressStr claddr alen) (\<lambda>addrStr.
         andThen (printf ''Connection from %s\<newline>'' [FStr addrStr]) (\<lambda>_.
         serve_request et K fuel cfd seqNum)))"

definition client_address :: "'w svkernel \<Rightarrow> string \<Rightarrow> nat \<Rightarrow> ('w process, string) program" where
  "client_address K claddr alen =
     andThen (query (\<lambda>s. nk_getnameinfo (sv_net K) claddr alen 0 (world s))) (\<lambda>r.
     ret (snprintf_buf ADDRSTRLEN (case r of
       Some (host, service) \<Rightarrow> ''('' @ host @ '', '' @ service @ '')''
     | None \<Rightarrow> ''(?UNKNOWN?)'')))"

fun sv_bind_first :: "err_texts \<Rightarrow> 'w netkernel \<Rightarrow> addrinfo list \<Rightarrow> ('w process, int option) program" where
  "sv_bind_first et N [] = ret None"
| "sv_bind_first et N (rp # rps) =
     andThen (syscall (nk_socket N (ai_family rp) (ai_socktype rp) (ai_protocol rp))) (\<lambda>r. case r of
       None \<Rightarrow> sv_bind_first et N rps
     | Some lfd \<Rightarrow>
         andThen (or_die (syscall (nk_reuseaddr N lfd)) (errExit et ''setsockopt'' [])) (\<lambda>_.
         andThen (syscall (nk_bind N lfd (ai_addr rp) (ai_addrlen rp))) (\<lambda>b.
         if b \<noteq> None then ret (Some lfd)
         else andThen (syscall (nk_close N lfd)) (\<lambda>_. sv_bind_first et N rps))))"

text \<open>The first lines of both servers: the number to begin with.\<close>

definition init_seqNum :: "err_texts \<Rightarrow> 'w svkernel \<Rightarrow> string list \<Rightarrow> ('w process, 32 word) program" where
  "init_seqNum et K argv =
     andThen (if length argv > 1 \<and> argv ! 1 = ''--help'' then usageErr INIT_SEQ_USAGE [FStr (argv ! 0)] else ret ()) (\<lambda>_.
     andThen (if length argv > 1 then get_int (argv ! 1) 0 ''init-seq-num'' else ret 0) (\<lambda>n.
     andThen (or_die (syscall (sv_ignore_sigpipe K)) (errExit et ''signal'' [])) (\<lambda>_.
     ret (word_of_int n))))"

fun rounds :: "('n \<Rightarrow> ('s, 'n option) program) \<Rightarrow> nat \<Rightarrow> 'n \<Rightarrow> ('s, 'n option) program" where
  "rounds body 0 q = ret (Some q)"
| "rounds body (Suc n) q =
     andThen (body q) (\<lambda>r. case r of None \<Rightarrow> ret None | Some q' \<Rightarrow> rounds body n q')"

text \<open>The program up to its \<open>n\<close>-th round.\<close>

definition is_seqnum_sv :: "err_texts \<Rightarrow> 'w svkernel \<Rightarrow> nat \<Rightarrow> nat \<Rightarrow> string list \<Rightarrow> ('w process, 32 word option) program" where
  "is_seqnum_sv et K fuel n argv =
     andThen (init_seqNum et K argv) (\<lambda>seqNum.
     andThen (resolve (sv_net K) None (Some ''50000'')
       \<lparr>h_family = AF_UNSPEC, h_socktype = SOCK_STREAM, h_flags = AI_PASSIVE + AI_NUMERICSERV\<rparr>) (\<lambda>r. case r of
       None \<Rightarrow> errExit et ''getaddrinfo'' []
     | Some result \<Rightarrow>
         andThen (sv_bind_first et (sv_net K) result) (\<lambda>b. case b of
           None \<Rightarrow> fatal et ''Could not bind socket to any address'' []
         | Some lfd \<Rightarrow>
             andThen (or_die (syscall (nk_listen (sv_net K) lfd 50)) (errExit et ''listen'' [])) (\<lambda>_.
             rounds (server_round et K (client_address K) SOCKADDR_STORAGE_SIZE fuel lfd) n seqNum))))"

section \<open>\<open>is_seqnum_v2_sv.c\<close>\<close>

definition is_seqnum_v2_sv :: "err_texts \<Rightarrow> 'w svkernel \<Rightarrow> nat \<Rightarrow> nat \<Rightarrow> string list \<Rightarrow> ('w process, 32 word option) program" where
  "is_seqnum_v2_sv et K fuel n argv =
     andThen (init_seqNum et K argv) (\<lambda>seqNum.
     andThen (inetListen (sv_net K) (Some ''50000'') 5 True) (\<lambda>(lfd, al).
     if lfd = - 1 then fatal et ''inetListen() failed'' []
     else
     andThen (query (\<lambda>s. sv_malloc_ok K (world s) (the al))) (\<lambda>ok.
     if \<not> ok then errExit et ''malloc'' []
     else rounds (server_round et K (\<lambda>claddr alen. inetAddressStr (sv_net K) claddr alen IS_ADDR_STR_LEN) (the al) fuel lfd) n seqNum)))"

section \<open>\<open>is_seqnum_cl.c\<close> and \<open>is_seqnum_v2_cl.c\<close>\<close>

text \<open>The exchange on a connected socket; \<open>None\<close> if the fuel was too small, otherwise the process
  ends.\<close>

definition request_number :: "err_texts \<Rightarrow> 'w svkernel \<Rightarrow> nat \<Rightarrow> int \<Rightarrow> string list \<Rightarrow> ('w process, unit option) program" where
  "request_number et K fuel cfd argv =
     (let reqLenStr = (if length argv > 2 then argv ! 2 else ''1'') in
      andThen (syscall (sv_write K cfd reqLenStr)) (\<lambda>w1.
      if w1 \<noteq> Some (length reqLenStr) then fatal et ''Partial/failed write (reqLenStr)'' []
      else
      andThen (syscall (sv_write K cfd [NL])) (\<lambda>w2.
      if w2 \<noteq> Some 1 then fatal et ''Partial/failed write (newline)'' []
      else
      andThen (read_line_of fuel (sv_read K cfd) INT_LEN) (\<lambda>r. case r of
        None \<Rightarrow> ret None
      | Some (numRead, str) \<Rightarrow>
          if numRead = - 1 then errExit et ''readLine'' []
          else if numRead = 0 then fatal et ''Unexpected EOF from server'' []
          else andThen (printf ''Sequence number: %s'' [FStr (c_string str)]) (\<lambda>_. exit_process EXIT_SUCCESS)))))"

definition cl_usage :: "string list \<Rightarrow> ('w process, unit) program" where
  "cl_usage argv = (if length argv < 2 \<or> argv ! 1 = ''--help''
     then usageErr ''%s server-host [sequence-len]\<newline>'' [FStr (argv ! 0)] else ret ())"

definition is_seqnum_cl :: "err_texts \<Rightarrow> 'w svkernel \<Rightarrow> nat \<Rightarrow> string list \<Rightarrow> ('w process, unit option) program" where
  "is_seqnum_cl et K fuel argv =
     andThen (cl_usage argv) (\<lambda>_.
     andThen (resolve (sv_net K) (Some (argv ! 1)) (Some ''50000'')
       \<lparr>h_family = AF_UNSPEC, h_socktype = SOCK_STREAM, h_flags = AI_NUMERICSERV\<rparr>) (\<lambda>r. case r of
       None \<Rightarrow> errExit et ''getaddrinfo'' []
     | Some result \<Rightarrow>
         andThen (connect_first (sv_net K) result) (\<lambda>c. case c of
           None \<Rightarrow> fatal et ''Could not connect socket to any address'' []
         | Some cfd \<Rightarrow> request_number et K fuel cfd argv)))"

definition is_seqnum_v2_cl :: "err_texts \<Rightarrow> 'w svkernel \<Rightarrow> nat \<Rightarrow> string list \<Rightarrow> ('w process, unit option) program" where
  "is_seqnum_v2_cl et K fuel argv =
     andThen (cl_usage argv) (\<lambda>_.
     andThen (inetConnect (sv_net K) (Some (argv ! 1)) (Some ''50000'') SOCK_STREAM) (\<lambda>cfd.
     if cfd = - 1 then fatal et ''inetConnect() failed'' []
     else request_number et K fuel cfd argv))"

section \<open>\<open>fifo_seqnum_server.c\<close>\<close>

record 'w fifokernel =
  fk_umask :: "int \<Rightarrow> 'w \<Rightarrow> 'w"
  fk_mkfifo :: "string \<Rightarrow> int \<Rightarrow> ('w, unit) kcall"
  fk_open_rd :: "string \<Rightarrow> ('w, int) kcall"
  fk_open_wr :: "string \<Rightarrow> ('w, int) kcall"
  fk_ignore_sigpipe :: "('w, unit) kcall"
  fk_read :: "int \<Rightarrow> nat \<Rightarrow> ('w, string) kcall"
  fk_write :: "int \<Rightarrow> string \<Rightarrow> ('w, nat) kcall"
  fk_close :: "int \<Rightarrow> ('w, unit) kcall"
  fk_unlink :: "string \<Rightarrow> ('w, unit) kcall"
  fk_getpid :: "'w \<Rightarrow> int"
  fk_atexit_ok :: "'w \<Rightarrow> bool"

abbreviation (input) FIFO_MODE :: int where "FIFO_MODE \<equiv> 0x190"

definition SERVER_FIFO :: string where "SERVER_FIFO = ''/tmp/seqnum_sv''"

definition CLIENT_FIFO_NAME_LEN :: nat where "CLIENT_FIFO_NAME_LEN = 39"

definition clientFifo :: "int \<Rightarrow> string" where
  "clientFifo pid = snprintf_buf CLIENT_FIFO_NAME_LEN (''/tmp/seqnum_cl.'' @ show_int pid)"

text \<open>An \<open>int\<close> in memory: four bytes, the lowest first.\<close>

definition int_bytes :: "int \<Rightarrow> string" where
  "int_bytes i = map (\<lambda>j. char_of (nat (i div 256 ^ j mod 256))) [0, 1, 2, 3]"

definition bytes_int :: "string \<Rightarrow> int" where
  "bytes_int bs = sint (word_of_int (foldr (\<lambda>c v. int (of_char c) + 256 * v) bs 0) :: 32 word)"

record request =
  pid :: int
  seqLen :: int

definition request_bytes :: "request \<Rightarrow> string" where
  "request_bytes q = int_bytes (pid q) @ int_bytes (seqLen q)"

definition bytes_request :: "string \<Rightarrow> request" where
  "bytes_request bs = \<lparr>pid = bytes_int (take 4 bs), seqLen = bytes_int (take 4 (drop 4 bs))\<rparr>"

text \<open>The sum is a signed one: past the largest \<open>int\<close> its behaviour is not defined.\<close>

definition add_int :: "int \<Rightarrow> int \<Rightarrow> ('s, int) program" where
  "add_int a b = (if INT_MIN \<le> a + b \<and> a + b \<le> INT_MAX then ret (a + b) else halts Undefined)"

definition fifo_round :: "err_texts \<Rightarrow> 'w fifokernel \<Rightarrow> int \<Rightarrow> int \<Rightarrow> ('w process, int option) program" where
  "fifo_round et K serverFd seqNum =
     andThen (syscall (fk_read K serverFd 8)) (\<lambda>r.
     if r = None \<or> length (the r) \<noteq> 8
     then andThen (eprintf ''Error reading request; discarding\<newline>'' []) (\<lambda>_. ret (Some seqNum))
     else let req = bytes_request (the r) in
     andThen (syscall (fk_open_wr K (clientFifo (pid req)))) (\<lambda>c. case c of
       None \<Rightarrow> andThen (errMsg et ''open %s'' [FStr (clientFifo (pid req))]) (\<lambda>_. ret (Some seqNum))
     | Some clientFd \<Rightarrow>
         andThen (syscall (fk_write K clientFd (int_bytes seqNum))) (\<lambda>wr.
         andThen (if wr \<noteq> Some 4 then eprintf ''Error writing to FIFO %s\<newline>'' [FStr (clientFifo (pid req))] else ret ()) (\<lambda>_.
         andThen (syscall (fk_close K clientFd)) (\<lambda>cl.
         andThen (if cl = None then errMsg et ''close'' [] else ret ()) (\<lambda>_.
         andThen (add_int seqNum (seqLen req)) (\<lambda>q. ret (Some q))))))))"

definition make_fifo :: "err_texts \<Rightarrow> 'w fifokernel \<Rightarrow> string \<Rightarrow> ('w process, unit) program" where
  "make_fifo et K name =
     andThen (modify (\<lambda>s. s\<lparr>world := fk_umask K 0 (world s)\<rparr>)) (\<lambda>_.
     andThen (syscall (fk_mkfifo K name FIFO_MODE)) (\<lambda>m.
     andThen (query p_errno) (\<lambda>e.
     if m = None \<and> e \<noteq> EEXIST then errExit et ''mkfifo %s'' [FStr name] else ret ())))"

definition fifo_seqnum_server :: "err_texts \<Rightarrow> 'w fifokernel \<Rightarrow> nat \<Rightarrow> ('w process, int option) program" where
  "fifo_seqnum_server et K n =
     andThen (make_fifo et K SERVER_FIFO) (\<lambda>_.
     andThen (or_die (syscall (fk_open_rd K SERVER_FIFO)) (errExit et ''open %s'' [FStr SERVER_FIFO])) (\<lambda>serverFd.
     andThen (or_die (syscall (fk_open_wr K SERVER_FIFO)) (errExit et ''open %s'' [FStr SERVER_FIFO])) (\<lambda>dummyFd.
     andThen (or_die (syscall (fk_ignore_sigpipe K)) (errExit et ''signal'' [])) (\<lambda>_.
     rounds (fifo_round et K serverFd) n 0))))"

section \<open>\<open>fifo_seqnum_client.c\<close>\<close>

definition removeFifo :: "'w fifokernel \<Rightarrow> string \<Rightarrow> ('w process, unit) program" where
  "removeFifo K name = andThen (syscall (fk_unlink K name)) (\<lambda>_. ret ())"

definition send_request :: "err_texts \<Rightarrow> 'w fifokernel \<Rightarrow> string list \<Rightarrow> string \<Rightarrow> ('w process, unit) program" where
  "send_request et K argv name =
     andThen (query (\<lambda>s. fk_getpid K (world s))) (\<lambda>me.
     andThen (if length argv > 1 then get_int (argv ! 1) GN_GT_0 ''seq-len'' else ret 1) (\<lambda>n.
     andThen (or_die (syscall (fk_open_wr K SERVER_FIFO)) (errExit et ''open %s'' [FStr SERVER_FIFO])) (\<lambda>serverFd.
     andThen (syscall (fk_write K serverFd (request_bytes \<lparr>pid = me, seqLen = n\<rparr>))) (\<lambda>wr.
     if wr \<noteq> Some 8 then fatal et ''Can't write to server'' []
     else
     andThen (or_die (syscall (fk_open_rd K name)) (errExit et ''open %s'' [FStr name])) (\<lambda>clientFd.
     andThen (syscall (fk_read K clientFd 4)) (\<lambda>r.
     if r = None \<or> length (the r) \<noteq> 4 then fatal et ''Can't read response from server'' []
     else andThen (printf ''%d\<newline>'' [FInt (bytes_int (the r))]) (\<lambda>_. exit_process EXIT_SUCCESS)))))))"

definition fifo_seqnum_client :: "err_texts \<Rightarrow> 'w fifokernel \<Rightarrow> string list \<Rightarrow> ('w process, unit) program" where
  "fifo_seqnum_client et K argv =
     andThen (if length argv > 1 \<and> argv ! 1 = ''--help'' then usageErr ''%s [seq-len]\<newline>'' [FStr (argv ! 0)] else ret ()) (\<lambda>_.
     andThen (query (\<lambda>s. clientFifo (fk_getpid K (fk_umask K 0 (world s))))) (\<lambda>name.
     andThen (make_fifo et K name) (\<lambda>_.
     andThen (query (\<lambda>s. fk_atexit_ok K (world s))) (\<lambda>ok.
     if \<not> ok then errExit et ''atexit'' []
     else at_exit (removeFifo K name) (send_request et K argv name)))))"

section \<open>What the services promise\<close>

text \<open>The first numbers of the blocks that are given out one after the other.\<close>

fun starts :: "('n \<Rightarrow> int \<Rightarrow> 'n) \<Rightarrow> 'n \<Rightarrow> int list \<Rightarrow> 'n list" where
  "starts add q [] = []"
| "starts add q (l # ls) = q # starts add (add q l) ls"

lemma length_starts [simp]: "length (starts add q ls) = length ls"
  by (induction ls arbitrary: q) auto

text \<open>The contract of a round under laws of the calls, over what the calls did: the trace grows by a
  session that belongs to the number the round began with, and the number goes on by what was wanted in
  that session. A round without result, in a model with fuel, is \<open>short\<close> of it.\<close>

locale number_service =
  fixes laws :: "'k \<Rightarrow> bool" and body :: "'k \<Rightarrow> 'n \<Rightarrow> ('s, 'n option) program"
    and trace :: "'k \<Rightarrow> 's \<Rightarrow> 'e list" and session :: "'n \<Rightarrow> 'e list \<Rightarrow> bool" and wanted :: "'e list \<Rightarrow> int"
    and add :: "'n \<Rightarrow> int \<Rightarrow> 'n" and short :: "'k \<Rightarrow> bool"
  assumes round: "laws k \<Longrightarrow> body k q s = (Inr (Some q'), s') \<Longrightarrow>
      \<exists>r. trace k s' = trace k s @ r \<and> session q r \<and> q' = add q (wanted r)"
    and fuel: "laws k \<Longrightarrow> body k q s = (Inr None, s') \<Longrightarrow> short k"
begin

lemma all_rounds:
  assumes "laws k" and "rounds (body k) n q s = (Inr (Some q'), s')"
  shows "\<exists>rs. trace k s' = trace k s @ concat rs \<and> length rs = n \<and> q' = foldl add q (map wanted rs)
    \<and> list_all2 session (starts add q (map wanted rs)) rs"
  using assms(2)
proof (induction n arbitrary: q s)
  case 0
  then show ?case by (intro exI[of _ "[]"]) simp
next
  case (Suc n)
  then obtain r s1 where b: "body k q s = (Inr r, s1)" "(case r of None \<Rightarrow> ret None | Some q1 \<Rightarrow> rounds (body k) n q1) s1 = (Inr (Some q'), s')"
    by (auto elim: andThen_InrE)
  then obtain q1 where q1: "r = Some q1" "rounds (body k) n q1 s1 = (Inr (Some q'), s')" by (cases r) auto
  from Suc.IH[OF q1(2)] obtain rs where IH: "trace k s' = trace k s1 @ concat rs" "length rs = n"
    "q' = foldl add q1 (map wanted rs)" "list_all2 session (starts add q1 (map wanted rs)) rs" by blast
  from round[OF assms(1) b(1)[unfolded q1(1)]] obtain r where
    "trace k s1 = trace k s @ r" "session q r" "q1 = add q (wanted r)" by blast
  with IH show ?case by (intro exI[of _ "r # rs"]) simp
qed

lemma rounds_short:
  assumes "laws k" and "rounds (body k) n q s = (Inr None, s')"
  shows "short k"
  using assms(2)
proof (induction n arbitrary: q s)
  case (Suc n)
  then obtain r s1 where b: "body k q s = (Inr r, s1)" "(case r of None \<Rightarrow> ret None | Some q1 \<Rightarrow> rounds (body k) n q1) s1 = (Inr None, s')"
    by (auto elim: andThen_InrE)
  then show ?case using fuel[OF assms(1)] Suc.IH by (cases r) auto
qed simp

end

subsection \<open>The servers on sockets\<close>

text \<open>What the calls on a connection did, with their results.\<close>

datatype wire = Accepted int | Got int "errno + string" | Put int string "errno + nat"

definition wire_laws :: "('w \<Rightarrow> wire list) \<Rightarrow> 'w svkernel \<Rightarrow> bool" where
  "wire_laws tr K = (
     (\<forall>fd l w. tr (snd (sv_accept K fd l w))
        = tr w @ (case fst (sv_accept K fd l w) of Inl _ \<Rightarrow> [] | Inr (cfd, _) \<Rightarrow> [Accepted cfd]))
   \<and> (\<forall>fd n w. tr (snd (sv_read K fd w n)) = tr w @ [Got fd (fst (sv_read K fd w n))])
   \<and> (\<forall>fd n w bs w'. sv_read K fd w n = (Inr bs, w') \<longrightarrow> length bs \<le> n)
   \<and> (\<forall>fd t w. tr (snd (sv_write K fd t w)) = tr w @ [Put fd t (fst (sv_write K fd t w))])
   \<and> (\<forall>w. tr (snd (sv_ignore_sigpipe K w)) = tr w)
   \<and> (\<forall>f t p w. tr (snd (nk_socket (sv_net K) f t p w)) = tr w)
   \<and> (\<forall>fd w. tr (snd (nk_close (sv_net K) fd w)) = tr w)
   \<and> (\<forall>fd a l w. tr (snd (nk_connect (sv_net K) fd a l w)) = tr w)
   \<and> (\<forall>fd a l w. tr (snd (nk_bind (sv_net K) fd a l w)) = tr w)
   \<and> (\<forall>fd w. tr (snd (nk_reuseaddr (sv_net K) fd w)) = tr w)
   \<and> (\<forall>fd n w. tr (snd (nk_listen (sv_net K) fd n w)) = tr w)
   \<and> (\<forall>h sv hi w. tr (snd (nk_getaddrinfo (sv_net K) h sv hi w)) = tr w))"

text \<open>The length a client asked for, from the results of the reads: the number at the beginning of the
  line, of which the buffer holds 29 characters, or 0 if a read failed.\<close>

definition asked :: "(errno + string) list \<Rightarrow> int" where
  "asked gs = (if \<exists>e. Inl e \<in> set gs \<and> e \<noteq> EINTR then 0
     else atoi (c_string (take (INT_LEN - 1) (concat (map (case_sum (\<lambda>_. []) id) gs)))))"

fun got :: "wire list \<Rightarrow> (errno + string) list" where
  "got [] = []"
| "got (Got fd g # r) = g # got r"
| "got (x # r) = got r"

definition wanted :: "wire list \<Rightarrow> int" where
  "wanted r = max 0 (asked (got r))"

text \<open>A session with a client: nothing at all if it could not be accepted; otherwise its request is read
  from it, and if it asks for a positive length it is sent the line of the number, and nothing else.\<close>

definition session :: "32 word \<Rightarrow> wire list \<Rightarrow> bool" where
  "session q r \<longleftrightarrow> r = [] \<or> (\<exists>fd gs tail. r = Accepted fd # map (Got fd) gs @ tail
     \<and> (if 0 < asked gs then \<exists>res. tail = [Put fd (show_int (sint q) @ [NL]) res] else tail = []))"

lemma got_reads [simp]: "got (map (Got fd) gs @ r) = gs @ got r"
  by (induction gs) auto

lemma got_reads' [simp]: "got (map (Got fd) gs) = gs"
  by (induction gs) auto

lemma atoi_Nil [simp]: "atoi [] = 0"
  by code_simp

lemma asked_Nil [simp]: "asked [] = 0"
  by (simp add: asked_def c_string_def)

lemma wire_quiet [pres]:
  assumes "wire_laws tr K"
  shows "preserves tr (syscall (sv_ignore_sigpipe K))"
    "preserves tr (syscall (nk_socket (sv_net K) f t p))" "preserves tr (syscall (nk_close (sv_net K) fd))"
    "preserves tr (syscall (nk_connect (sv_net K) fd a l))" "preserves tr (syscall (nk_bind (sv_net K) fd a l))"
    "preserves tr (syscall (nk_reuseaddr (sv_net K) fd))" "preserves tr (syscall (nk_listen (sv_net K) fd b))"
    "preserves tr (resolve (sv_net K) h sv hi)"
proof -
  show "preserves tr (resolve (sv_net K) h sv hi)"
    using assms by (auto simp: wire_laws_def preserves_def resolve_def split: prod.split) (metis snd_conv)
qed (use assms in \<open>auto simp: wire_laws_def intro!: preserves_syscall\<close>)

lemma wire_short: "wire_laws tr K \<Longrightarrow> sv_read K fd w n = (Inr bs, w') \<Longrightarrow> length bs \<le> n"
  unfolding wire_laws_def by (elim conjE) metis

lemma wire_write:
  assumes "wire_laws tr K" and "syscall (sv_write K fd t) s = (Inr r, s')"
  shows "\<exists>res. tr (world s') = tr (world s) @ [Put fd t res]"
proof -
  have "tr w = tr (world s) @ [Put fd t q]" if "sv_write K fd t (world s) = (q, w)" for q w
    using assms(1) that unfolding wire_laws_def by (metis fst_conv snd_conv)
  with assms(2) show ?thesis by (cases rule: syscall_cases[of "sv_write K fd t" s]) auto
qed

lemma wire_accept:
  assumes "wire_laws tr K" and "syscall (sv_accept K fd l) s = (Inr r, s')"
  shows "tr (world s') = tr (world s) @ (case r of None \<Rightarrow> [] | Some (cfd, _) \<Rightarrow> [Accepted cfd])"
proof -
  have "tr w = tr (world s) @ (case q of Inl _ \<Rightarrow> [] | Inr (cfd, _) \<Rightarrow> [Accepted cfd])" if "sv_accept K fd l (world s) = (q, w)" for q w
    using assms(1) that unfolding wire_laws_def by (metis fst_conv snd_conv)
  with assms(2) show ?thesis by (cases rule: syscall_cases[of "sv_accept K fd l" s]) auto
qed

text \<open>The reads of \<open>readLine\<close>, whatever they return.\<close>

lemma readLine_loop_trace:
  assumes L: "wire_laws tr K" and "readLine_loop fuel (sv_read K fd) n acc w = Some (r, l, w')" and "length acc \<le> n - 1"
  shows "\<exists>gs. tr w' = tr w @ map (Got fd) gs
    \<and> (case r of Inl e \<Rightarrow> Inl e \<in> set gs \<and> e \<noteq> EINTR
       | Inr m \<Rightarrow> (\<forall>e. Inl e \<in> set gs \<longrightarrow> e = EINTR) \<and> m = length l
           \<and> l = take (n - 1) (acc @ concat (map (case_sum (\<lambda>_. []) id) gs)))"
  using assms(2,3)
proof (induction fuel arbitrary: acc w)
  case (Suc fuel)
  obtain x w1 where rd: "sv_read K fd w 1 = (x, w1)" by fastforce
  have t1: "tr w1 = tr w @ [Got fd x]" using L rd unfolding wire_laws_def by (metis fst_conv snd_conv)
  show ?case
  proof (cases x)
    case (Inl e)
    show ?thesis
    proof (cases "e = EINTR")
      case True
      with Suc.prems rd Inl have "readLine_loop fuel (sv_read K fd) n acc w1 = Some (r, l, w')" by simp
      from Suc.IH[OF this Suc.prems(2)] obtain gs where gs: "tr w' = tr w1 @ map (Got fd) gs"
        "case r of Inl e \<Rightarrow> Inl e \<in> set gs \<and> e \<noteq> EINTR
       | Inr m \<Rightarrow> (\<forall>e. Inl e \<in> set gs \<longrightarrow> e = EINTR) \<and> m = length l
           \<and> l = take (n - 1) (acc @ concat (map (case_sum (\<lambda>_. []) id) gs))" by blast
      with t1 Inl True show ?thesis by (intro exI[of _ "x # gs"]) (auto split: sum.split)
    next
      case False
      with Suc.prems rd Inl t1 show ?thesis by (intro exI[of _ "[x]"]) auto
    qed
  next
    case (Inr bs)
    have one: "length bs \<le> 1" using wire_short[OF L] rd Inr by auto
    show ?thesis
    proof (cases bs)
      case Nil
      with Suc.prems rd Inr t1 show ?thesis by (intro exI[of _ "[x]"]) auto
    next
      case (Cons c cs)
      with one have bs: "bs = [c]" by simp
      define acc' where "acc' = (if length acc < n - 1 then acc @ [c] else acc)"
      have a: "length acc' \<le> n - 1" "take (n - 1) (acc' @ zs) = take (n - 1) (acc @ c # zs)" for zs
        using Suc.prems(2) by (auto simp: acc'_def take_Cons')
      show ?thesis
      proof (cases "c = NL")
        case True
        with Suc.prems(1) rd Inr bs have e: "r = Inr (length acc')" "l = acc'" "w' = w1" by (auto simp: acc'_def Let_def)
        with t1 Inr bs a(2)[of "[]"] a(1) show ?thesis by (intro exI[of _ "[x]"]) simp
      next
        case False
        with Suc.prems(1) rd Inr bs have "readLine_loop fuel (sv_read K fd) n acc' w1 = Some (r, l, w')" by (simp add: acc'_def Let_def)
        from Suc.IH[OF this a(1)] obtain gs where gs: "tr w' = tr w1 @ map (Got fd) gs"
          "case r of Inl e \<Rightarrow> Inl e \<in> set gs \<and> e \<noteq> EINTR
         | Inr m \<Rightarrow> (\<forall>e. Inl e \<in> set gs \<longrightarrow> e = EINTR) \<and> m = length l
             \<and> l = take (n - 1) (acc' @ concat (map (case_sum (\<lambda>_. []) id) gs))" by blast
        with t1 Inr bs a(2) show ?thesis by (intro exI[of _ "x # gs"]) (auto split: sum.split)
      qed
    qed
  qed
qed simp

lemma readLine_loop_quiet:
  assumes "\<And>n w. ob (snd (rd w n)) = ob w" and "readLine_loop fuel rd n acc w = Some (r, l, w')"
  shows "ob w' = ob w"
  using assms(2)
proof (induction fuel arbitrary: acc w)
  case (Suc fuel)
  obtain r1 w1 where rd: "rd w 1 = (r1, w1)" by fastforce
  have same: "ob w1 = ob w" using assms(1)[of w 1] rd by simp
  from Suc.prems rd Suc.IH[of _ w1] show ?case
    using same by (auto simp: Let_def split: sum.splits list.splits if_splits)
qed simp

lemma request_trace:
  assumes "wire_laws tr K" and "read_line_of fuel (sv_read K fd) INT_LEN s = (Inr (Some (m, str)), s')"
  shows "\<exists>gs. tr (world s') = tr (world s) @ map (Got fd) gs
    \<and> asked gs = (if m \<le> 0 then 0 else atoi (c_string str))"
proof -
  obtain r w where loop: "readLine_loop fuel (sv_read K fd) 30 [] (world s) = Some (r, str, w)"
    and m: "world s' = w" "case r of Inl e \<Rightarrow> m = - 1 | Inr k \<Rightarrow> m = int k"
    using assms(2) by (auto simp: read_line_of_def readLine_def INT_LEN_def split: option.splits sum.splits)
  obtain gs where gs: "tr w = tr (world s) @ map (Got fd) gs"
    "case r of Inl e \<Rightarrow> Inl e \<in> set gs \<and> e \<noteq> EINTR
       | Inr k \<Rightarrow> (\<forall>e. Inl e \<in> set gs \<longrightarrow> e = EINTR) \<and> k = length str
           \<and> str = take 29 (concat (map (case_sum (\<lambda>_. []) id) gs))"
    using readLine_loop_trace[OF assms(1) loop] by (auto cong: sum.case_cong)
  have "asked gs = (if m \<le> 0 then 0 else atoi (c_string str))"
  proof (cases r)
    case (Inl e)
    with gs(2) m(2) show ?thesis by (auto simp: asked_def)
  next
    case (Inr k)
    with gs(2) m(2) have no: "\<not> (\<exists>e. Inl e \<in> set gs \<and> e \<noteq> EINTR)" and m: "m = int (length str)"
      and str: "str = take (INT_LEN - 1) (concat (map (case_sum (\<lambda>_. []) id) gs))" by (auto simp: INT_LEN_def)
    have "asked gs = atoi (c_string str)" unfolding asked_def if_not_P[OF no] str ..
    then show ?thesis using m by (cases "str = []") (simp_all add: c_string_def)
  qed
  with gs(1) m(1) show ?thesis by blast
qed

text \<open>Out of fuel: a request that does not end within so many reads.\<close>

definition long_request :: "nat \<Rightarrow> 'w svkernel \<Rightarrow> bool" where
  "long_request fuel K = (\<exists>fd w. readLine fuel (sv_read K fd) False INT_LEN w = None)"

lemma serve_request_contract:
  assumes L: "wire_laws tr K" and run: "serve_request et K fuel cfd q s = (Inr r, s')"
  shows "if r = None then long_request fuel K
    else \<exists>gs tail. tr (world s') = tr (world s) @ map (Got cfd) gs @ tail \<and> r = Some (q + word_of_int (max 0 (asked gs)))
       \<and> (if 0 < asked gs then \<exists>res. tail = [Put cfd (seqNumStr q) res] else tail = [])"
proof -
  obtain x s1 where x: "read_line_of fuel (sv_read K cfd) INT_LEN s = (Inr x, s1)"
    using run unfolding serve_request_def by (auto elim: andThen_InrE)
  show ?thesis
  proof (cases x)
    case None
    then have "long_request fuel K" using x unfolding long_request_def
      by (auto simp: read_line_of_def split: option.splits sum.splits)
    moreover have "r = None" using run x None by (simp add: serve_request_def)
    ultimately show ?thesis by simp
  next
    case (Some ms)
    obtain m str where m: "x = Some (m, str)" using Some by (cases ms) auto
    obtain gs where gs: "tr (world s1) = tr (world s) @ map (Got cfd) gs"
      "asked gs = (if m \<le> 0 then 0 else atoi (c_string str))" using request_trace[OF L x[unfolded m]] by blast
    show ?thesis
    proof (cases "0 < asked gs")
      case False
      then have "m \<le> 0 \<or> atoi (c_string str) \<le> 0" using gs(2) by (auto split: if_splits)
      with run x m have "andThen (syscall (nk_close (sv_net K) cfd)) (\<lambda>_. ret (Some q)) s1 = (Inr r, s')"
        by (auto simp: serve_request_def Let_def split: if_splits)
      then obtain c where c: "syscall (nk_close (sv_net K) cfd) s1 = (Inr c, s')" and "r = Some q" by (auto elim!: andThen_InrE)
      moreover have "tr (world s') = tr (world s1)" by (rule preservesD[OF wire_quiet(3)[OF L] c])
      ultimately show ?thesis using gs(1) False by (auto simp: max_def)
    next
      case True
      let ?l = "atoi (c_string str)"
      let ?rest = "\<lambda>wr. andThen (if wr \<noteq> Some (length (seqNumStr q)) then eprintf ''Error on write'' [] else ret ()) (\<lambda>_.
           andThen (syscall (nk_close (sv_net K) cfd)) (\<lambda>c.
           andThen (if c = None then errMsg et ''close'' [] else ret ()) (\<lambda>_.
           ret (Some (q + word_of_int ?l)))))"
      have l: "0 < m" "asked gs = ?l" "0 < ?l" using True gs(2) by (auto split: if_splits)
      with run x m have "andThen (syscall (sv_write K cfd (seqNumStr q))) ?rest s1 = (Inr r, s')"
        by (simp add: serve_request_def)
      then obtain wr s2 where w: "syscall (sv_write K cfd (seqNumStr q)) s1 = (Inr wr, s2)" "?rest wr s2 = (Inr r, s')"
        by (rule andThen_InrE)
      have P: "preserves tr (?rest wr)" by (intro pres L)
      have "tr (world s') = tr (world s2)" by (rule preservesD[OF P w(2)])
      moreover have "r = Some (q + word_of_int ?l)" using w(2) by (auto elim!: andThen_InrE)
      moreover obtain res where "tr (world s2) = tr (world s1) @ [Put cfd (seqNumStr q) res]" using wire_write[OF L w(1)] by blast
      ultimately have "tr (world s') = tr (world s) @ map (Got cfd) gs @ [Put cfd (seqNumStr q) res]"
        and r: "r = Some (q + word_of_int (max 0 (asked gs)))" using gs(1) l by (simp_all add: max_def)
      with True show ?thesis unfolding r if_not_P[OF option.distinct(2)]
        by (intro exI[of _ gs] exI[of _ "[Put cfd (seqNumStr q) res]"]) simp
    qed
  qed
qed

text \<open>Both servers name their clients by a look-up that leaves no trace.\<close>

lemma address_quiet [pres]:
  "preserves ob (client_address K a l)" "preserves ob (inetAddressStr N a l n)"
  by (simp_all add: client_address_def inetAddressStr_def pres)

lemma seqNumStr_full: "seqNumStr q = show_int (sint q) @ [NL]"
proof -
  have "length (show_int (sint q)) \<le> 11"
    using sint_ge[of q] sint_lt[of q] by (intro show_int_length) simp_all
  then show ?thesis by (simp add: seqNumStr_def INT_LEN_def)
qed

lemma server_round_contract:
  assumes L: "wire_laws tr K" and A: "\<And>a l. preserves tr (A a l)"
    and run: "server_round et K A al fuel lfd q s = (Inr x, s')"
  shows "if x = None then long_request fuel K
    else \<exists>r. tr (world s') = tr (world s) @ r \<and> session q r \<and> x = Some (q + word_of_int (wanted r))"
proof -
  obtain a s1 where a: "syscall (sv_accept K lfd al) s = (Inr a, s1)"
    using run unfolding server_round_def by (auto elim: andThen_InrE)
  note s1 = wire_accept[OF L a]
  show ?thesis
  proof (cases a)
    case None
    with run a have "andThen (errMsg et ''accept'' []) (\<lambda>_. ret (Some q)) s1 = (Inr x, s')"
      by (simp add: server_round_def)
    then have "world s' = world s1 \<and> x = Some q" by (auto simp: errMsg_run elim!: andThen_InrE)
    with s1 None show ?thesis by (auto intro: exI[of _ "[]"] simp: session_def wanted_def)
  next
    case (Some c)
    obtain cfd claddr alen where c: "c = (cfd, claddr, alen)" by (cases c)
    with run a Some have "andThen (A claddr alen) (\<lambda>addrStr. andThen (printf ''Connection from %s\<newline>'' [FStr addrStr])
        (\<lambda>_. serve_request et K fuel cfd q)) s1 = (Inr x, s')"
      by (simp add: server_round_def)
    then obtain t s2 where s2: "A claddr alen s1 = (Inr t, s2)"
        "serve_request et K fuel cfd q (s2\<lparr>pending := pending s2 @ [(''Connection from %s\<newline>'', [FStr t])]\<rparr>) = (Inr x, s')"
      by (auto elim!: andThen_InrE)
    have t2: "tr (world s2) = tr (world s) @ [Accepted cfd]" using preservesD[OF A s2(1)] s1 Some c by simp
    show ?thesis
    proof (cases "x = None")
      case True
      with serve_request_contract[OF L s2(2)] show ?thesis by simp
    next
      case False
      with serve_request_contract[OF L s2(2)] t2 obtain gs tail where g:
        "tr (world s') = tr (world s) @ (Accepted cfd # map (Got cfd) gs @ tail)" "x = Some (q + word_of_int (max 0 (asked gs)))"
        "if 0 < asked gs then \<exists>res. tail = [Put cfd (seqNumStr q) res] else tail = []" by auto
      have "got (Accepted cfd # map (Got cfd) gs @ tail) = gs" using g(3) by (auto split: if_splits)
      then have "wanted (Accepted cfd # map (Got cfd) gs @ tail) = max 0 (asked gs)" by (simp only: wanted_def)
      moreover have "session q (Accepted cfd # map (Got cfd) gs @ tail)"
        unfolding session_def using g(3) by (auto simp: seqNumStr_full split: if_splits)
      ultimately show ?thesis using g(1,2) False by auto
    qed
  qed
qed

interpretation sv1: number_service
  "\<lambda>(tr, K). wire_laws tr K" "\<lambda>(tr, K). server_round et K (client_address K) al fuel lfd"
  "\<lambda>(tr, K) s. tr (world s)" session wanted "\<lambda>q l. q + word_of_int l" "\<lambda>(tr, K). long_request fuel K"
  for et :: err_texts and al fuel :: nat and lfd :: int
  by (unfold_locales; unfold case_prod_unfold; drule (1) server_round_contract[OF _ address_quiet(1)]; simp)

interpretation sv2: number_service
  "\<lambda>(tr, K). wire_laws tr K"
  "\<lambda>(tr, K). server_round et K (\<lambda>a l. inetAddressStr (sv_net K) a l IS_ADDR_STR_LEN) al fuel lfd"
  "\<lambda>(tr, K) s. tr (world s)" session wanted "\<lambda>q l. q + word_of_int l" "\<lambda>(tr, K). long_request fuel K"
  for et :: err_texts and al fuel :: nat and lfd :: int
  by (unfold_locales; unfold case_prod_unfold; drule (1) server_round_contract[OF _ address_quiet(2)]; simp)

text \<open>Blocks as sets of numbers, and how they lie behind each other as long as the counter does not
  wrap around.\<close>

definition block :: "32 word \<Rightarrow> int \<Rightarrow> int set" where
  "block q l = {uint q ..< uint q + l}"

lemma foldl_word_add: "foldl (\<lambda>q l. q + word_of_int l) q ls = q + (word_of_int (sum_list ls) :: 32 word)"
  by (induction ls arbitrary: q) (simp_all add: add.assoc)

lemma sum_list_take_Suc: "i < length xs \<Longrightarrow> sum_list (take (Suc i) xs) = sum_list (take i xs) + (xs ! i :: int)"
  by (simp add: take_Suc_conv_app_nth)

lemma sum_list_take_mono:
  fixes ls :: "int list"
  assumes "\<forall>l \<in> set ls. 0 \<le> l" and "i \<le> j"
  shows "sum_list (take i ls) \<le> sum_list (take j ls)"
proof -
  have "take j ls = take i ls @ take (j - i) (drop i ls)" using assms(2) by (metis le_add_diff_inverse take_add)
  moreover have "0 \<le> sum_list (take (j - i) (drop i ls))"
    using assms(1) by (intro sum_list_nonneg) (auto dest!: in_set_takeD in_set_dropD)
  ultimately show ?thesis by simp
qed

lemma uint_starts:
  fixes q :: "32 word"
  assumes "uint q + sum_list (take i ls) < 2 ^ 32" and "\<forall>l \<in> set ls. 0 \<le> l" and "i < length ls"
  shows "uint (starts (\<lambda>q l. q + word_of_int l) q ls ! i) = uint q + sum_list (take i ls)"
  using assms
proof (induction ls arbitrary: q i)
  case (Cons l ls)
  show ?case
  proof (cases i)
    case (Suc j)
    have "0 \<le> sum_list (take j ls)" using sum_list_take_mono[of ls 0 j] Cons.prems(2) by simp
    then have "uint q + l < 2 ^ 32" "0 \<le> uint q + l" using Cons.prems Suc by (auto simp: add_nonneg_nonneg)
    then have "uint (q + word_of_int l) = uint q + l"
      by (simp add: uint_word_ariths uint_word_of_int mod_add_right_eq take_bit_eq_mod)
    with Cons.IH[of "q + word_of_int l" j] Cons.prems Suc show ?thesis by (simp add: algebra_simps)
  qed simp
qed simp

lemma blocks_disjoint:
  fixes q :: "32 word"
  assumes "uint q + sum_list ls \<le> 2 ^ 32" and "\<forall>l \<in> set ls. 0 \<le> l" and "i < j" and "j < length ls"
  shows "block (starts (\<lambda>q l. q + word_of_int l) q ls ! i) (ls ! i)
    \<inter> block (starts (\<lambda>q l. q + word_of_int l) q ls ! j) (ls ! j) = {}"
proof (cases "ls ! i = 0 \<or> ls ! j = 0")
  case False
  have "ls ! i \<in> set ls" "ls ! j \<in> set ls" using assms(3,4) by simp_all
  with False assms(2) have pos: "0 < ls ! i" "0 < ls ! j" by (auto simp: less_le)
  have ij: "sum_list (take i ls) + ls ! i \<le> sum_list (take j ls)"
    using sum_list_take_mono[OF assms(2), of "Suc i" j] assms(3,4) by (simp add: sum_list_take_Suc)
  have "sum_list (take j ls) + ls ! j \<le> sum_list ls"
    using sum_list_take_mono[OF assms(2), of "Suc j" "length ls"] assms(4) by (simp add: sum_list_take_Suc)
  then have "uint q + sum_list (take i ls) < 2 ^ 32" "uint q + sum_list (take j ls) < 2 ^ 32" using ij pos assms(1) by simp_all
  then show ?thesis
    using uint_starts[OF _ assms(2), of q i] uint_starts[OF _ assms(2), of q j] assms(3,4) ij by (auto simp: block_def)
qed (auto simp: block_def)

text \<open>What a server does in its rounds, from the number \<open>q\<close> to the number \<open>q'\<close>: sessions with clients, each
  with the number at which the block of its client begins.\<close>

definition issued :: "32 word \<Rightarrow> wire list list \<Rightarrow> 32 word \<Rightarrow> bool" where
  "issued q rs q' \<longleftrightarrow> q' = q + word_of_int (sum_list (map wanted rs))
     \<and> list_all2 session (starts (\<lambda>q l. q + word_of_int l) q (map wanted rs)) rs"

lemma sv_rounds_issued:
  assumes "wire_laws tr K"
  shows "rounds (server_round et K (client_address K) al fuel lfd) n q s = (Inr (Some q'), s') \<Longrightarrow>
      \<exists>rs. tr (world s') = tr (world s) @ concat rs \<and> length rs = n \<and> issued q rs q'"
    and "rounds (server_round et K (\<lambda>a l. inetAddressStr (sv_net K) a l IS_ADDR_STR_LEN) al fuel lfd) n q s = (Inr (Some q'), s') \<Longrightarrow>
      \<exists>rs. tr (world s') = tr (world s) @ concat rs \<and> length rs = n \<and> issued q rs q'"
  using sv1.all_rounds[of "(tr, K)" et al fuel lfd n q s q' s'] sv2.all_rounds[of "(tr, K)" et al fuel lfd n q s q' s'] assms
  by (auto simp: issued_def foldl_word_add)

lemma sv_rounds_short:
  assumes "wire_laws tr K"
  shows "rounds (server_round et K (client_address K) al fuel lfd) n q s = (Inr None, s') \<Longrightarrow> long_request fuel K"
    and "rounds (server_round et K (\<lambda>a l. inetAddressStr (sv_net K) a l IS_ADDR_STR_LEN) al fuel lfd) n q s = (Inr None, s') \<Longrightarrow>
      long_request fuel K"
  using sv1.rounds_short[of "(tr, K)" et al fuel lfd n q s s'] sv2.rounds_short[of "(tr, K)" et al fuel lfd n q s s'] assms
  by auto

definition first_number :: "string list \<Rightarrow> 32 word" where
  "first_number argv =
     (if length argv > 1 then word_of_int (projr (getInt (Some (argv ! 1)) 0 (Some ''init-seq-num''))) else 0)"

lemma get_int_quiet [pres]: "preserves ob (get_int a f n)"
  by (cases "getInt (Some a) f (Some n)") (simp_all add: get_int_def pres)

lemma get_int_value: "get_int a f n s = (Inr v, s') \<Longrightarrow> getInt (Some a) f (Some n) = Inr v \<and> s' = s"
  by (cases "getInt (Some a) f (Some n)") (auto simp: get_int_def andThen_run)

lemma init_seqNum_quiet: "wire_laws sent K \<Longrightarrow> preserves sent (init_seqNum et K argv)"
  unfolding init_seqNum_def by (intro pres)

lemma init_seqNum_value: "init_seqNum et K argv s = (Inr q, s') \<Longrightarrow> q = first_number argv"
  by (auto simp: init_seqNum_def first_number_def usageErr_run elim!: andThen_InrE dest!: get_int_value split: if_splits)

lemma sv_bind_first_quiet: "wire_laws sent K \<Longrightarrow> preserves sent (sv_bind_first et (sv_net K) rps)"
  by (induction rps) (auto intro!: pres)

lemma preserves_bound [pres]:
  "preserves ob m1 \<Longrightarrow> preserves ob m2 \<Longrightarrow> (\<And>a l. preserves ob (f a l)) \<Longrightarrow>
   preserves ob (case b of GaveUp \<Rightarrow> m1 | NoAddress \<Rightarrow> m2 | Bound a l \<Rightarrow> f a l)"
  by (cases b) simp_all

lemma bind_first_quiet: "wire_laws sent K \<Longrightarrow> preserves sent (bind_first (sv_net K) d rps)"
  by (induction rps) (auto intro!: pres)

lemma inetListen_quiet: "wire_laws sent K \<Longrightarrow> preserves sent (inetListen (sv_net K) sv b al)"
  unfolding inetListen_def inetPassiveSocket_def by (intro pres bind_first_quiet)

text \<open>Both programs get to their rounds without having sent anything.\<close>

lemma sv_reaches_rounds:
  assumes "wire_laws sent K" and "is_seqnum_sv et K fuel n argv s = (Inr x, s')"
  shows "\<exists>s1 lfd. sent (world s1) = sent (world s) \<and>
    rounds (server_round et K (client_address K) SOCKADDR_STORAGE_SIZE fuel lfd) n (first_number argv) s1 = (Inr x, s')"
proof -
  from assms(2) obtain q s1 where 1: "init_seqNum et K argv s = (Inr q, s1)"
    and "andThen (resolve (sv_net K) None (Some ''50000'')
       \<lparr>h_family = AF_UNSPEC, h_socktype = SOCK_STREAM, h_flags = AI_PASSIVE + AI_NUMERICSERV\<rparr>) (\<lambda>r. case r of
       None \<Rightarrow> errExit et ''getaddrinfo'' []
     | Some result \<Rightarrow>
         andThen (sv_bind_first et (sv_net K) result) (\<lambda>b. case b of
           None \<Rightarrow> fatal et ''Could not bind socket to any address'' []
         | Some lfd \<Rightarrow>
             andThen (or_die (syscall (nk_listen (sv_net K) lfd 50)) (errExit et ''listen'' [])) (\<lambda>_.
             rounds (server_round et K (client_address K) SOCKADDR_STORAGE_SIZE fuel lfd) n q))) s1 = (Inr x, s')"
    unfolding is_seqnum_sv_def by (rule andThen_InrE)
  then obtain result s2 b s3 where 2: "resolve (sv_net K) None (Some ''50000'')
       \<lparr>h_family = AF_UNSPEC, h_socktype = SOCK_STREAM, h_flags = AI_PASSIVE + AI_NUMERICSERV\<rparr> s1 = (Inr (Some result), s2)"
    and 3: "sv_bind_first et (sv_net K) result s2 = (Inr b, s3)"
    and "(case b of None \<Rightarrow> fatal et ''Could not bind socket to any address'' []
         | Some lfd \<Rightarrow>
             andThen (or_die (syscall (nk_listen (sv_net K) lfd 50)) (errExit et ''listen'' [])) (\<lambda>_.
             rounds (server_round et K (client_address K) SOCKADDR_STORAGE_SIZE fuel lfd) n q)) s3 = (Inr x, s')"
    by (auto simp: errExit_run elim!: andThen_InrE split: option.splits)
  then obtain lfd u s4 where 4: "or_die (syscall (nk_listen (sv_net K) lfd 50)) (errExit et ''listen'' []) s3 = (Inr u, s4)"
    and 5: "rounds (server_round et K (client_address K) SOCKADDR_STORAGE_SIZE fuel lfd) n q s4 = (Inr x, s')"
    by (auto simp: fatal_run elim!: andThen_InrE split: option.splits)
  have "preserves sent (or_die (syscall (nk_listen (sv_net K) lfd 50)) (errExit et ''listen'' []) :: ('a process, unit) program)"
    by (intro pres assms(1))
  from preservesD[OF init_seqNum_quiet[OF assms(1)] 1] preservesD[OF wire_quiet(8)[OF assms(1)] 2]
    preservesD[OF sv_bind_first_quiet[OF assms(1)] 3] preservesD[OF this 4] 5 init_seqNum_value[OF 1]
  show ?thesis by (intro exI[of _ s4] exI[of _ lfd]) simp
qed

lemma v2_reaches_rounds:
  assumes "wire_laws sent K" and "is_seqnum_v2_sv et K fuel n argv s = (Inr x, s')"
  shows "\<exists>s1 lfd al. sent (world s1) = sent (world s) \<and>
    rounds (server_round et K (\<lambda>a l. inetAddressStr (sv_net K) a l IS_ADDR_STR_LEN) al fuel lfd) n (first_number argv) s1 = (Inr x, s')"
proof -
  from assms(2) obtain q s1 where 1: "init_seqNum et K argv s = (Inr q, s1)"
    and "andThen (inetListen (sv_net K) (Some ''50000'') 5 True) (\<lambda>(lfd, al).
     if lfd = - 1 then fatal et ''inetListen() failed'' []
     else
     andThen (query (\<lambda>s. sv_malloc_ok K (world s) (the al))) (\<lambda>ok.
     if \<not> ok then errExit et ''malloc'' []
     else rounds (server_round et K (\<lambda>claddr alen. inetAddressStr (sv_net K) claddr alen IS_ADDR_STR_LEN) (the al) fuel lfd) n q)) s1
      = (Inr x, s')"
    unfolding is_seqnum_v2_sv_def by (rule andThen_InrE)
  then obtain lfd al s2 where 2: "inetListen (sv_net K) (Some ''50000'') 5 True s1 = (Inr (lfd, al), s2)"
    and 3: "rounds (server_round et K (\<lambda>a l. inetAddressStr (sv_net K) a l IS_ADDR_STR_LEN) (the al) fuel lfd) n q s2 = (Inr x, s')"
    by (auto simp: fatal_run errExit_run elim!: andThen_InrE split: if_splits prod.splits)
  from preservesD[OF init_seqNum_quiet[OF assms(1)] 1] preservesD[OF inetListen_quiet[OF assms(1)] 2] 3 init_seqNum_value[OF 1]
  show ?thesis by (intro exI[of _ s2] exI[of _ lfd] exI[of _ "the al"]) simp
qed

subsection \<open>One request\<close>

lemma show_int_plain [simp]: "NL \<notin> set (show_int i)" "NUL \<notin> set (show_int i)"
proof -
  have "NL \<notin> set (show_nat n) \<and> NUL \<notin> set (show_nat n)" for n
    by (auto dest!: show_nat_is_digit simp: is_digit_def digit_val_def)
  then show "NL \<notin> set (show_int i)" "NUL \<notin> set (show_int i)" by (auto simp: show_int_def)
qed

text \<open>A connection that works: \<open>inb\<close> is what is still to be read from it, \<open>out\<close> what has been
  written; reads may be short or interrupted, writes are complete.\<close>

definition connection :: "'w svkernel \<Rightarrow> int \<Rightarrow> ('w \<Rightarrow> string) \<Rightarrow> ('w \<Rightarrow> nat) \<Rightarrow> ('w \<Rightarrow> string) \<Rightarrow> bool" where
  "connection K fd inb intr out = (
     reads_stream (sv_read K fd) inb intr
   \<and> (\<forall>w n e w'. sv_read K fd w n = (Inl e, w') \<longrightarrow> e = EINTR)
   \<and> (\<forall>w n. out (snd (sv_read K fd w n)) = out w)
   \<and> (\<forall>w t. \<exists>w'. sv_write K fd t w = (Inr (length t), w') \<and> out w' = out w @ t \<and> inb w' = inb w \<and> intr w' = intr w)
   \<and> (\<forall>w. out (snd (nk_close (sv_net K) fd w)) = out w))"

lemma readLine_loop_no_error:
  assumes "\<And>w n e w'. rd w n = (Inl e, w') \<Longrightarrow> e = EINTR"
  shows "readLine_loop fuel rd n acc w \<noteq> Some (Inl e, l, w')"
proof (induction fuel arbitrary: acc w)
  case (Suc fuel)
  then show ?case using assms by (auto simp: Let_def split: prod.splits sum.splits list.splits)
qed simp

lemma connection_line:
  assumes C: "connection K fd inb intr out" and tx: "inb (world s) = x @ NL # rest" "NL \<notin> set x" "length x < 29"
    and fuel: "length (inb (world s)) + intr (world s) < fuel"
  shows "\<exists>w. read_line_of fuel (sv_read K fd) INT_LEN s = (Inr (Some (int (length x) + 1, x @ [NL])), s\<lparr>world := w\<rparr>)
    \<and> out w = out (world s)"
proof -
  have rd: "reads_stream (sv_read K fd) inb intr" and er: "\<And>w n e w'. sv_read K fd w n = (Inl e, w') \<Longrightarrow> e = EINTR"
    and qu: "\<And>n w. out (snd (sv_read K fd w n)) = out w"
    using C unfolding connection_def by blast+
  obtain r l w where loop: "readLine_loop fuel (sv_read K fd) 30 [] (world s) = Some (r, l, w)"
      "case r of Inl e \<Rightarrow> e \<noteq> EINTR | Inr m \<Rightarrow> l = take 29 (line_of (inb (world s))) \<and> m = length l \<and> inb w = after_line (inb (world s))"
    using readLine_loop_correct[OF rd, of "[]" 30 "world s" fuel] fuel by (auto cong: sum.case_cong)
  obtain m where r: "r = Inr m" using readLine_loop_no_error[of "sv_read K fd", OF er] loop(1) by (cases r) auto
  have "l = x @ [NL]" "m = Suc (length x)" using loop(2) r tx by (simp_all add: line_of_terminated)
  moreover have "out w = out (world s)" by (rule readLine_loop_quiet[of out, OF qu loop(1)])
  ultimately show ?thesis using loop(1) r by (intro exI[of _ w]) (simp add: read_line_of_def readLine_def INT_LEN_def)
qed

lemma connection_write:
  assumes "connection K fd inb intr out"
  shows "\<exists>w. syscall (sv_write K fd t) s = (Inr (Some (length t)), s\<lparr>world := w\<rparr>)
    \<and> out w = out (world s) @ t \<and> inb w = inb (world s) \<and> intr w = intr (world s)"
proof -
  obtain w where "sv_write K fd t (world s) = (Inr (length t), w)" "out w = out (world s) @ t" "inb w = inb (world s)" "intr w = intr (world s)"
    using assms unfolding connection_def by blast
  then show ?thesis by (intro exI[of _ w]) simp
qed

lemma c_string_show_int [simp]: "c_string (show_int i @ [NL]) = show_int i @ [NL]"
  by (simp add: c_string_def takeWhile_eq_all_conv) (metis show_int_plain(2))

lemma atoi_line: "INT_MIN \<le> i \<Longrightarrow> i \<le> INT_MAX \<Longrightarrow> atoi (show_int i @ [NL]) = i"
  by (rule atoi_show_int) (auto simp: is_digit_def digit_val_def)

lemma request_served:
  assumes C: "connection K fd inb intr out" and l: "1 \<le> l" "l \<le> INT_MAX"
    and tx: "inb (world s) = show_int l @ NL # rest" and fuel: "length (inb (world s)) + intr (world s) < fuel"
  shows "\<exists>s'. serve_request et K fuel fd q s = (Inr (Some (q + word_of_int l)), s')
    \<and> out (world s') = out (world s) @ show_int (sint q) @ [NL]"
proof -
  have len: "length (show_int l) < 29" using show_int_length[of l] l by simp
  obtain w1 where 1: "read_line_of fuel (sv_read K fd) INT_LEN s = (Inr (Some (int (length (show_int l)) + 1, show_int l @ [NL])), s\<lparr>world := w1\<rparr>)"
    "out w1 = out (world s)" using connection_line[OF C tx show_int_plain(1) len fuel] by blast
  obtain w2 where 2: "syscall (sv_write K fd (seqNumStr q)) (s\<lparr>world := w1\<rparr>) = (Inr (Some (length (seqNumStr q))), s\<lparr>world := w2\<rparr>)"
    "out w2 = out w1 @ seqNumStr q" using connection_write[OF C, of "seqNumStr q" "s\<lparr>world := w1\<rparr>"] by auto
  obtain r w3 where 3: "nk_close (sv_net K) fd w2 = (r, w3)" by fastforce
  have 4: "out w3 = out w2" using C 3 unfolding connection_def by (metis snd_conv)
  have a: "atoi (show_int l @ [NL]) = l" using l by (intro atoi_line) simp_all
  show ?thesis
    by (cases r) (use 1 2 3 4 a l in \<open>simp_all add: serve_request_def seqNumStr_full errMsg_run andThen_run\<close>)
qed

lemma reply_printed:
  fixes q :: "32 word"
  assumes C: "connection K fd inb intr out" and l: "1 \<le> l" "l \<le> INT_MAX" and argv: "length argv > 2" "argv ! 2 = show_int l"
    and tx: "inb (world s) = show_int (sint q) @ NL # rest" and fuel: "length (inb (world s)) + intr (world s) < fuel"
  shows "\<exists>s'. request_number et K fuel fd argv s = (Inl (Exit 0), s') \<and> out (world s') = out (world s) @ show_int l @ [NL]
    \<and> written s' = written s @ map (Pair 1) (pending s) @ [(1, (''Sequence number: %s'', [FStr (show_int (sint q) @ [NL])]))]"
proof -
  have len: "length (show_int (sint q)) < 29"
    using show_int_length[of "sint q"] sint_ge[of q] sint_lt[of q] by simp
  obtain w1 where 1: "syscall (sv_write K fd (show_int l)) s = (Inr (Some (length (show_int l))), s\<lparr>world := w1\<rparr>)"
    "out w1 = out (world s) @ show_int l" "inb w1 = inb (world s)" "intr w1 = intr (world s)"
    using connection_write[OF C] by blast
  obtain w2 where 2: "syscall (sv_write K fd [NL]) (s\<lparr>world := w1\<rparr>) = (Inr (Some 1), s\<lparr>world := w2\<rparr>)"
    "out w2 = out w1 @ [NL]" "inb w2 = inb w1" "intr w2 = intr w1"
    using connection_write[OF C, of "[NL]" "s\<lparr>world := w1\<rparr>"] by auto
  obtain w3 where 3: "read_line_of fuel (sv_read K fd) INT_LEN (s\<lparr>world := w2\<rparr>)
      = (Inr (Some (int (length (show_int (sint q))) + 1, show_int (sint q) @ [NL])), s\<lparr>world := w3\<rparr>)" "out w3 = out w2"
    using connection_line[OF C, of "s\<lparr>world := w2\<rparr>" "show_int (sint q)" rest fuel] tx fuel len 1 2 by auto
  show ?thesis using 1 2 3 argv by (simp add: request_number_def Let_def andThen_run)
qed

section \<open>The server on a FIFO\<close>

lemma char_bytes [simp]: "int (of_char (char_of (nat (i mod 256)) :: char)) = i mod 256"
  by (simp add: of_char_of)

lemma four_bytes: "(i :: int) mod 256 + 256 * (i div 256 mod 256 + 256 * (i div 256 ^ 2 mod 256 + 256 * (i div 256 ^ 3 mod 256))) = i mod 2 ^ 32"
proof -
  have step: "a mod (256 * c) = a mod 256 + 256 * (a div 256 mod c)" if "0 \<le> c" for a c :: int
    using zmod_zmult2_eq[OF that, of a 256] by simp
  have d: "i div 256 ^ 2 = i div 256 div 256" "i div 256 ^ 3 = i div 256 div 256 div 256"
    by (simp_all add: zdiv_zmult2_eq[symmetric])
  have "i mod 2 ^ 32 = i mod (256 * (256 * (256 * 256)))" by simp
  also have "\<dots> = i mod 256 + 256 * (i div 256 mod 256 + 256 * (i div 256 div 256 mod 256 + 256 * (i div 256 div 256 div 256 mod 256)))"
    by (subst step, simp, subst step, simp, subst step, simp, rule refl)
  finally show ?thesis unfolding d by (rule sym)
qed

lemma bytes_int_bytes [simp]:
  assumes "INT_MIN \<le> i" "i \<le> INT_MAX"
  shows "bytes_int (int_bytes i) = i"
proof -
  have "foldr (\<lambda>c v. int (of_char c) + 256 * v) (int_bytes i) 0 = i mod 2 ^ 32"
    unfolding four_bytes[symmetric] by (simp add: int_bytes_def)
  moreover have "(word_of_int (i mod 2 ^ 32) :: 32 word) = word_of_int i"
    by (simp add: word_of_int_eq_iff take_bit_eq_mod)
  ultimately have "bytes_int (int_bytes i) = sint (word_of_int i :: 32 word)" by (simp only: bytes_int_def)
  also have "\<dots> = i" using assms by (simp add: signed_of_int signed_take_bit_int_eq_self)
  finally show ?thesis .
qed

lemma length_int_bytes [simp]: "length (int_bytes i) = 4"
  by (simp add: int_bytes_def)

lemma bytes_request_bytes:
  assumes "INT_MIN \<le> pid r" "pid r \<le> INT_MAX" "INT_MIN \<le> seqLen r" "seqLen r \<le> INT_MAX"
  shows "bytes_request (request_bytes r) = r"
  using assms by (simp add: bytes_request_def request_bytes_def)

text \<open>The calls of the FIFO server, with their results, and the sessions: a request that does not have its
  full length is discarded; otherwise the FIFO of the client named in it is opened, and if this works the
  number is written to it and the number goes on by the length in the request.\<close>

datatype fifo_call = FGot "errno + string" | FOpened string "errno + int" | FPut int string "errno + nat"

definition fifo_laws :: "('w \<Rightarrow> fifo_call list) \<Rightarrow> 'w fifokernel \<Rightarrow> bool" where
  "fifo_laws tr K = (
     (\<forall>fd t w. tr (snd (fk_write K fd t w)) = tr w @ [FPut fd t (fst (fk_write K fd t w))])
   \<and> (\<forall>fd n w. tr (snd (fk_read K fd n w)) = tr w @ [FGot (fst (fk_read K fd n w))])
   \<and> (\<forall>p w. tr (snd (fk_open_wr K p w)) = tr w @ [FOpened p (fst (fk_open_wr K p w))])
   \<and> (\<forall>fd w. tr (snd (fk_close K fd w)) = tr w))"

fun fifo_wanted :: "fifo_call list \<Rightarrow> int" where
  "fifo_wanted [FGot (Inr bs), FOpened p (Inr fd), FPut fd' t res] = seqLen (bytes_request bs)"
| "fifo_wanted _ = 0"

definition fifo_session :: "int \<Rightarrow> fifo_call list \<Rightarrow> bool" where
  "fifo_session q r \<longleftrightarrow> (\<exists>g. r = [FGot g] \<and> (\<forall>bs. g = Inr bs \<longrightarrow> length bs \<noteq> 8))
     \<or> (\<exists>bs. length bs = 8 \<and> (let p = clientFifo (pid (bytes_request bs)) in
          (\<exists>e. r = [FGot (Inr bs), FOpened p (Inl e)])
        \<or> (\<exists>fd res. r = [FGot (Inr bs), FOpened p (Inr fd), FPut fd (int_bytes q) res])))"

lemma fifo_traces:
  assumes "fifo_laws tr K"
  shows "syscall (fk_write K fd t) s = (Inr a, s') \<Longrightarrow> \<exists>res. tr (world s') = tr (world s) @ [FPut fd t res]"
    and "syscall (fk_read K fd n) s = (Inr b, s') \<Longrightarrow>
      \<exists>g. tr (world s') = tr (world s) @ [FGot g] \<and> (b = None \<longleftrightarrow> isl g) \<and> (\<forall>bs. b = Some bs \<longrightarrow> g = Inr bs)"
    and "syscall (fk_open_wr K p) s = (Inr c, s') \<Longrightarrow>
      \<exists>g. tr (world s') = tr (world s) @ [FOpened p g] \<and> (c = None \<longleftrightarrow> isl g) \<and> (\<forall>fd. c = Some fd \<longrightarrow> g = Inr fd)"
    and "preserves tr (syscall (fk_close K fd))"
proof -
  have w: "fk_write K fd t w = (q1, w1) \<Longrightarrow> tr w1 = tr w @ [FPut fd t q1]"
    and r: "fk_read K fd n w = (q2, w2) \<Longrightarrow> tr w2 = tr w @ [FGot q2]"
    and o: "fk_open_wr K p w = (q3, w3) \<Longrightarrow> tr w3 = tr w @ [FOpened p q3]" for w q1 w1 q2 w2 q3 w3
    using assms unfolding fifo_laws_def by (metis fst_conv snd_conv)+
  show "syscall (fk_write K fd t) s = (Inr a, s') \<Longrightarrow> \<exists>res. tr (world s') = tr (world s) @ [FPut fd t res]"
    using w by (cases rule: syscall_cases[of "fk_write K fd t" s]) auto
  show "syscall (fk_read K fd n) s = (Inr b, s') \<Longrightarrow>
      \<exists>g. tr (world s') = tr (world s) @ [FGot g] \<and> (b = None \<longleftrightarrow> isl g) \<and> (\<forall>bs. b = Some bs \<longrightarrow> g = Inr bs)"
    using r by (cases rule: syscall_cases[of "fk_read K fd n" s]) auto
  show "syscall (fk_open_wr K p) s = (Inr c, s') \<Longrightarrow>
      \<exists>g. tr (world s') = tr (world s) @ [FOpened p g] \<and> (c = None \<longleftrightarrow> isl g) \<and> (\<forall>fd. c = Some fd \<longrightarrow> g = Inr fd)"
    using o by (cases rule: syscall_cases[of "fk_open_wr K p" s]) auto
  show "preserves tr (syscall (fk_close K fd))" using assms by (auto simp: fifo_laws_def intro!: preserves_syscall)
qed

lemma add_int_result: "add_int a b s = (Inr c, s') \<Longrightarrow> c = a + b \<and> s' = s"
  by (simp add: add_int_def split: if_splits)

lemma fifo_round_contract:
  assumes L: "fifo_laws tr K" and run: "fifo_round et K fd q s = (Inr x, s')"
  shows "\<exists>r. tr (world s') = tr (world s) @ r \<and> fifo_session q r \<and> x = Some (q + fifo_wanted r)"
proof -
  obtain b s1 where b: "syscall (fk_read K fd 8) s = (Inr b, s1)"
    using run unfolding fifo_round_def by (auto elim: andThen_InrE)
  obtain g where g: "tr (world s1) = tr (world s) @ [FGot g]" "b = None \<longleftrightarrow> isl g" "\<forall>bs. b = Some bs \<longrightarrow> g = Inr bs"
    using fifo_traces(2)[OF L b] by blast
  define req where "req = bytes_request (the b)"
  show ?thesis
  proof (cases "b = None \<or> length (the b) \<noteq> 8")
    case True
    then have "world s' = world s1 \<and> x = Some q" using run b by (auto simp: fifo_round_def elim!: andThen_InrE)
    moreover have "fifo_session q [FGot g]" unfolding fifo_session_def using True g by (cases b) auto
    moreover have "fifo_wanted [FGot g] = 0" by simp
    ultimately show ?thesis using g(1) by (intro exI[of _ "[FGot g]"]) simp
  next
    case False
    then obtain bs where bs: "b = Some bs" "length bs = 8" "g = Inr bs" using g by auto
    obtain c s2 where c: "syscall (fk_open_wr K (clientFifo (pid req))) s1 = (Inr c, s2)"
      by (cases rule: syscall_cases[of "fk_open_wr K (clientFifo (pid req))" s1]) auto
    obtain h where h: "tr (world s2) = tr (world s1) @ [FOpened (clientFifo (pid req)) h]" "c = None \<longleftrightarrow> isl h" "\<forall>fd. c = Some fd \<longrightarrow> h = Inr fd"
      using fifo_traces(3)[OF L c] by blast
    show ?thesis
    proof (cases c)
      case None
      then obtain e where e: "h = Inl e" using h(2) by (cases h) auto
      have "world s' = world s2 \<and> x = Some q"
        using None False run b c by (auto simp: fifo_round_def req_def Let_def errMsg_run elim!: andThen_InrE)
      moreover have "fifo_session q [FGot (Inr bs), FOpened (clientFifo (pid req)) (Inl e)]"
        unfolding fifo_session_def using bs by (simp add: req_def)
      moreover have "fifo_wanted [FGot (Inr bs), FOpened (clientFifo (pid req)) (Inl e)] = 0" by simp
      ultimately show ?thesis using g(1) h(1) e bs(3)
        by (intro exI[of _ "[FGot (Inr bs), FOpened (clientFifo (pid req)) (Inl e)]"]) simp
    next
      case (Some cfd)
      let ?close = "andThen (syscall (fk_close K cfd)) (\<lambda>cl. if cl = None then errMsg et ''close'' [] else ret ())"
      have "preserves tr ?close" by (intro pres fifo_traces(4)[OF L])
      note quiet = preservesD[OF this]
      from Some False run b c have "andThen (syscall (fk_write K cfd (int_bytes q))) (\<lambda>wr.
         andThen (if wr \<noteq> Some 4 then eprintf ''Error writing to FIFO %s\<newline>'' [FStr (clientFifo (pid req))] else ret ()) (\<lambda>_.
         andThen ?close (\<lambda>_. andThen (add_int q (seqLen req)) (\<lambda>q. ret (Some q))))) s2 = (Inr x, s')"
        by (cases b) (simp_all add: fifo_round_def req_def Let_def andThen_assoc cong: if_cong)
      then obtain wr s3 s4 s5 u v where w: "syscall (fk_write K cfd (int_bytes q)) s2 = (Inr wr, s3)"
        and e: "(if wr \<noteq> Some 4 then eprintf ''Error writing to FIFO %s\<newline>'' [FStr (clientFifo (pid req))] else ret ()) s3 = (Inr u, s4)"
        and cl: "?close s4 = (Inr v, s5)" and q': "andThen (add_int q (seqLen req)) (\<lambda>q. ret (Some q)) s5 = (Inr x, s')"
        by (blast elim: andThen_InrE)
      obtain res where res: "tr (world s3) = tr (world s2) @ [FPut cfd (int_bytes q) res]" using fifo_traces(1)[OF L w] by blast
      have "tr (world s4) = tr (world s3)" using e by (auto split: if_splits)
      moreover have "tr (world s5) = tr (world s4)" by (rule quiet[OF cl])
      moreover have "x = Some (q + seqLen req)" "s' = s5" using q' by (auto elim!: andThen_InrE dest: add_int_result)
      moreover have "fifo_session q [FGot (Inr bs), FOpened (clientFifo (pid req)) (Inr cfd), FPut cfd (int_bytes q) res]"
        unfolding fifo_session_def using bs by (simp add: req_def)
      moreover have "fifo_wanted [FGot (Inr bs), FOpened (clientFifo (pid req)) (Inr cfd), FPut cfd (int_bytes q) res] = seqLen req"
        using bs by (simp add: req_def)
      ultimately show ?thesis using g(1) h res bs Some
        by (intro exI[of _ "[FGot (Inr bs), FOpened (clientFifo (pid req)) (Inr cfd), FPut cfd (int_bytes q) res]"]) simp
    qed
  qed
qed

interpretation svf: number_service
  "\<lambda>(tr, K). fifo_laws tr K" "\<lambda>(tr, K). fifo_round et K fd"
  "\<lambda>(tr, K) s. tr (world s)" fifo_session fifo_wanted "(+)" "\<lambda>_. False"
  for et :: err_texts and fd :: int
  by (unfold_locales; unfold case_prod_unfold; drule (1) fifo_round_contract; auto)

text \<open>The client removes its FIFO whenever it ends with \<open>exit\<close> after having made it.\<close>

lemma client_removes_fifo:
  assumes "\<And>w. name \<notin> fifos (snd (fk_unlink K name w))"
    and "at_exit (removeFifo K name) (send_request et K argv name) s = (Inl (Exit n), s')"
  shows "name \<notin> fifos (world s')"
proof -
  obtain s1 where "s' = snd (removeFifo K name s1)" using at_exit_runs[OF assms(2)] by blast
  then show ?thesis using assms(1)[of "world s1"]
    by (cases rule: syscall_cases[of "fk_unlink K name" s1]) (simp_all add: removeFifo_def)
qed

section \<open>Properties\<close>

text \<open>C22: Both servers, started with a number or with 0, give out consecutive blocks of exactly the lengths
  their clients ask for. What \<open>n\<close> rounds do on the connections is \<open>n\<close> sessions, one behind the other: in
  each, the request of one client is read, and if it is a positive length the line of the current number
  is sent to that client and the number goes on by that length, modulo \<open>2 ^ 32\<close>; otherwise nothing is
  sent and the number stays. No number is given out twice before the counter wraps around. The result
  \<open>None\<close> (out of fuel) only comes when some request does not end within \<open>fuel\<close> reads.\<close>

theorem seqnum_unique:
  assumes "wire_laws tr K" and "P = is_seqnum_sv et K \<or> P = is_seqnum_v2_sv et K"
    and "P fuel n argv s = (Inr x, s')"
  shows "if x = None then long_request fuel K
    else \<exists>rs. tr (world s') = tr (world s) @ concat rs \<and> length rs = n \<and> issued (first_number argv) rs (the x)
      \<and> (uint (first_number argv) + sum_list (map wanted rs) \<le> 2 ^ 32 \<longrightarrow>
         (\<forall>i j. i < j \<longrightarrow> j < n \<longrightarrow>
            block (starts (\<lambda>q l. q + word_of_int l) (first_number argv) (map wanted rs) ! i) (wanted (rs ! i))
            \<inter> block (starts (\<lambda>q l. q + word_of_int l) (first_number argv) (map wanted rs) ! j) (wanted (rs ! j)) = {}))"
proof -
  have main: "if x = None then long_request fuel K
    else \<exists>rs. tr (world s') = tr (world s) @ concat rs \<and> length rs = n \<and> issued (first_number argv) rs (the x)"
    using assms(2)
  proof
    assume "P = is_seqnum_sv et K"
    with assms(3) obtain s1 lfd where "tr (world s1) = tr (world s)"
      "rounds (server_round et K (client_address K) SOCKADDR_STORAGE_SIZE fuel lfd) n (first_number argv) s1 = (Inr x, s')"
      using sv_reaches_rounds[OF assms(1)] by blast
    with sv_rounds_issued(1)[OF assms(1)] sv_rounds_short(1)[OF assms(1)] show ?thesis by (cases x) fastforce+
  next
    assume "P = is_seqnum_v2_sv et K"
    with assms(3) obtain s1 lfd al where "tr (world s1) = tr (world s)"
      "rounds (server_round et K (\<lambda>a l. inetAddressStr (sv_net K) a l IS_ADDR_STR_LEN) al fuel lfd) n (first_number argv) s1 = (Inr x, s')"
      using v2_reaches_rounds[OF assms(1)] by blast
    with sv_rounds_issued(2)[OF assms(1)] sv_rounds_short(2)[OF assms(1)] show ?thesis by (cases x) fastforce+
  qed
  show ?thesis
  proof (cases "x = None")
    case False
    then obtain rs where rs: "tr (world s') = tr (world s) @ concat rs" "length rs = n" "issued (first_number argv) rs (the x)"
      using main by auto
    have "\<forall>l \<in> set (map wanted rs). 0 \<le> l" by (simp add: wanted_def)
    with rs blocks_disjoint[of "first_number argv" "map wanted rs"] False show ?thesis
      by (intro if_not_P[THEN iffD2] exI[of _ rs]) auto
  qed (use main in simp)
qed

text \<open>Two clients, the texts they send, and the trace.\<close>

record demo_world =
  d_clients :: "string list"
  d_input :: string
  d_trace :: "wire list"

definition demo_net :: "demo_world netkernel" where
  "demo_net = \<lparr>
     nk_getaddrinfo = (\<lambda>h sv hi w. (Some [\<lparr>ai_family = 10, ai_socktype = 1, ai_protocol = 6, ai_addr = ''a'', ai_addrlen = 28\<rparr>], w)),
     nk_getnameinfo = (\<lambda>a l f w. None),
     nk_socket = (\<lambda>f t p w. (Inr 3, w)),
     nk_reuseaddr = (\<lambda>fd w. (Inr (), w)), nk_bind = (\<lambda>fd a l w. (Inr (), w)), nk_connect = (\<lambda>fd a l w. (Inr (), w)),
     nk_listen = (\<lambda>fd n w. (Inr (), w)), nk_close = (\<lambda>fd w. (Inr (), w))\<rparr>"

definition demo_sv :: "demo_world svkernel" where
  "demo_sv = \<lparr>sv_net = demo_net, sv_ignore_sigpipe = (\<lambda>w. (Inr (), w)),
     sv_accept = (\<lambda>fd l w. case d_clients w of [] \<Rightarrow> (Inl EAGAIN, w)
       | c # cs \<Rightarrow> (Inr (7, ''a'', 28), w\<lparr>d_clients := cs, d_input := c, d_trace := d_trace w @ [Accepted 7]\<rparr>)),
     sv_read = (\<lambda>fd w n. (Inr (take n (d_input w)), w\<lparr>d_input := drop n (d_input w), d_trace := d_trace w @ [Got fd (Inr (take n (d_input w)))]\<rparr>)),
     sv_write = (\<lambda>fd t w. (Inr (length t), w\<lparr>d_trace := d_trace w @ [Put fd t (Inr (length t))]\<rparr>)),
     sv_malloc_ok = (\<lambda>w n. True)\<rparr>"

fun put_texts :: "wire list \<Rightarrow> string list" where
  "put_texts [] = []"
| "put_texts (Put fd t (Inr n) # r) = take n t # put_texts r"
| "put_texts (x # r) = put_texts r"

lemma put_texts_append [simp]: "put_texts (a @ b) = put_texts a @ put_texts b"
  by (induction a rule: put_texts.induct) simp_all

definition demo_process :: "demo_world \<Rightarrow> demo_world process" where
  "demo_process w = \<lparr>environment = [], p_errno = E_OK, pending = [], written = [], world = w\<rparr>"

lemma demo_wire: "wire_laws d_trace demo_sv"
  by (auto simp: wire_laws_def demo_sv_def demo_net_def split: list.splits)

lemma demo_run:
  "(case is_seqnum_sv no_texts demo_sv 9 2 [''sv'', ''5''] (demo_process \<lparr>d_clients = [''3'' @ [NL], ''2'' @ [NL]], d_input = [], d_trace = []\<rparr>)
    of (r, s) \<Rightarrow> (r, put_texts (d_trace (world s)))) = (Inr (Some 10), [''5'' @ [NL], ''8'' @ [NL]])"
  by code_simp

theorem seqnum_unique_witness:
  "\<exists>rs s'. is_seqnum_sv no_texts demo_sv 9 2 [''sv'', ''5''] (demo_process \<lparr>d_clients = [''3'' @ [NL], ''2'' @ [NL]], d_input = [], d_trace = []\<rparr>)
      = (Inr (Some 10), s') \<and> d_trace (world s') = concat rs \<and> length rs = 2 \<and> issued 5 rs 10"
proof -
  let ?s = "demo_process \<lparr>d_clients = [''3'' @ [NL], ''2'' @ [NL]], d_input = [], d_trace = []\<rparr>"
  obtain s' where run: "is_seqnum_sv no_texts demo_sv 9 2 [''sv'', ''5''] ?s = (Inr (Some 10), s')"
    using demo_run by (auto split: prod.splits)
  moreover have "first_number [''sv'', ''5''] = 5" by code_simp
  moreover have "d_trace (world ?s) = []" by (simp add: demo_process_def)
  ultimately show ?thesis
    using seqnum_unique[OF demo_wire, of "is_seqnum_sv no_texts demo_sv" no_texts, OF disjI1[OF refl] run] by auto
qed

text \<open>C23: One exchange on a connection that works, however the bytes are cut into pieces and however often
  a read is interrupted: a client that asks for \<open>l\<close> numbers sends the text of \<open>l\<close> as a line; a server
  that reads such a line moves on by \<open>l\<close> and sends the line of its number; a client that reads that
  line prints it and exits successfully, and the text it prints reads back as the number, taken as a
  signed one.\<close>

theorem seqnum_exchange:
  fixes q :: "32 word"
  assumes "connection K fd inb intr out" and "1 \<le> l" "l \<le> INT_MAX"
    and "length argv > 2" "argv ! 2 = show_int l"
    and "inb (world c) = show_int (sint q) @ NL # rest" "length (inb (world c)) + intr (world c) < fuel"
    and "inb (world s) = show_int l @ NL # rest'" "length (inb (world s)) + intr (world s) < fuel"
  shows "(\<exists>s'. serve_request et K fuel fd q s = (Inr (Some (q + word_of_int l)), s')
      \<and> out (world s') = out (world s) @ show_int (sint q) @ [NL])
    \<and> (\<exists>c'. request_number et K fuel fd argv c = (Inl (Exit 0), c') \<and> out (world c') = out (world c) @ show_int l @ [NL]
      \<and> written c' = written c @ map (Pair 1) (pending c) @ [(1, (''Sequence number: %s'', [FStr (show_int (sint q) @ [NL])]))])
    \<and> atoi (show_int (sint q) @ [NL]) = sint q"
proof (intro conjI)
  show "atoi (show_int (sint q) @ [NL]) = sint q"
    using sint_ge[of q] sint_lt[of q] by (intro atoi_line) simp_all
qed (rule request_served[OF assms(1,2,3,8,9)], rule reply_printed[OF assms(1-7)])

lemma demo_connection: "connection demo_sv 7 d_input (\<lambda>_. 0) (\<lambda>w. concat (put_texts (d_trace w)))"
  by (auto simp: connection_def demo_sv_def demo_net_def reads_stream_def)

theorem seqnum_exchange_witness:
  "(\<exists>s'. serve_request no_texts demo_sv 9 7 (- 1)
      (demo_process \<lparr>d_clients = [], d_input = show_int 3 @ [NL], d_trace = []\<rparr>) = (Inr (Some 2), s')
      \<and> concat (put_texts (d_trace (world s'))) = show_int (- 1) @ [NL])
    \<and> atoi (show_int (- 1) @ [NL]) = - 1"
proof -
  have len: "length (show_int (3::int)) = 1" "length (show_int (- 1 :: int)) = 2" by code_simp+
  have s: "sint (- 1 :: 32 word) = - 1" "(- 1 :: 32 word) + word_of_int 3 = 2" by simp_all
  show ?thesis
    using seqnum_exchange[OF demo_connection, of 3 "[[], [], show_int 3]"
        "demo_process \<lparr>d_clients = [], d_input = show_int (- 1) @ [NL], d_trace = []\<rparr>" "- 1" "[]" 9
        "demo_process \<lparr>d_clients = [], d_input = show_int 3 @ [NL], d_trace = []\<rparr>" "[]" no_texts]
    by (simp add: demo_process_def len s)
qed

text \<open>The server on a FIFO does not look at the length it is asked for: with requests of length 0 it
  gives the same number to two clients, and a negative length makes it go back.\<close>

record demo_fifo =
  f_requests :: "request list"
  f_trace :: "fifo_call list"

definition demo_fk :: "demo_fifo fifokernel" where
  "demo_fk = \<lparr>fk_umask = (\<lambda>m w. w), fk_mkfifo = (\<lambda>p m w. (Inr (), w)), fk_open_rd = (\<lambda>p w. (Inr 3, w)),
     fk_open_wr = (\<lambda>p w. (Inr 4, w\<lparr>f_trace := f_trace w @ [FOpened p (Inr 4)]\<rparr>)), fk_ignore_sigpipe = (\<lambda>w. (Inr (), w)),
     fk_read = (\<lambda>fd n w. case f_requests w of [] \<Rightarrow> (Inr [], w\<lparr>f_trace := f_trace w @ [FGot (Inr [])]\<rparr>)
       | r # rs \<Rightarrow> (Inr (request_bytes r), w\<lparr>f_requests := rs, f_trace := f_trace w @ [FGot (Inr (request_bytes r))]\<rparr>)),
     fk_write = (\<lambda>fd t w. (Inr (length t), w\<lparr>f_trace := f_trace w @ [FPut fd t (Inr (length t))]\<rparr>)),
     fk_close = (\<lambda>fd w. (Inr (), w)), fk_unlink = (\<lambda>p w. (Inr (), w)), fk_getpid = (\<lambda>w. 9), fk_atexit_ok = (\<lambda>w. True)\<rparr>"

fun fifo_numbers :: "fifo_call list \<Rightarrow> int list" where
  "fifo_numbers [] = []"
| "fifo_numbers (FPut fd t res # r) = bytes_int t # fifo_numbers r"
| "fifo_numbers (x # r) = fifo_numbers r"

theorem fifo_server_repeats:
  "(case fifo_seqnum_server no_texts demo_fk 2 \<lparr>environment = [], p_errno = E_OK, pending = [], written = [],
      world = \<lparr>f_requests = [\<lparr>pid = 7, seqLen = 0\<rparr>, \<lparr>pid = 8, seqLen = - 5\<rparr>], f_trace = []\<rparr>\<rparr>
    of (r, s) \<Rightarrow> (r, fifo_numbers (f_trace (world s)))) = (Inr (Some (- 5)), [0, 0])"
  by code_simp

text \<open>C24: The server on a FIFO. Each of its rounds takes one message from the FIFO: a message that is not a
  whole request is discarded; otherwise the FIFO named after the process in the request is opened and, if
  that works, the current number is written to it and the number goes on by exactly the length in the
  request. The numbers given out by \<open>n\<close> rounds are chained in this way, and the server never gets past a
  round otherwise.\<close>

theorem fifo_rounds_chain:
  assumes "fifo_laws tr K" and "rounds (fifo_round et K fd) n q s = (Inr x, s')"
  shows "\<exists>rs. x = Some (q + sum_list (map fifo_wanted rs)) \<and> length rs = n \<and> tr (world s') = tr (world s) @ concat rs
    \<and> list_all2 fifo_session (starts (+) q (map fifo_wanted rs)) rs"
proof -
  have add: "foldl (+) q ls = q + sum_list ls" for ls :: "int list" by (induction ls arbitrary: q) (simp_all add: add.assoc)
  obtain q' where "x = Some q'"
    using svf.rounds_short[of "(tr, K)" et fd n q s s'] assms by (cases x) auto
  with svf.all_rounds[of "(tr, K)" et fd n q s q' s'] assms show ?thesis by (auto simp: add)
qed

lemma demo_fifo_run:
  "fst (rounds (fifo_round no_texts demo_fk 3) 2 5 \<lparr>environment = [], p_errno = E_OK, pending = [], written = [],
      world = \<lparr>f_requests = [\<lparr>pid = 7, seqLen = 3\<rparr>, \<lparr>pid = 8, seqLen = 2\<rparr>], f_trace = []\<rparr>\<rparr>) = Inr (Some 10)"
  by code_simp

theorem fifo_rounds_chain_witness:
  "\<exists>rs. 5 + sum_list (map fifo_wanted rs) = 10 \<and> length rs = 2 \<and> list_all2 fifo_session (starts (+) 5 (map fifo_wanted rs)) rs"
proof -
  let ?s = "\<lparr>environment = [], p_errno = E_OK, pending = [], written = [],
      world = \<lparr>f_requests = [\<lparr>pid = 7, seqLen = 3\<rparr>, \<lparr>pid = 8, seqLen = 2\<rparr>], f_trace = []\<rparr>\<rparr>"
  have laws: "fifo_laws f_trace demo_fk" by (auto simp: fifo_laws_def demo_fk_def split: list.splits)
  obtain s' where "rounds (fifo_round no_texts demo_fk 3) 2 5 ?s = (Inr (Some 10), s')"
    using demo_fifo_run by (metis prod.collapse)
  from fifo_rounds_chain[OF laws this] show ?thesis by force
qed
end
