(* ===== verification/Spec2Isabelle.thy ===== *)
theory Spec2Isabelle
  imports Num_Args Byte_IO Env_Exec Diag Seccomp_Apps Seccomp_Notify Dtree_Commands Shm_Transfer Prod_Condvar
    Sem_Init Locks Seqnum
begin

text \<open>
  A verification of the C code of the repository: the programs that accompany its notes on system
  programming, under the directory \<open>src\<close> of the system programming notes. Paths below are relative
  to that directory. The rest of the repository is notes in Markdown and small Go examples.

  \<^bold>\<open>The program.\<close> The directory is a library (\<open>lib/\<close>, whose files are kept in the
  directories of the chapters) and some two hundred programs that use it. Every program reads its
  command line (\<open>lib/get_num.c\<close>, \<open>getopt\<close>), makes system calls, and reports failures through
  \<open>lib/error_functions.c\<close>. The parts with a logic of their own are the library and four groups of
  programs: the seccomp filters with their launchers and supervisors, the monitor of directory trees
  \<open>inotify/inotify_dtree.c\<close>, the transfer of data through shared memory, and the sockets.

  \<^bold>\<open>How it is modelled.\<close> A program is a function from a state to a state and either a result or the
  way the process ends (\<open>C_Prelude\<close>: \<open>program\<close>, \<open>halt\<close>); code that runs into
  undefined behaviour ends with \<open>Undefined\<close>. The state is the process of \<open>Diag\<close>: environment,
  \<open>errno\<close>, the output still in the buffer of \<open>stdout\<close>, what has been written, and the world; the
  monitor extends the record by its global variables. The kernel, the resolver and the library
  functions of other packages are parameters: records of functions on the world. What a theorem needs
  of them is a named hypothesis in its statement, and its witness instantiates them. Machine integers
  are words where the code relies on their width (filters, cookies, flags) and \<open>int\<close> with the
  limits written out otherwise.

  \<^bold>\<open>The theories, in the order of their dependencies.\<close>

  \<^item> \<open>C_Prelude\<close>: C strings, error numbers, programs and their laws, the calculus of invariants
    (\<open>keeps\<close>), of results (\<open>yields\<close>) and of returning (\<open>resumes\<close>), decimal output, \<open>getopt\<close>.

  \<^item> \<open>Num_Args\<close>: \<open>lib/get_num.c\<close> and \<open>timers/itimerspec_from_str.c\<close> over \<open>strtol\<close> and \<open>atoi\<close>. The
    accepted arguments are characterised exactly; bounds and the round trip of a timer specification.

  \<^item> \<open>Byte_IO\<close>: \<open>sockets/rdwrn.c\<close>, \<open>sockets/read_line.c\<close>, \<open>sockets/read_line_buf.c\<close> over a \<open>read\<close> and
    a \<open>write\<close> that may be partial or interrupted. The loops take fuel; the theorems give the amount
    that always suffices (one round per byte and per interruption). The locale of line sources is
    interpreted on both readers; the buffered one is equivalent to the plain one.

  \<^item> \<open>Env_Exec\<close>: \<open>proc/setenv.c\<close> and \<open>procexec/execlp.c\<close>. The in-place loop of \<open>unsetenv\<close> is a filter;
    \<open>execlp\<close> refines the search along \<open>PATH\<close> and overflows its array for scripts.

  \<^item> \<open>Diag\<close>: \<open>lib/error_functions.c\<close> and \<open>lib/alt_functions.c\<close>, with the buffering of the output and
    the dead code behind a call that ends the process.

  \<^item> \<open>Bpf\<close>, \<open>Seccomp_Filters\<close>, \<open>Seccomp_Apps\<close>: the filter machine with the checks of the kernel, the
    filters of \<open>seccomp/*.c\<close> instruction by instruction, and the programs around them up to a kernel
    that enforces what is installed. Filters only jump forward, so running one needs no fuel beyond
    its length; every filter is accepted and decides.

  \<^item> \<open>Scm\<close>, \<open>Seccomp_Notify\<close>: \<open>sockets/scm_functions.c\<close>, \<open>seccomp/seccomp_functions.c\<close> and the two
    supervisors \<open>seccomp_unotify_mkdir.c\<close> and \<open>seccomp_unotify_openat.c\<close>. A path name is used only
    between two checks of the notification, and each iteration answers exactly once.

  \<^item> \<open>Dtree_Cache\<close>, \<open>Dtree_Watch\<close>, \<open>Dtree_Events\<close>, \<open>Dtree_Commands\<close>: \<open>inotify/inotify_dtree.c\<close> in
    four parts: the array of watches, which refines a map from watch descriptors to paths through the
    interpretation of a locale; the root directories and the walks over a subtree; the processing of
    events with renames, moves out of the trees, unknown descriptors and overflows; the commands and
    the main loop, as an inductive set of the states at the head of the loop with its invariant. The
    processing of a buffer takes fuel, and two rounds per event are enough.

  \<^item> \<open>Shm_Transfer\<close>: \<open>svsem/binary_sems.c\<close> and the two programs \<open>svshm/svshm_xfr_writer.c\<close> and
    \<open>svshm/svshm_xfr_reader.c\<close> as processes that interleave one system call at a time, with failing
    calls as steps of their own. Safety is an invariant over all interleavings; termination is a
    measure, through the interpretation of a locale of terminating systems.

  \<^item> \<open>Sockets\<close>: \<open>sockets/inet_sockets.c\<close> and \<open>sockets/unix_sockets.c\<close>, with the accounting of the
    descriptors they open and close.

  \<^item> \<open>Wp\<close>: weakest preconditions of programs, with rules for calls that may fail, for reported errors and
    for handlers at the end of a process. The theories below use it.

  \<^item> \<open>Seqnum\<close>: the two sequence number services \<open>sockets/is_seqnum_*.c\<close> and \<open>pipes/fifo_seqnum_*.c\<close>. The
    rounds of the server are the interpretation of a locale of services; the numbers given out are consecutive
    and never the same, and an exchange on the wire returns the server's number.

  \<^item> \<open>Locks\<close>: \<open>filelock/region_locking.c\<close>, \<open>filelock/create_pid_file.c\<close>, \<open>svsem/event_flags.c\<close>,
    with other processes at work: a PID file has one owner, and what it contains is the owner's number.

  \<^item> \<open>Prod_Condvar\<close>: \<open>threads/prod_condvar.c\<close> as threads that interleave arbitrarily; an invariant over all
    reachable states, absence of deadlock, and a measure that bounds the number of steps.

  \<^item> \<open>Sem_Init\<close>: \<open>svsem/svsem_good_init.c\<close> and \<open>svsem/svsem_bad_init.c\<close>, with any number of processes that interleave
    arbitrarily. With the first, no operation is lost; with the second, one can be. A process makes at most 14 steps.

  \<^bold>\<open>What the groups of theorems assume.\<close> The kernel is never assumed to succeed unless that is documented or
  named as a hypothesis: the filters are installed for a process with \<open>no_new_privs\<close> only and enforced from then
  on (\<open>filters_tracked\<close>, \<open>grants_filters\<close>, \<open>seeks_filtered\<close>); descriptors stand for files (\<open>serves_files\<close>,
  \<open>passes_fds\<close>); \<open>read\<close> and \<open>write\<close> deliver or take a part of what is asked (\<open>reads_stream\<close>, \<open>writes_stream\<close>);
  what the kernel answers to the calls that add and remove watches is stated call by call (\<open>watch_calls\<close>,
  \<open>rm_watches\<close>) and may be a failure at any of them.

  \<^bold>\<open>Defects.\<close> Where the code does not do what it means to do, the definitions say what it does:
  the array overflow of \<open>execShScript\<close>, the missing returns after usage errors, filter
  files cut at a 16-bit length, unchecked \<open>strdup\<close> and \<open>fopen\<close> in the monitor, its directory test on
  unused slots, the socket that \<open>inetListen\<close> leaves open, the lengths that the FIFO server does not check,
  the stale error number that \<open>writen\<close> leaves when \<open>write\<close> returns 0, and
  the consumer that waits for ever when nothing is asked for.

  \<^bold>\<open>Not modelled.\<close> Programs whose subject is what an asynchronous signal handler interrupts, and job
  control; the demonstrations that only print what a system call returns, benchmarks and generators; programs on
  libacl, libcap, libseccomp and libcrypt; the programs on namespaces and pseudoterminals; scripts and Go code.
  Of the modelled programs: the memory of freed blocks, the text of kernel messages, the times in printed lines,
  and the overflow of counters that only appear in statistics.
\<close>

end
